(* ===== verification/Prelude.thy ===== *)
theory Prelude
  imports Main "HOL-Library.Sublist"
begin

text \<open>
  Shared vocabulary of the RouteCat development.

  \<^item> Go's \<open>int\<close> and \<open>int64\<close> (both 64 bits on the deployed platform, linux/amd64) are modelled by
    \<open>int\<close> values; every Go addition, subtraction or multiplication whose overflow could matter is
    wrapped by \<open>wrap64\<close>, two's complement on 64 bits.
  \<^item> Go strings and byte slices are byte strings: \<open>string\<close>, a list of 8-bit characters.
  \<^item> The functions of Go's package \<open>strings\<close> that the source calls.
  \<^item> Times: \<open>time.Time\<close> is an \<open>int\<close> of nanoseconds since the Unix epoch; the database stores
    whole seconds.
  \<^item> Go maps are HOL maps; a \<open>range\<close> over a map visits the entries in an unspecified order,
    so a model function that ranges over a map takes the order of its keys as an argument.
  \<^item> Collections of facts: \<open>go_arith\<close> (wrap-around), \<open>go_str\<close> (strings), \<open>map_walk\<close> (ranging over
    maps), \<open>db_frame\<close> (the tables a store operation leaves alone).
\<close>

named_theorems go_arith \<open>64-bit arithmetic\<close>
named_theorems go_str \<open>operations of package strings\<close>
named_theorems map_walk \<open>ranging over a Go map\<close>
named_theorems db_frame \<open>what a store operation leaves alone\<close>

section \<open>64-bit integers\<close>

type_synonym int64 = int
type_synonym time = int

abbreviation max_int64 :: int where "max_int64 \<equiv> 2 ^ 63 - 1"
abbreviation min_int64 :: int where "min_int64 \<equiv> - (2 ^ 63)"

definition wrap64 :: "int \<Rightarrow> int64" where
  "wrap64 n = (n + 2 ^ 63) mod 2 ^ 64 - 2 ^ 63"

definition in_int64 :: "int \<Rightarrow> bool" where
  "in_int64 n \<longleftrightarrow> min_int64 \<le> n \<and> n \<le> max_int64"

lemma wrap64_id [simp]: "in_int64 n \<Longrightarrow> wrap64 n = n"
  by (simp add: wrap64_def in_int64_def)

lemma wrap64_range [simp]: "in_int64 (wrap64 n)"
proof -
  have "0 \<le> (n + 2 ^ 63) mod 2 ^ 64" and "(n + 2 ^ 63) mod 2 ^ 64 < 2 ^ 64"
    by simp_all
  then show ?thesis by (simp add: wrap64_def in_int64_def)
qed

lemma wrap64_0 [simp]: "wrap64 0 = 0"
  by (simp add: wrap64_def)

lemma wrap64_idem [simp]: "wrap64 (wrap64 n) = wrap64 n"
  by simp

lemma wrap64_cong: "(wrap64 n) mod 2 ^ 64 = n mod 2 ^ 64"
proof -
  have "((n + 2 ^ 63) mod 2 ^ 64 - 2 ^ 63) mod 2 ^ 64 = ((n + 2 ^ 63) - 2 ^ 63) mod (2 ^ 64 :: int)"
    by (rule mod_diff_left_eq)
  then show ?thesis by (simp add: wrap64_def)
qed

lemma wrap64_eqI: "m mod 2 ^ 64 = n mod 2 ^ 64 \<Longrightarrow> wrap64 m = wrap64 n"
  unfolding wrap64_def by (metis mod_add_left_eq)

lemma wrap64_add_wrap: "wrap64 (wrap64 a + b) = wrap64 (a + b)"
  by (rule wrap64_eqI) (metis mod_add_left_eq wrap64_cong)

lemma wrap64_plus_minus: "wrap64 (wrap64 (a - b) + b) = wrap64 a"
  by (simp add: wrap64_add_wrap)

lemma in_int64_nonneg: "0 \<le> n \<Longrightarrow> n < 2 ^ 63 \<Longrightarrow> in_int64 n"
  by (simp add: in_int64_def)

lemma in_int64_le: "0 \<le> n \<Longrightarrow> n \<le> m \<Longrightarrow> m < 2 ^ 63 \<Longrightarrow> in_int64 n"
  by (simp add: in_int64_def)

lemmas go_int [go_arith] = wrap64_id wrap64_range in_int64_nonneg

text \<open>Go's integer division truncates towards zero.\<close>

definition quo :: "int \<Rightarrow> int \<Rightarrow> int" where
  "quo a b = sgn a * sgn b * (\<bar>a\<bar> div \<bar>b\<bar>)"

lemma quo_nonneg [simp]: "0 \<le> a \<Longrightarrow> 0 < b \<Longrightarrow> quo a b = a div b"
  by (cases "a = 0") (simp_all add: quo_def)

section \<open>Package strings\<close>

definition HasPrefix :: "string \<Rightarrow> string \<Rightarrow> bool" where
  "HasPrefix s p \<longleftrightarrow> take (length p) s = p"

definition HasSuffix :: "string \<Rightarrow> string \<Rightarrow> bool" where
  "HasSuffix s p \<longleftrightarrow> HasPrefix (rev s) (rev p)"

definition TrimPrefix :: "string \<Rightarrow> string \<Rightarrow> string" where
  "TrimPrefix s p = (if HasPrefix s p then drop (length p) s else s)"

fun Contains :: "string \<Rightarrow> string \<Rightarrow> bool" where
  "Contains [] p = (p = [])"
| "Contains (c # s) p = (HasPrefix (c # s) p \<or> Contains s p)"

text \<open>\<open>strings.Split\<close> with a one-byte separator, the only way the source calls it.\<close>

fun Split :: "string \<Rightarrow> char \<Rightarrow> string list" where
  "Split [] d = [[]]"
| "Split (c # s) d =
     (if c = d then [] # Split s d
      else (case Split s d of [] \<Rightarrow> [[c]] | w # ws \<Rightarrow> (c # w) # ws))"

text \<open>\<open>strings.SplitN(s, d, 2)\<close>: at most two parts, cut at the first separator.\<close>

fun SplitN2 :: "string \<Rightarrow> char \<Rightarrow> string list" where
  "SplitN2 [] d = [[]]"
| "SplitN2 (c # s) d =
     (if c = d then [[], s]
      else (case SplitN2 s d of [] \<Rightarrow> [[c]] | w # ws \<Rightarrow> (c # w) # ws))"

text \<open>The UTF-8 encodings of the runes for which \<open>unicode.IsSpace\<close> holds.\<close>

definition space_runes :: "string list" where
  "space_runes =
     map (\<lambda>n. [char_of n]) [9, 10, 11, 12, 13, 32 :: nat] @
     map (map char_of)
       ([[0xC2, 0x85], [0xC2, 0xA0], [0xE1, 0x9A, 0x80],
         [0xE2, 0x80, 0xA8], [0xE2, 0x80, 0xA9], [0xE2, 0x80, 0xAF],
         [0xE2, 0x81, 0x9F], [0xE3, 0x80, 0x80]] @
        map (\<lambda>n. [0xE2, 0x80, n]) [0x80 ..< 0x8B :: nat])"

fun strip_front :: "nat \<Rightarrow> string list \<Rightarrow> string \<Rightarrow> string" where
  "strip_front 0 rs s = s"
| "strip_front (Suc n) rs s =
     (case find (HasPrefix s) rs of None \<Rightarrow> s | Some r \<Rightarrow> strip_front n rs (drop (length r) s))"

definition TrimSpace :: "string \<Rightarrow> string" where
  "TrimSpace s =
     (let s1 = strip_front (length s) space_runes s
      in rev (strip_front (length s1) (map rev space_runes) (rev s1)))"

text \<open>The table as literals, for evaluation.\<close>

lemma space_runes_code [code]:
  "space_runes =
     [[CHR 0x09], [CHR 0x0A], [CHR 0x0B], [CHR 0x0C], [CHR 0x0D], [CHR '' ''],
      [CHR 0xC2, CHR 0x85], [CHR 0xC2, CHR 0xA0], [CHR 0xE1, CHR 0x9A, CHR 0x80],
      [CHR 0xE2, CHR 0x80, CHR 0xA8], [CHR 0xE2, CHR 0x80, CHR 0xA9], [CHR 0xE2, CHR 0x80, CHR 0xAF],
      [CHR 0xE2, CHR 0x81, CHR 0x9F], [CHR 0xE3, CHR 0x80, CHR 0x80],
      [CHR 0xE2, CHR 0x80, CHR 0x80], [CHR 0xE2, CHR 0x80, CHR 0x81], [CHR 0xE2, CHR 0x80, CHR 0x82],
      [CHR 0xE2, CHR 0x80, CHR 0x83], [CHR 0xE2, CHR 0x80, CHR 0x84], [CHR 0xE2, CHR 0x80, CHR 0x85],
      [CHR 0xE2, CHR 0x80, CHR 0x86], [CHR 0xE2, CHR 0x80, CHR 0x87], [CHR 0xE2, CHR 0x80, CHR 0x88],
      [CHR 0xE2, CHR 0x80, CHR 0x89], [CHR 0xE2, CHR 0x80, CHR 0x8A]]"
  by (simp add: space_runes_def char_of_def upt_rec bit_Suc_0_iff)

lemma HasPrefix_iff [go_str]: "HasPrefix s p \<longleftrightarrow> prefix p s"
  by (auto simp: HasPrefix_def prefix_def) (metis append_take_drop_id)

lemma HasPrefix_append [simp]: "HasPrefix (p @ s) p"
  by (simp add: HasPrefix_def)

lemma TrimPrefix_append [simp]: "TrimPrefix (p @ s) p = s"
  by (simp add: TrimPrefix_def)

lemma HasSuffix_iff [go_str]: "HasSuffix s p \<longleftrightarrow> suffix p s"
  by (simp add: HasSuffix_def HasPrefix_iff suffix_to_prefix)

lemma Contains_iff [go_str]: "Contains s p \<longleftrightarrow> sublist p s"
  by (induction s) (auto simp: HasPrefix_iff sublist_Cons_right)

lemma Split_not_Nil [simp]: "Split s d \<noteq> []"
  by (induction s) (auto split: list.splits)

lemma Split_fields: "w \<in> set (Split s d) \<Longrightarrow> d \<notin> set w"
proof (induction s arbitrary: w)
  case Nil
  then show ?case by simp
next
  case (Cons c s)
  obtain v vs where v: "Split s d = v # vs"
    by (cases "Split s d") auto
  from Cons v show ?case by (auto split: if_splits)
qed

lemma Split_no_sep: "d \<notin> set s \<Longrightarrow> Split s d = [s]"
  by (induction s) auto

lemma SplitN2_no_sep: "d \<notin> set s \<Longrightarrow> SplitN2 s d = [s]"
  by (induction s) auto

lemma SplitN2_sep: "d \<notin> set u \<Longrightarrow> SplitN2 (u @ d # v) d = [u, v]"
  by (induction u) auto

lemma SplitN2_cases:
  "(d \<notin> set s \<and> SplitN2 s d = [s]) \<or>
   (\<exists>u v. s = u @ d # v \<and> d \<notin> set u \<and> SplitN2 s d = [u, v])"
proof (cases "d \<in> set s")
  case True
  then obtain u v where "s = u @ d # v" "d \<notin> set u"
    by (auto dest: split_list_first)
  then show ?thesis using SplitN2_sep by metis
next
  case False
  then show ?thesis by (simp add: SplitN2_no_sep)
qed

section \<open>Maps and ranging over them\<close>

text \<open>
  \<open>for k, v := range m\<close> visits every entry once, in an order the language leaves open. The order
  is an argument \<open>ks\<close>; \<open>enumerates ks m\<close> says that it is one of the orders Go may choose.
\<close>

definition enumerates :: "'k list \<Rightarrow> ('k \<rightharpoonup> 'v) \<Rightarrow> bool" where
  "enumerates ks m \<longleftrightarrow> distinct ks \<and> set ks = dom m"

definition range_map :: "'k list \<Rightarrow> ('k \<rightharpoonup> 'v) \<Rightarrow> 'v list" where
  "range_map ks m = List.map_filter m ks"

lemma range_map_simps [simp]:
  "range_map [] m = []"
  "range_map (k # ks) m = (case m k of None \<Rightarrow> range_map ks m | Some v \<Rightarrow> v # range_map ks m)"
  by (simp_all add: range_map_def List.map_filter_simps split: option.splits)

lemma set_range_map [map_walk]: "set (range_map ks m) = {v. \<exists>k\<in>set ks. m k = Some v}"
  by (induction ks) (auto split: option.splits)

lemma set_range_map_enum [map_walk]: "enumerates ks m \<Longrightarrow> set (range_map ks m) = ran m"
  by (auto simp: set_range_map enumerates_def ran_def dom_def)

lemma length_range_map: "enumerates ks m \<Longrightarrow> length (range_map ks m) = card (dom m)"
proof -
  have "set ks \<subseteq> dom m \<Longrightarrow> length (range_map ks m) = length ks"
    by (induction ks) auto
  then show "enumerates ks m \<Longrightarrow> ?thesis"
    by (metis distinct_card enumerates_def order_refl)
qed

section \<open>Lists as tables\<close>

text \<open>A table with a unique column: looking a row up and rewriting the rows that match.\<close>

lemma find_Some_set: "find P xs = Some x \<Longrightarrow> x \<in> set xs \<and> P x"
  by (induction xs) (auto split: if_splits)

lemma find_None_iff_set: "find P xs = None \<longleftrightarrow> (\<forall>x\<in>set xs. \<not> P x)"
  by (induction xs) auto

lemma find_unique:
  "distinct (map f xs) \<Longrightarrow> x \<in> set xs \<Longrightarrow> find (\<lambda>y. f y = f x) xs = Some x"
  by (induction xs) (auto simp: image_iff)

lemma map_map_if_key:
  "(\<And>x. f (g x) = f x) \<Longrightarrow> map f (map (\<lambda>x. if P x then g x else x) xs) = map f xs"
  by (induction xs) auto

end
