(* ===== verification/Float64.thy ===== *)
theory Float64
  imports Prelude "HOL-Library.Log_Nat"
begin

text \<open>
  Go's \<open>float64\<close>: IEEE 754 binary64 with round-to-nearest, ties to even, as the language
  specification and linux/amd64 give it (there is no fused multiply-add on that target). A finite
  value is the rational number it stands for; the two zeros are one value, which no operation of
  the source can tell apart (it never divides by a zero, and compares a zero only with numbers).
  \<^item> \<open>rnd\<close> rounds a rational to the nearest multiple of the unit in the last place, with the
    subnormal range of the format and no upper limit; \<open>round64\<close> turns what is too large into an
    infinity.
  \<^item> \<open>+\<close>, \<open>-\<close>, \<open>*\<close>, \<open>/\<close>, \<open><\<close> and \<open>\<le>\<close> on \<open>f64\<close> are the operations of the format, each rounded once.
  \<^item> \<open>float_of_int\<close> and \<open>int_of_float\<close> are the conversions \<open>float64(n)\<close> and \<open>int64(x)\<close>. The latter
    truncates; where the value does not fit, Go leaves the result to the implementation, so it is
    some unspecified 64-bit integer here.
  The lemmas: \<open>rnd\<close> is monotone, exact on the integers up to \<open>2^53\<close>, and within a relative error of
  \<open>2^-53\<close>.
\<close>

section \<open>Rounding\<close>

abbreviation pow2 :: "int \<Rightarrow> rat" where "pow2 e \<equiv> 2 powi e"

definition ilog2 :: "rat \<Rightarrow> int" where
  "ilog2 q =
     (if 1 \<le> q then int (floorlog 2 (nat \<lfloor>q\<rfloor>)) - 1
      else - int (floorlog 2 (nat (\<lceil>1 / q\<rceil> - 1))))"

definition rne :: "rat \<Rightarrow> int" where
  "rne x =
     (let f = \<lfloor>x\<rfloor>; r = x - of_int f
      in if r < 1/2 then f else if 1/2 < r then f + 1 else if even f then f else f + 1)"

definition ulp_exp :: "rat \<Rightarrow> int" where
  "ulp_exp q = max (ilog2 \<bar>q\<bar> - 52) (-1074)"

definition rnd :: "rat \<Rightarrow> rat" where
  "rnd q = (if q = 0 then 0 else of_int (rne (q / pow2 (ulp_exp q))) * pow2 (ulp_exp q))"

subsection \<open>The exponent\<close>

lemma pow2_pos [simp]: "0 < pow2 e"
  by simp

lemma pow2_add: "pow2 (a + b) = pow2 a * pow2 b"
  by (simp add: power_int_add)

lemma pow2_mono: "a \<le> b \<Longrightarrow> pow2 a \<le> pow2 b"
  by (simp add: power_int_increasing)

lemma pow2_strict_mono: "a < b \<Longrightarrow> pow2 a < pow2 b"
  by (simp add: power_int_strict_increasing)

lemma pow2_less_cancel: "pow2 a < pow2 b \<longleftrightarrow> a < b"
  by (meson linorder_not_less pow2_mono pow2_strict_mono)

lemma pow2_nat: "0 \<le> e \<Longrightarrow> pow2 e = of_int (2 ^ nat e)"
  by (simp add: power_int_def)

lemma floorlog2_bounds:
  "0 < n \<Longrightarrow> 2 ^ (floorlog 2 n - 1) \<le> n \<and> n < 2 ^ floorlog 2 n"
  using floorlog_bounds [of n 2] by simp

lemma floorlog2_pos: "0 < n \<Longrightarrow> 0 < floorlog 2 n"
  by (simp add: floorlog_def)

lemma ilog2_ge1: assumes "1 \<le> q" shows "pow2 (ilog2 q) \<le> q \<and> q < pow2 (ilog2 q + 1)"
proof -
  let ?n = "nat \<lfloor>q\<rfloor>"
  have n: "0 < ?n" using assms by simp
  have e: "ilog2 q = int (floorlog 2 ?n - 1)" "ilog2 q + 1 = int (floorlog 2 ?n)"
    using assms floorlog2_pos [OF n] by (auto simp: ilog2_def of_nat_diff)
  have "of_nat (2 ^ (floorlog 2 ?n - 1)) \<le> (of_nat ?n :: rat)"
    using floorlog2_bounds [OF n] by (simp only: of_nat_le_iff)
  also have "of_nat ?n \<le> q" using assms by (simp add: of_nat_nat)
  finally have lo: "pow2 (ilog2 q) \<le> q" by (simp add: e(1) del: of_nat_diff)
  have "q < of_nat (?n + 1)" using assms by (simp add: of_nat_nat) linarith
  also have "of_nat (?n + 1) \<le> (of_nat (2 ^ floorlog 2 ?n) :: rat)"
    unfolding of_nat_le_iff using floorlog2_bounds [OF n] by linarith
  finally show ?thesis using lo by (simp add: e(2))
qed

lemma ilog2_lt1:
  assumes "0 < q" "q < 1" shows "pow2 (ilog2 q) \<le> q \<and> q < pow2 (ilog2 q + 1)"
proof -
  let ?x = "1 / q" let ?n = "nat (\<lceil>?x\<rceil> - 1)" let ?k = "floorlog 2 ?n"
  have x: "1 < ?x" using assms by simp
  have n: "0 < ?n" using x by simp
  have e: "ilog2 q = - int ?k" "ilog2 q + 1 = - int (?k - 1)"
    using assms floorlog2_pos [OF n] by (auto simp: ilog2_def of_nat_diff)
  have n_eq: "(of_nat ?n :: rat) = of_int \<lceil>?x\<rceil> - 1" using of_nat_nat [of "\<lceil>?x\<rceil> - 1", where 'a = rat] n by (simp only: of_int_diff of_int_1 zero_less_nat_eq)
  have "?x \<le> of_nat (?n + 1)" using n_eq by simp
  also have "of_nat (?n + 1) \<le> (of_nat (2 ^ ?k) :: rat)"
    unfolding of_nat_le_iff using floorlog2_bounds [OF n] by linarith
  finally have "?x \<le> 2 ^ ?k" by simp
  then have "1 \<le> 2 ^ ?k * q" using assms by (simp add: field_simps)
  then have lo: "1 / 2 ^ ?k \<le> q" by (simp add: field_simps)
  have "of_nat (2 ^ (?k - 1)) \<le> (of_nat ?n :: rat)"
    using floorlog2_bounds [OF n] by (simp only: of_nat_le_iff)
  also have "of_nat ?n < ?x" using n_eq by linarith
  finally have "2 ^ (?k - 1) * q < 1" using assms by (simp add: field_simps)
  then have hi: "q < 1 / 2 ^ (?k - 1)" by (simp add: field_simps)
  show ?thesis
  proof
    show "pow2 (ilog2 q) \<le> q" using lo by (simp add: e(1) power_int_minus inverse_eq_divide)
    show "q < pow2 (ilog2 q + 1)"
      unfolding e(2) using hi by (simp add: power_int_minus inverse_eq_divide del: of_nat_diff)
  qed
qed

lemma ilog2_bounds: "0 < q \<Longrightarrow> pow2 (ilog2 q) \<le> q \<and> q < pow2 (ilog2 q + 1)"
  using ilog2_ge1 ilog2_lt1 linorder_not_less by metis

lemma ilog2_unique: assumes "pow2 e \<le> q" "q < pow2 (e + 1)" shows "ilog2 q = e"
proof -
  have q: "0 < q" using assms(1) pow2_pos [of e] by linarith
  note b = ilog2_bounds [OF q]
  have "pow2 (ilog2 q) < pow2 (e + 1)" "pow2 e < pow2 (ilog2 q + 1)"
    using b assms by linarith+
  then show ?thesis by (simp only: pow2_less_cancel)
qed

lemma ilog2_mono: assumes "0 < q" "q \<le> r" shows "ilog2 q \<le> ilog2 r"
proof -
  have r: "0 < r" using assms by linarith
  have "pow2 (ilog2 q) < pow2 (ilog2 r + 1)"
    using ilog2_bounds [OF assms(1)] ilog2_bounds [OF r] assms(2) by linarith
  then show ?thesis by (simp only: pow2_less_cancel)
qed

subsection \<open>Rounding to an integer\<close>

lemma rne_of_int [simp]: "rne (of_int n) = n"
  by (simp add: rne_def)

lemma rne_floor: "\<lfloor>x\<rfloor> \<le> rne x \<and> rne x \<le> \<lfloor>x\<rfloor> + 1"
  by (simp add: rne_def Let_def)

lemma rne_mono: assumes "x \<le> y" shows "rne x \<le> rne y"
proof (cases "\<lfloor>x\<rfloor> = \<lfloor>y\<rfloor>")
  case True
  then show ?thesis using assms by (auto simp: rne_def Let_def)
next
  case False
  then have "\<lfloor>x\<rfloor> + 1 \<le> \<lfloor>y\<rfloor>" using floor_mono [OF assms] by simp
  then show ?thesis using rne_floor [of x] rne_floor [of y] by linarith
qed

lemma rne_error: "\<bar>of_int (rne x) - x\<bar> \<le> 1/2"
proof -
  obtain f where f: "\<lfloor>x\<rfloor> = f" by blast
  then have "of_int f \<le> x" "x < of_int f + 1" by linarith+
  then show ?thesis by (auto simp: rne_def Let_def f abs_if field_simps)
qed

lemma rne_near: fixes x :: rat assumes "2 * \<bar>x - of_int m\<bar> < 1" shows "rne x = m"
proof -
  have "\<bar>of_int (rne x) - of_int m\<bar> \<le> \<bar>of_int (rne x) - x\<bar> + \<bar>x - of_int m\<bar>"
    using abs_triangle_ineq [of "of_int (rne x) - x" "x - of_int m"] by simp
  also have "\<dots> < 1" using rne_error [of x] assms by (simp only: mult_2)
  finally have "\<bar>of_int (rne x) - of_int m\<bar> < (1 :: rat)" .
  then have "of_int \<bar>rne x - m\<bar> < (1 :: rat)" by simp
  then have "\<bar>rne x - m\<bar> < 1" by (simp only: of_int_less_1_iff)
  then show ?thesis by simp
qed

lemma rne_minus: "rne (- x) = - rne x"
proof (cases "x \<in> \<int>")
  case True
  then obtain n where "x = of_int n" by (rule Ints_cases)
  then show ?thesis by (metis of_int_minus rne_of_int)
next
  case False
  then have "\<lfloor>- x\<rfloor> = - \<lfloor>x\<rfloor> - 1"
    by (simp add: floor_minus ceiling_altdef) (metis Ints_of_int)
  then show ?thesis by (auto simp: rne_def Let_def)
qed

subsection \<open>Rounding to a multiple of the last place\<close>

lemma rnd_0 [simp]: "rnd 0 = 0"
  by (simp add: rnd_def)

lemma rnd_minus: "rnd (- q) = - rnd q"
  by (simp add: rnd_def ulp_exp_def rne_minus)

lemma rnd_lattice:
  assumes "q \<noteq> 0"
  shows "of_int m * pow2 (ulp_exp q) \<le> q \<Longrightarrow> of_int m * pow2 (ulp_exp q) \<le> rnd q"
    and "q \<le> of_int m * pow2 (ulp_exp q) \<Longrightarrow> rnd q \<le> of_int m * pow2 (ulp_exp q)"
proof -
  let ?u = "pow2 (ulp_exp q)"
  have u: "0 < ?u" by simp
  show "of_int m * ?u \<le> rnd q" if "of_int m * ?u \<le> q"
    using rne_mono [of "of_int m" "q / ?u"] that u assms
    by (simp add: rnd_def field_simps)
  show "rnd q \<le> of_int m * ?u" if "q \<le> of_int m * ?u"
    using rne_mono [of "q / ?u" "of_int m"] that u assms
    by (simp add: rnd_def field_simps)
qed

lemma pow2_multiple:
  assumes "j \<le> k" obtains m :: int where "pow2 k = of_int m * pow2 j" "0 < m"
proof
  show "pow2 k = of_int (2 ^ nat (k - j)) * pow2 j"
    using assms pow2_add [of "k - j" j] pow2_nat [of "k - j"] by simp
qed simp

lemma rnd_pow2_bounds:
  assumes "q \<noteq> 0" "ulp_exp q \<le> k"
  shows "pow2 k \<le> q \<Longrightarrow> pow2 k \<le> rnd q" and "q \<le> pow2 k \<Longrightarrow> rnd q \<le> pow2 k"
  using pow2_multiple [OF assms(2)] rnd_lattice [OF assms(1)] by metis+

lemma ulp_exp_mono: "0 < q \<Longrightarrow> q \<le> r \<Longrightarrow> ulp_exp q \<le> ulp_exp r"
  using ilog2_mono [of q r] by (simp add: ulp_exp_def)

lemma rnd_nonneg: assumes "0 \<le> q" shows "0 \<le> rnd q"
  using rnd_lattice(1) [of q 0] assms by (cases "q = 0") auto

lemma rnd_mono_pos: assumes "0 < q" "q \<le> r" shows "rnd q \<le> rnd r"
proof (cases "ulp_exp q = ulp_exp r")
  case True
  let ?u = "pow2 (ulp_exp r)"
  have "rne (q / ?u) \<le> rne (r / ?u)"
    by (rule rne_mono) (simp add: assms(2) divide_right_mono)
  then show ?thesis using assms True by (simp add: rnd_def)
next
  case False
  then have less: "ulp_exp q < ulp_exp r" using ulp_exp_mono assms by force
  then have k: "ulp_exp r = ilog2 r - 52" "ilog2 q < ilog2 r"
    using assms by (auto simp: ulp_exp_def)
  have "q \<le> pow2 (ilog2 r)"
    using ilog2_bounds [OF assms(1)] pow2_mono [of "ilog2 q + 1" "ilog2 r"] k(2) by linarith
  then have "rnd q \<le> pow2 (ilog2 r)"
    using rnd_pow2_bounds(2) [of q "ilog2 r"] less k(1) assms(1) by force
  also have "pow2 (ilog2 r) \<le> rnd r"
    using rnd_pow2_bounds(1) [of r "ilog2 r"] ilog2_bounds [of r] k(1) assms by force
  finally show ?thesis .
qed

lemma rnd_mono: assumes "q \<le> r" shows "rnd q \<le> rnd r"
proof -
  consider "0 < q" | "q \<le> 0" "0 \<le> r" | "r < 0" by linarith
  then show ?thesis
  proof cases
    case 1
    then show ?thesis using assms by (rule rnd_mono_pos)
  next
    case 2
    then show ?thesis using rnd_nonneg [of r] rnd_nonneg [of "- q"] by (simp add: rnd_minus)
  next
    case 3
    then show ?thesis using rnd_mono_pos [of "- r" "- q"] assms by (simp add: rnd_minus)
  qed
qed

subsection \<open>Exact values and the relative error\<close>

lemma rnd_multiple:
  assumes "q = of_int m * pow2 k" "ulp_exp q \<le> k" shows "rnd q = q"
proof (cases "q = 0")
  case False
  from pow2_multiple [OF assms(2)] obtain n where n: "pow2 k = of_int n * pow2 (ulp_exp q)" .
  then have "q = of_int (m * n) * pow2 (ulp_exp q)" using assms(1) by simp
  then show ?thesis using rnd_lattice [OF False, of "m * n"] by simp
qed simp

lemma rnd_pow2: assumes "-1074 \<le> k" shows "rnd (pow2 k) = pow2 k"
proof -
  have "ilog2 (pow2 k) = k" by (rule ilog2_unique) (simp_all add: pow2_strict_mono)
  then show ?thesis using assms rnd_multiple [of "pow2 k" 1 k] by (simp add: ulp_exp_def)
qed

lemma rnd_exact_pos:
  assumes "0 < m" "m \<le> 2 ^ 53" "-1074 \<le> k"
  shows "rnd (of_int m * pow2 k) = of_int m * pow2 k"
proof (cases "m = 2 ^ 53")
  case True
  then have "of_int m * pow2 k = pow2 (53 + k)"
    by (simp only: True pow2_add) (simp add: power_int_def)
  then show ?thesis using rnd_pow2 [of "53 + k"] assms(3) by simp
next
  case False
  let ?q = "of_int m * pow2 k"
  have q: "0 < ?q" using assms(1) by simp
  have "of_int m < (of_int (2 ^ 53) :: rat)" using assms(2) False by (simp only: of_int_less_iff)
  then have "?q < pow2 (53 + k)" by (simp only: pow2_add) (simp add: power_int_def)
  then have "pow2 (ilog2 ?q) < pow2 (53 + k)" using ilog2_bounds [OF q] by linarith
  then have "ulp_exp ?q \<le> k" using q assms(3) by (simp only: pow2_less_cancel) (simp add: ulp_exp_def)
  then show ?thesis by (rule rnd_multiple [OF refl])
qed

lemma rnd_exact:
  assumes "\<bar>m\<bar> \<le> 2 ^ 53" "-1074 \<le> k" shows "rnd (of_int m * pow2 k) = of_int m * pow2 k"
proof -
  consider "0 < m" | "m = 0" | "0 < - m" by linarith
  then show ?thesis
  proof cases
    case 3
    then have "rnd (of_int (- m) * pow2 k) = of_int (- m) * pow2 k"
      using assms by (intro rnd_exact_pos) auto
    then show ?thesis by (simp add: rnd_minus)
  qed (use assms in \<open>auto intro: rnd_exact_pos\<close>)
qed

lemma rnd_of_int: "\<bar>m\<bar> \<le> 2 ^ 53 \<Longrightarrow> rnd (of_int m) = of_int m"
  using rnd_exact [of m 0] by simp

lemma rnd_rel_error:
  assumes "pow2 (-1022) \<le> \<bar>q\<bar>" shows "\<bar>rnd q - q\<bar> \<le> \<bar>q\<bar> * pow2 (-53)"
proof -
  have q: "0 < \<bar>q\<bar>" using assms pow2_pos [of "-1022"] by linarith
  let ?E = "ilog2 \<bar>q\<bar>" let ?u = "pow2 (ulp_exp q)"
  have "pow2 (-1022) < pow2 (?E + 1)" using assms ilog2_bounds [OF q] by linarith
  then have E: "ulp_exp q = ?E - 52" by (simp only: pow2_less_cancel) (simp add: ulp_exp_def)
  have "rnd q - q = (of_int (rne (q / ?u)) - q / ?u) * ?u" using q by (simp add: rnd_def field_simps)
  then have "\<bar>rnd q - q\<bar> = \<bar>of_int (rne (q / ?u)) - q / ?u\<bar> * ?u" by (simp add: abs_mult)
  also have "\<dots> \<le> 1/2 * ?u" by (rule mult_right_mono [OF rne_error]) simp
  also have "\<dots> = pow2 ?E * pow2 (-53)"
    using pow2_add [of ?E "-52"] by (simp add: E power_int_minus)
  also have "\<dots> \<le> \<bar>q\<bar> * pow2 (-53)"
    using ilog2_bounds [OF q] by (intro mult_right_mono) auto
  finally show ?thesis .
qed

section \<open>The type and its operations\<close>

datatype f64 = Fin rat | PosInf | NegInf | NaN

definition round64 :: "rat \<Rightarrow> f64" where
  "round64 q =
     (let r = rnd q
      in if 2 ^ 1024 \<le> r then PosInf else if r \<le> - (2 ^ 1024) then NegInf else Fin r)"

definition signed_inf :: "rat \<Rightarrow> f64" where
  "signed_inf q = (if q = 0 then NaN else if 0 < q then PosInf else NegInf)"

fun sign64 :: "f64 \<Rightarrow> rat" where
  "sign64 (Fin q) = sgn q"
| "sign64 PosInf = 1"
| "sign64 NegInf = -1"
| "sign64 NaN = 0"

instantiation f64 :: "{plus, minus, uminus, times, inverse, ord}"
begin

fun uminus_f64 :: "f64 \<Rightarrow> f64" where
  "- Fin a = Fin (- a)"
| "- PosInf = NegInf"
| "- NegInf = PosInf"
| "- NaN = NaN"

fun plus_f64 :: "f64 \<Rightarrow> f64 \<Rightarrow> f64" where
  "Fin a + Fin b = round64 (a + b)"
| "NaN + y = NaN"
| "x + NaN = NaN"
| "Fin a + y = y"
| "x + Fin b = x"
| "PosInf + PosInf = PosInf"
| "NegInf + NegInf = NegInf"
| "PosInf + NegInf = NaN"
| "NegInf + PosInf = NaN"

definition minus_f64 :: "f64 \<Rightarrow> f64 \<Rightarrow> f64" where
  "x - y = x + - (y :: f64)"

fun times_f64 :: "f64 \<Rightarrow> f64 \<Rightarrow> f64" where
  "Fin a * Fin b = round64 (a * b)"
| "NaN * y = NaN"
| "x * NaN = NaN"
| "x * y = signed_inf (sign64 x * sign64 y)"

fun divide_f64 :: "f64 \<Rightarrow> f64 \<Rightarrow> f64" where
  "divide (Fin a) (Fin b) = (if b = 0 then signed_inf a else round64 (a / b))"
| "divide NaN y = NaN"
| "divide x NaN = NaN"
| "divide (Fin a) y = Fin 0"
| "divide x (Fin b) = signed_inf (sign64 x * (if b < 0 then -1 else 1))"
| "divide x y = NaN"

definition inverse_f64 :: "f64 \<Rightarrow> f64" where
  "inverse x = divide (Fin 1) x"

fun less_f64 :: "f64 \<Rightarrow> f64 \<Rightarrow> bool" where
  "Fin a < Fin b \<longleftrightarrow> a < b"
| "NegInf < Fin b \<longleftrightarrow> True"
| "NegInf < PosInf \<longleftrightarrow> True"
| "Fin a < PosInf \<longleftrightarrow> True"
| "(x :: f64) < y \<longleftrightarrow> False"

definition less_eq_f64 :: "f64 \<Rightarrow> f64 \<Rightarrow> bool" where
  "x \<le> y \<longleftrightarrow> x < y \<or> (x = y \<and> x \<noteq> NaN)" for x y :: f64

instance ..

end

text \<open>A constant of the source, and the two conversions.\<close>

definition lit :: "rat \<Rightarrow> f64" where
  "lit q = round64 q"

definition float_of_int :: "int \<Rightarrow> f64" where
  "float_of_int n = round64 (of_int n)"

definition trunc :: "rat \<Rightarrow> int" where
  "trunc q = (if 0 \<le> q then \<lfloor>q\<rfloor> else \<lceil>q\<rceil>)"

definition out_of_range :: "f64 \<Rightarrow> int64" where
  "out_of_range x = wrap64 (undefined x)"

fun int_of_float :: "f64 \<Rightarrow> int64" where
  "int_of_float (Fin q) = (if in_int64 (trunc q) then trunc q else out_of_range (Fin q))"
| "int_of_float x = out_of_range x"

named_theorems f64_simps \<open>the operations on finite values\<close>

lemma Fin_minus [simp]: "Fin a - Fin b = round64 (a - b)"
  by (simp add: minus_f64_def)

lemma Fin_le [simp]: "Fin a \<le> Fin b \<longleftrightarrow> a \<le> b"
  by (auto simp: less_eq_f64_def)

lemma int_of_float_range [simp]: "in_int64 (int_of_float x)"
  by (cases x) (simp_all add: out_of_range_def)

lemma rnd_abs_bound: assumes "\<bar>q\<bar> \<le> pow2 k" "-1074 \<le> k" shows "\<bar>rnd q\<bar> \<le> pow2 k"
proof -
  have "rnd q \<le> rnd (pow2 k)" "rnd (- pow2 k) \<le> rnd q"
    using assms(1) by (auto intro!: rnd_mono)
  then show ?thesis using rnd_pow2 [OF assms(2)] by (simp add: rnd_minus)
qed

lemma round64_Fin [f64_simps]: assumes "\<bar>q\<bar> \<le> 2 ^ 1023" shows "round64 q = Fin (rnd q)"
proof -
  have "\<bar>rnd q\<bar> \<le> pow2 1023" using assms by (intro rnd_abs_bound) (simp_all add: power_int_def)
  also have "pow2 1023 < pow2 1024" by (rule pow2_strict_mono) simp
  finally have "rnd q < 2 ^ 1024 \<and> - (2 ^ 1024) < rnd q"
    by (simp only: power_int_def abs_less_iff) simp
  then have "\<not> 2 ^ 1024 \<le> rnd q" "\<not> rnd q \<le> - (2 ^ 1024)" by (simp_all only: not_le)
  then show ?thesis by (simp only: round64_def Let_def if_False)
qed

lemma trunc_of_int [simp]: "trunc (of_int n) = n"
  by (simp add: trunc_def)

lemma trunc_mono: "q \<le> r \<Longrightarrow> trunc q \<le> trunc r"
  unfolding trunc_def
  by (auto intro: floor_mono ceiling_mono order_trans [of "\<lceil>q\<rceil>" 0 "\<lfloor>r\<rfloor>"])

lemma trunc_nonneg: "0 \<le> q \<Longrightarrow> 0 \<le> trunc q"
  by (simp add: trunc_def)

lemma float_of_int_Fin: assumes "in_int64 n" shows "float_of_int n = Fin (rnd (of_int n))"
proof -
  have "\<bar>of_int n :: rat\<bar> = of_int \<bar>n\<bar>" by simp
  also have "\<dots> \<le> of_int (2 ^ 63)" using assms unfolding of_int_le_iff in_int64_def by linarith
  also have "\<dots> \<le> (2 ^ 1023 :: rat)" by simp
  finally show ?thesis unfolding float_of_int_def by (rule round64_Fin)
qed

lemma float_of_int_exact: "\<bar>n\<bar> \<le> 2 ^ 53 \<Longrightarrow> float_of_int n = Fin (of_int n)"
  by (subst float_of_int_Fin) (auto simp: rnd_of_int in_int64_def)

text \<open>
  Evaluating a rounding: \<open>m\<close> is the 53-bit significand and \<open>n\<close> the number of binary places. The
  premises are comparisons of numerals, so a witness discharges them by \<open>simp\<close>.
\<close>

lemma round64_val:
  assumes q: "2 ^ 52 \<le> q * 2 ^ n" "q * 2 ^ n < 2 ^ 53" and n: "n \<le> 1074"
    and m: "2 * \<bar>q * 2 ^ n - of_int m\<bar> < 1"
  shows "round64 q = Fin (of_int m / 2 ^ n)"
proof -
  let ?k = "- int n"
  have p: "pow2 ?k = 1 / 2 ^ n" by (simp add: power_int_minus inverse_eq_divide)
  have "pow2 (?k + 52) = 2 ^ 52 / 2 ^ n" "pow2 (?k + 53) = 2 ^ 53 / 2 ^ n"
    by (simp_all only: pow2_add p) (simp_all add: power_int_def)
  moreover have "2 ^ 52 / 2 ^ n \<le> q" "q < 2 ^ 53 / 2 ^ n"
    using q by (simp_all add: divide_le_eq less_divide_eq)
  ultimately have lo: "pow2 (?k + 52) \<le> q" and hi: "q < pow2 (?k + 52 + 1)"
    by (simp_all only: add.assoc) simp_all
  then have u: "ulp_exp q = ?k"
    using ilog2_unique [OF lo hi] n less_le_trans [OF pow2_pos lo] by (simp add: ulp_exp_def)
  have q0: "0 < q" using lo pow2_pos [of "?k + 52"] by linarith
  have "rne (q * 2 ^ n) = m" by (rule rne_near [OF m])
  then have "rnd q = of_int m / 2 ^ n" using q0 by (simp add: rnd_def u p)
  moreover have "round64 q = Fin (rnd q)"
  proof (rule round64_Fin)
    have "\<bar>q\<bar> \<le> \<bar>q\<bar> * 2 ^ n" by (simp add: mult_le_cancel_left1)
    also have "\<dots> \<le> 2 ^ 53" using q q0 by simp
    also have "\<dots> \<le> (2 ^ 1023 :: rat)" by simp
    finally show "\<bar>q\<bar> \<le> 2 ^ 1023" .
  qed
  ultimately show ?thesis by simp
qed

section \<open>Ranges and errors\<close>

definition fin_between :: "rat \<Rightarrow> rat \<Rightarrow> f64 \<Rightarrow> bool" where
  "fin_between lo hi x \<longleftrightarrow> (case x of Fin q \<Rightarrow> lo \<le> q \<and> q \<le> hi | _ \<Rightarrow> False)"

lemma fin_betweenE: "fin_between lo hi x \<Longrightarrow> (\<And>q. x = Fin q \<Longrightarrow> lo \<le> q \<Longrightarrow> q \<le> hi \<Longrightarrow> P) \<Longrightarrow> P"
  by (cases x) (auto simp: fin_between_def)

lemma fin_between_Fin [simp]: "fin_between lo hi (Fin q) \<longleftrightarrow> lo \<le> q \<and> q \<le> hi"
  by (simp add: fin_between_def)

lemma rnd_le_int: "q \<le> of_int n \<Longrightarrow> \<bar>n\<bar> \<le> 2 ^ 53 \<Longrightarrow> rnd q \<le> of_int n"
  using rnd_mono [of q "of_int n"] rnd_of_int by simp

lemma rnd_ge_int: "of_int n \<le> q \<Longrightarrow> \<bar>n\<bar> \<le> 2 ^ 53 \<Longrightarrow> of_int n \<le> rnd q"
  using rnd_mono [of "of_int n" q] rnd_of_int by simp

lemma round64_small: "0 \<le> q \<Longrightarrow> q \<le> of_int n \<Longrightarrow> n \<le> 2 ^ 53 \<Longrightarrow> round64 q = Fin (rnd q)"
proof (rule round64_Fin)
  assume "0 \<le> q" "q \<le> of_int n" "n \<le> 2 ^ 53"
  then have "\<bar>q\<bar> \<le> of_int (2 ^ 53)" using of_int_le_iff [of n "2 ^ 53", where 'a = rat] by linarith
  also have "\<dots> \<le> (2 ^ 1023 :: rat)" by simp
  finally show "\<bar>q\<bar> \<le> 2 ^ 1023" .
qed

lemma round64_between:
  assumes "0 \<le> q" "q \<le> of_int n" "n \<le> 2 ^ 53" shows "fin_between 0 (of_int n) (round64 q)"
proof -
  have "0 \<le> (of_int n :: rat)" using assms by linarith
  then have "\<bar>n\<bar> \<le> 2 ^ 53" using assms(3) by simp
  then show ?thesis using assms round64_small [OF assms] by (simp add: rnd_nonneg rnd_le_int)
qed

lemma rnd_abs_error:
  assumes "\<bar>q\<bar> < pow2 (k + 1)" "-1022 \<le> k" shows "\<bar>rnd q - q\<bar> \<le> pow2 (k - 53)"
proof (cases "q = 0")
  case False
  let ?u = "pow2 (ulp_exp q)"
  have "pow2 (ilog2 \<bar>q\<bar>) < pow2 (k + 1)" using False ilog2_bounds [of "\<bar>q\<bar>"] assms(1) by simp
  then have u: "ulp_exp q \<le> k - 52"
    using assms(2) by (simp only: pow2_less_cancel) (simp add: ulp_exp_def)
  have "rnd q - q = (of_int (rne (q / ?u)) - q / ?u) * ?u" using False by (simp add: rnd_def field_simps)
  then have "\<bar>rnd q - q\<bar> = \<bar>of_int (rne (q / ?u)) - q / ?u\<bar> * ?u" by (simp add: abs_mult)
  also have "\<dots> \<le> 1/2 * ?u" by (rule mult_right_mono [OF rne_error]) simp
  also have "\<dots> \<le> 1/2 * pow2 (k - 52)" using pow2_mono [OF u] by simp
  also have "\<dots> = pow2 (k - 53)" using pow2_add [of 1 "k - 53"] by simp
  finally show ?thesis .
qed simp

lemma lit_mono: "q \<le> r \<Longrightarrow> \<bar>q\<bar> \<le> 1000 \<Longrightarrow> \<bar>r\<bar> \<le> 1000 \<Longrightarrow> lit q \<le> lit r"
  using rnd_mono [of q r] by (simp add: lit_def round64_Fin)

lemma lit_int: "\<bar>n\<bar> \<le> 2 ^ 53 \<Longrightarrow> lit (of_int n) = Fin (of_int n)"
  using float_of_int_exact by (simp add: lit_def float_of_int_def)

lemma lit_numeral: "numeral n \<le> (2 ^ 53 :: int) \<Longrightarrow> lit (numeral n) = Fin (numeral n)"
  using lit_int [of "numeral n"] by simp

section \<open>Evaluation\<close>

text \<open>
  Code equations: \<open>blen\<close> is the length of a binary numeral, and the powers of two are integers, so
  that a concrete rounding is evaluated on binary numerals.
\<close>

fun blen :: "int \<Rightarrow> int" where
  "blen n = (if n \<le> 0 then 0 else 1 + blen (n div 2))"

declare blen.simps [simp del]

lemma floorlog_blen: "int (floorlog 2 (nat n)) = blen n"
proof (induction n rule: blen.induct)
  case (1 n)
  show ?case
  proof (cases "n \<le> 0")
    case True
    then show ?thesis by (simp add: floorlog_def blen.simps [of n])
  next
    case False
    then have "nat n div 2 = nat (n div 2)" by (simp add: nat_div_distrib)
    then show ?thesis
      using False 1 by (simp add: compute_floorlog [of 2 "nat n"] blen.simps [of n])
  qed
qed

lemma ilog2_code [code]:
  "ilog2 q = (if 1 \<le> q then blen \<lfloor>q\<rfloor> - 1 else - blen (\<lceil>1 / q\<rceil> - 1))"
  by (simp add: ilog2_def floorlog_blen)

lemma rnd_code [code]:
  "rnd q =
     (if q = 0 then 0
      else let e = ulp_exp q; p = of_int (2 ^ nat \<bar>e\<bar>)
           in if 0 \<le> e then of_int (rne (q / p)) * p else of_int (rne (q * p)) / p)"
  by (simp add: rnd_def Let_def power_int_def inverse_eq_divide power_one_over)

lemma round64_code [code]:
  "round64 q =
     (if q = 0 \<or> ilog2 \<bar>q\<bar> < 1023 then Fin (rnd q)
      else let r = rnd q
           in if 2 ^ 1024 \<le> r then PosInf else if r \<le> - (2 ^ 1024) then NegInf else Fin r)"
proof (cases "q = 0 \<or> ilog2 \<bar>q\<bar> < 1023")
  case True
  have "\<bar>q\<bar> \<le> 2 ^ 1023"
  proof (cases "q = 0")
    case False
    then have "\<bar>q\<bar> < pow2 (ilog2 \<bar>q\<bar> + 1)" using ilog2_bounds [of "\<bar>q\<bar>"] by simp
    also have "\<dots> \<le> pow2 1023" using True False by (intro pow2_mono) simp
    finally show ?thesis by (simp only: power_int_def) simp
  qed simp
  then show ?thesis using True round64_Fin by simp
qed (simp only: round64_def if_False)

end
