(* ===== verification/Json.thy ===== *)
theory Json
  imports Float64
begin

text \<open>
  The part of Go's \<open>encoding/json\<close> the source uses, on byte strings.
  \<^item> \<open>scan_number\<close> and \<open>scan_string\<close> read a literal the way the library's scanner accepts it,
    \<open>parse_value\<close> a value; containers may be nested 10000 deep. The parser takes fuel; twice the
    length of the text plus two is enough (\<open>parse_value_fuel\<close> below), and that is what
    \<open>json_prefix\<close> gives it.
  \<^item> \<open>json_prefix\<close> reads the first value of a text, as \<open>json.NewDecoder(r).Decode\<close> does;
    \<open>json_valid\<close> wants the whole text to be one value, as \<open>json.Unmarshal\<close> does.
  \<^item> The decoders \<open>dec_int\<close>, \<open>dec_string\<close>, \<dots> store a value in a field of a record. They return the
    new field and whether an \<open>UnmarshalTypeError\<close> was noted: Go goes on decoding after such an
    error and returns it at the end. Keys are matched exactly first, then without regard to case;
    of two equal keys the later one wins; \<open>null\<close> leaves a scalar as it was.
  \<^item> \<open>enc_string\<close> and \<open>enc_strings\<close> are \<open>json.Marshal\<close> on strings and on \<open>[]string\<close>.
\<close>

section \<open>Bytes\<close>

abbreviation byte :: "nat \<Rightarrow> char" where "byte n \<equiv> char_of n"
abbreviation code :: "char \<Rightarrow> nat" where "code c \<equiv> of_char c"

definition quote :: char where "quote = byte 34"
definition backslash :: char where "backslash = byte 92"
definition newline :: char where "newline = byte 10"

text \<open>The verb \<open>%d\<close> of \<open>fmt\<close>, and the dash of messages, in UTF-8.\<close>

fun show_nat :: "nat \<Rightarrow> string" where
  "show_nat n = (if n < 10 then [byte (48 + n)] else show_nat (n div 10) @ [byte (48 + n mod 10)])"

declare show_nat.simps [simp del]

definition show_int :: "int \<Rightarrow> string" where
  "show_int n = (if n < 0 then CHR ''-'' # show_nat (nat (- n)) else show_nat (nat n))"

definition em_dash :: string where "em_dash = [CHR 0xE2, CHR 0x80, CHR 0x94]"

definition is_ws :: "char \<Rightarrow> bool" where
  "is_ws c \<longleftrightarrow> code c \<in> {9, 10, 13, 32}"

definition is_digit :: "char \<Rightarrow> bool" where
  "is_digit c \<longleftrightarrow> 48 \<le> code c \<and> code c \<le> 57"

definition skip_ws :: "string \<Rightarrow> string" where
  "skip_ws s = dropWhile is_ws s"

definition hex_val :: "char \<Rightarrow> nat option" where
  "hex_val c =
     (let n = code c
      in if 48 \<le> n \<and> n \<le> 57 then Some (n - 48)
         else if 97 \<le> n \<and> n \<le> 102 then Some (n - 87)
         else if 65 \<le> n \<and> n \<le> 70 then Some (n - 55)
         else None)"

definition is_hex :: "char \<Rightarrow> bool" where
  "is_hex c \<longleftrightarrow> hex_val c \<noteq> None"

definition digits_val :: "string \<Rightarrow> int" where
  "digits_val s = foldl (\<lambda>n c. 10 * n + int (code c - 48)) 0 s"

section \<open>UTF-8\<close>

definition encode_rune :: "nat \<Rightarrow> string" where
  "encode_rune n =
     (if n < 0x80 then [byte n]
      else if n < 0x800 then [byte (0xC0 + n div 64), byte (0x80 + n mod 64)]
      else if 0xD800 \<le> n \<and> n < 0xE000 then map byte [0xEF, 0xBF, 0xBD]
      else if n < 0x10000 then
        [byte (0xE0 + n div 4096), byte (0x80 + n div 64 mod 64), byte (0x80 + n mod 64)]
      else [byte (0xF0 + n div 262144), byte (0x80 + n div 4096 mod 64),
            byte (0x80 + n div 64 mod 64), byte (0x80 + n mod 64)])"

definition rune_error :: string where
  "rune_error = map byte [0xEF, 0xBF, 0xBD]"

text \<open>The length of the valid encoding at the front of a text, 0 if there is none.\<close>

definition between :: "nat \<Rightarrow> nat \<Rightarrow> char \<Rightarrow> bool" where
  "between lo hi c \<longleftrightarrow> lo \<le> code c \<and> code c \<le> hi"

definition cont :: "char \<Rightarrow> bool" where
  "cont = between 0x80 0xBF"

fun rune_len :: "string \<Rightarrow> nat" where
  "rune_len [] = 0"
| "rune_len (c # s) =
     (if code c < 0x80 then 1
      else if between 0xC2 0xDF c then
        (case s of c1 # _ \<Rightarrow> if cont c1 then 2 else 0 | _ \<Rightarrow> 0)
      else if between 0xE0 0xEF c then
        (case s of c1 # c2 # _ \<Rightarrow>
           if between (if code c = 0xE0 then 0xA0 else 0x80) (if code c = 0xED then 0x9F else 0xBF) c1
              \<and> cont c2 then 3 else 0
         | _ \<Rightarrow> 0)
      else if between 0xF0 0xF4 c then
        (case s of c1 # c2 # c3 # _ \<Rightarrow>
           if between (if code c = 0xF0 then 0x90 else 0x80) (if code c = 0xF4 then 0x8F else 0xBF) c1
              \<and> cont c2 \<and> cont c3 then 4 else 0
         | _ \<Rightarrow> 0)
      else 0)"

section \<open>Literals\<close>

definition scan_exp :: "string \<Rightarrow> string \<Rightarrow> (string \<times> string) option" where
  "scan_exp acc s =
     (case s of
        e # r \<Rightarrow>
          if e = CHR ''e'' \<or> e = CHR ''E'' then
            (let (sg, r1) = (case r of c # r' \<Rightarrow> if c = CHR ''+'' \<or> c = CHR ''-'' then ([c], r') else ([], r)
                             | [] \<Rightarrow> ([], r))
             in if takeWhile is_digit r1 = [] then None
                else Some (acc @ e # sg @ takeWhile is_digit r1, dropWhile is_digit r1))
          else Some (acc, s)
      | [] \<Rightarrow> Some (acc, s))"

definition scan_frac :: "string \<Rightarrow> string \<Rightarrow> (string \<times> string) option" where
  "scan_frac acc s =
     (case s of
        c # r \<Rightarrow>
          if c = CHR ''.'' then
            (if takeWhile is_digit r = [] then None
             else scan_exp (acc @ c # takeWhile is_digit r) (dropWhile is_digit r))
          else scan_exp acc s
      | [] \<Rightarrow> scan_exp acc s)"

definition scan_number :: "string \<Rightarrow> (string \<times> string) option" where
  "scan_number s =
     (let (sg, r) = (case s of c # r \<Rightarrow> if c = CHR ''-'' then ([c], r) else ([], s) | [] \<Rightarrow> ([], s))
      in case r of
           [] \<Rightarrow> None
         | c # r' \<Rightarrow>
             if c = CHR ''0'' then scan_frac (sg @ [c]) r'
             else if is_digit c then scan_frac (sg @ takeWhile is_digit r) (dropWhile is_digit r)
             else None)"

text \<open>\<open>scan_string\<close> starts after the opening quote and stops after the closing one.\<close>

definition prepend :: "string \<Rightarrow> (string \<times> string) option \<Rightarrow> (string \<times> string) option" where
  "prepend p x = (case x of None \<Rightarrow> None | Some (a, r) \<Rightarrow> Some (p @ a, r))"

fun scan_string :: "string \<Rightarrow> (string \<times> string) option" where
  "scan_string [] = None"
| "scan_string (c # s) =
     (if c = quote then Some ([], s)
      else if c = backslash then
        (case s of
           [] \<Rightarrow> None
         | e # s1 \<Rightarrow>
             if e = CHR ''u'' then
               (case s1 of
                  h1 # h2 # h3 # h4 # s2 \<Rightarrow>
                    if list_all is_hex [h1, h2, h3, h4]
                    then prepend [c, e, h1, h2, h3, h4] (scan_string s2) else None
                | _ \<Rightarrow> None)
             else if e \<in> set ([quote, backslash] @ ''/bfnrt'') then prepend [c, e] (scan_string s1)
             else None)
      else if code c < 32 then None
      else prepend [c] (scan_string s))"

definition getu4 :: "string \<Rightarrow> nat" where
  "getu4 s = foldl (\<lambda>n c. 16 * n + (case hex_val c of None \<Rightarrow> 0 | Some d \<Rightarrow> d)) 0 (take 4 s)"

definition unescape :: "char \<Rightarrow> char" where
  "unescape e =
     (if e = CHR ''b'' then byte 8 else if e = CHR ''f'' then byte 12
      else if e = CHR ''n'' then byte 10 else if e = CHR ''r'' then byte 13
      else if e = CHR ''t'' then byte 9 else e)"

function unquote :: "string \<Rightarrow> string" where
  "unquote [] = []"
| "unquote (c # s) =
     (if c = backslash then
        (case s of
           [] \<Rightarrow> []
         | e # s1 \<Rightarrow>
             if e = CHR ''u'' then
               (let u = getu4 s1; r = drop 4 s1
                in if 0xD800 \<le> u \<and> u < 0xE000 then
                     (let v = getu4 (drop 2 r)
                      in if u < 0xDC00 \<and> take 2 r = [backslash, CHR ''u''] \<and> 0xDC00 \<le> v \<and> v < 0xE000
                         then encode_rune (0x10000 + (u - 0xD800) * 1024 + (v - 0xDC00))
                              @ unquote (drop 6 r)
                         else rune_error @ unquote r)
                   else encode_rune u @ unquote r)
             else unescape e # unquote s1)
      else if rune_len (c # s) = 0 then rune_error @ unquote s
      else take (rune_len (c # s)) (c # s) @ unquote (drop (rune_len (c # s) - 1) s))"
  by pat_completeness auto
termination
  by (relation "measure length") auto

section \<open>Values\<close>

datatype json =
    JNull
  | JBool bool
  | JNum string
  | JStr string
  | JArr "json list"
  | JObj "(string \<times> json) list"

definition max_depth :: nat where "max_depth = 10000"

text \<open>
  \<open>d\<close> is the number of open containers. The three functions are called on text whose leading white
  space is gone: \<open>parse_value\<close> at the first byte of a value, \<open>parse_elems\<close> at the first byte of an
  array element, \<open>parse_members\<close> at the first byte of an object key.
\<close>

fun parse_value :: "nat \<Rightarrow> nat \<Rightarrow> string \<Rightarrow> (json \<times> string) option"
  and parse_elems :: "nat \<Rightarrow> nat \<Rightarrow> string \<Rightarrow> (json list \<times> string) option"
  and parse_members :: "nat \<Rightarrow> nat \<Rightarrow> string \<Rightarrow> ((string \<times> json) list \<times> string) option"
where
  "parse_value 0 d s = None"
| "parse_value (Suc n) d s =
     (case s of
        [] \<Rightarrow> None
      | c # r \<Rightarrow>
          if c = CHR ''{'' then
            (if max_depth \<le> d then None
             else case skip_ws r of
                 [] \<Rightarrow> None
               | c1 # r1 \<Rightarrow>
                   if c1 = CHR ''}'' then Some (JObj [], r1)
                   else map_option (apfst JObj) (parse_members n (Suc d) (c1 # r1)))
          else if c = CHR ''['' then
            (if max_depth \<le> d then None
             else case skip_ws r of
                 [] \<Rightarrow> None
               | c1 # r1 \<Rightarrow>
                   if c1 = CHR '']'' then Some (JArr [], r1)
                   else map_option (apfst JArr) (parse_elems n (Suc d) (c1 # r1)))
          else if c = quote then map_option (apfst (\<lambda>t. JStr (unquote t))) (scan_string r)
          else if HasPrefix s ''true'' then Some (JBool True, drop 4 s)
          else if HasPrefix s ''false'' then Some (JBool False, drop 5 s)
          else if HasPrefix s ''null'' then Some (JNull, drop 4 s)
          else map_option (apfst JNum) (scan_number s))"
| "parse_elems 0 d s = None"
| "parse_elems (Suc n) d s =
     (case parse_value n d s of
        None \<Rightarrow> None
      | Some (v, r) \<Rightarrow>
          (case skip_ws r of
             [] \<Rightarrow> None
           | c # r1 \<Rightarrow>
               if c = CHR '']'' then Some ([v], r1)
               else if c = CHR '','' then map_option (apfst ((#) v)) (parse_elems n d (skip_ws r1))
               else None))"
| "parse_members 0 d s = None"
| "parse_members (Suc n) d s =
     (case s of
        [] \<Rightarrow> None
      | c # r \<Rightarrow>
          if c \<noteq> quote then None
          else case scan_string r of
              None \<Rightarrow> None
            | Some (k, r1) \<Rightarrow>
                (case skip_ws r1 of
                   [] \<Rightarrow> None
                 | c1 # r2 \<Rightarrow>
                     if c1 \<noteq> CHR '':'' then None
                     else case parse_value n d (skip_ws r2) of
                         None \<Rightarrow> None
                       | Some (v, r3) \<Rightarrow>
                           (case skip_ws r3 of
                              [] \<Rightarrow> None
                            | c2 # r4 \<Rightarrow>
                                if c2 = CHR ''}'' then Some ([(unquote k, v)], r4)
                                else if c2 = CHR '','' then
                                  map_option (apfst ((#) (unquote k, v)))
                                    (parse_members n d (skip_ws r4))
                                else None)))"

definition json_prefix :: "string \<Rightarrow> (json \<times> string) option" where
  "json_prefix s = parse_value (2 * length s + 2) 0 (skip_ws s)"

definition json_valid :: "string \<Rightarrow> json option" where
  "json_valid s =
     (case json_prefix s of
        None \<Rightarrow> None
      | Some (v, r) \<Rightarrow> if skip_ws r = [] then Some v else None)"

section \<open>The fuel is enough\<close>

lemma length_skip_ws: "length (skip_ws s) \<le> length s"
  by (simp add: skip_ws_def length_dropWhile_le)

lemma skip_ws_Cons: "skip_ws s = c # r \<Longrightarrow> length r < length s"
  using length_skip_ws [of s] by simp

lemma scan_string_shorter: "scan_string s = Some (a, r) \<Longrightarrow> length r < length s"
proof (induction s arbitrary: a rule: scan_string.induct)
  case (2 c s)
  show ?case
    using "2.prems" "2.IH"(1) "2.IH"(2) "2.IH"(3)
    by (force simp: prepend_def split: if_splits list.splits option.splits)
qed simp

lemma scan_exp_shorter: "scan_exp acc s = Some (a, r) \<Longrightarrow> length r \<le> length s"
  by (auto simp: scan_exp_def Let_def length_dropWhile_le le_SucI split: list.splits if_splits prod.splits)

lemma scan_frac_shorter: "scan_frac acc s = Some (a, r) \<Longrightarrow> length r \<le> length s"
  by (auto simp: scan_frac_def split: list.splits if_splits
      dest!: scan_exp_shorter intro: order_trans [OF _ length_dropWhile_le] le_SucI order_trans)

lemma scan_number_shorter: "scan_number s = Some (a, r) \<Longrightarrow> length r < length s"
proof -
  have "is_digit c \<Longrightarrow> length (dropWhile is_digit (c # u)) < Suc (length u)" for c u
    using length_dropWhile_le [of is_digit u] by simp
  then show "scan_number s = Some (a, r) \<Longrightarrow> ?thesis"
    by (auto simp: scan_number_def Let_def split: list.splits if_splits
        dest!: scan_frac_shorter) (meson le_less_trans less_SucI)+
qed

lemma parse_shorter_all:
  "(\<forall>d s v r. parse_value n d s = Some (v, r) \<longrightarrow> length r < length s) \<and>
   (\<forall>d s vs r. parse_elems n d s = Some (vs, r) \<longrightarrow> length r < length s) \<and>
   (\<forall>d s ms r. parse_members n d s = Some (ms, r) \<longrightarrow> length r < length s)"
proof (induction n)
  case 0
  then show ?case by simp
next
  case (Suc n)
  then have V: "\<And>d s v r. parse_value n d s = Some (v, r) \<Longrightarrow> length r < length s"
    and E: "\<And>d s vs r. parse_elems n d s = Some (vs, r) \<Longrightarrow> length r < length s"
    and M: "\<And>d s ms r. parse_members n d s = Some (ms, r) \<Longrightarrow> length r < length s"
    by blast+
  have "length r < length s" if "parse_value (Suc n) d s = Some (v, r)" for d s v r
    using that
    by (cases s) (fastforce split: if_splits list.splits simp: less_Suc_eq_le
        dest: E M skip_ws_Cons scan_string_shorter scan_number_shorter)+
  moreover have "length r < length s" if "parse_elems (Suc n) d s = Some (vs, r)" for d s vs r
    using that
    by (auto split: if_splits list.splits option.splits dest!: V E skip_ws_Cons
        intro: le_less_trans [OF length_skip_ws] less_trans)
       (meson length_skip_ws less_le_trans less_trans)
  moreover have "length r < length s" if "parse_members (Suc n) d s = Some (ms, r)" for d s ms r
    using that
    by (cases s) (auto split: if_splits list.splits option.splits dest!: V M skip_ws_Cons scan_string_shorter,
       (meson length_skip_ws less_le_trans less_trans less_SucI)+)
  ultimately show ?case by blast
qed

lemma parse_value_shorter: "parse_value n d s = Some (v, r) \<Longrightarrow> length r < length s"
  using parse_shorter_all [of n] by blast

lemma parse_fuel_all:
  "(\<forall>d s. 2 * length s < n \<longrightarrow> parse_value (Suc n) d s = parse_value n d s) \<and>
   (\<forall>d s. 2 * length s + 1 < n \<longrightarrow> parse_elems (Suc n) d s = parse_elems n d s) \<and>
   (\<forall>d s. 2 * length s + 1 < n \<longrightarrow> parse_members (Suc n) d s = parse_members n d s)"
proof (induction n)
  case 0
  then show ?case by simp
next
  case (Suc n)
  then have V: "\<And>d s. 2 * length s < n \<Longrightarrow> parse_value (Suc n) d s = parse_value n d s"
    and E: "\<And>d s. 2 * length s + 1 < n \<Longrightarrow> parse_elems (Suc n) d s = parse_elems n d s"
    and M: "\<And>d s. 2 * length s + 1 < n \<Longrightarrow> parse_members (Suc n) d s = parse_members n d s"
    by blast+
  have "parse_value (Suc (Suc n)) d s = parse_value (Suc n) d s" if len: "2 * length s < Suc n" for d s
  proof (cases s)
    case (Cons c r)
    have "skip_ws r = c1 # r1 \<Longrightarrow> 2 * length (c1 # r1) + 1 < n" for c1 r1
      using len length_skip_ws [of r] Cons by simp
    then have "skip_ws r = c1 # r1 \<Longrightarrow> parse_elems (Suc n) (Suc d) (c1 # r1) = parse_elems n (Suc d) (c1 # r1)"
      "skip_ws r = c1 # r1 \<Longrightarrow> parse_members (Suc n) (Suc d) (c1 # r1) = parse_members n (Suc d) (c1 # r1)"
      for c1 r1 using E M by blast+
    then show ?thesis
      by (simp add: Cons del: parse_elems.simps parse_members.simps cong: list.case_cong if_cong)
  qed simp
  moreover have "parse_elems (Suc (Suc n)) d s = parse_elems (Suc n) d s" if len: "2 * length s + 1 < Suc n" for d s
  proof -
    have v: "parse_value (Suc n) d s = parse_value n d s" using V len by simp
    note defs = parse_elems.simps(2) [of "Suc n" d s] parse_elems.simps(2) [of n d s] v
    show ?thesis
    proof (cases "parse_value n d s")
      case None
      then show ?thesis by (simp del: parse_elems.simps parse_value.simps add: defs)
    next
      case (Some p)
      obtain w r where p: "p = (w, r)" by force
      show ?thesis
      proof (cases "skip_ws r")
        case Nil
        then show ?thesis by (simp del: parse_elems.simps parse_value.simps add: defs Some p)
      next
        case (Cons c r1)
        have "parse_elems (Suc n) d (skip_ws r1) = parse_elems n d (skip_ws r1)"
          using E [of "skip_ws r1" d] len parse_value_shorter [of n d s w r] skip_ws_Cons [OF Cons]
            length_skip_ws [of r1] Some p by simp
        then show ?thesis by (simp del: parse_elems.simps parse_value.simps add: defs Some p Cons)
      qed
    qed
  qed
  moreover have "parse_members (Suc (Suc n)) d s = parse_members (Suc n) d s"
    if len: "2 * length s + 1 < Suc n" for d s
  proof -
    note defs = parse_members.simps(2) [of "Suc n" d s] parse_members.simps(2) [of n d s]
    show ?thesis
    proof (cases "\<exists>r k r1 r2. s = quote # r \<and> scan_string r = Some (k, r1) \<and> skip_ws r1 = CHR '':'' # r2")
      case False
      then show ?thesis
        by (auto simp del: parse_members.simps parse_value.simps simp: defs split: list.splits option.splits)
    next
      case True
      then obtain r k r1 r2 where
        s: "s = quote # r" "scan_string r = Some (k, r1)" "skip_ws r1 = CHR '':'' # r2" by blast
      have v: "parse_value (Suc n) d (skip_ws r2) = parse_value n d (skip_ws r2)"
        using V [of "skip_ws r2" d] len s(1) scan_string_shorter [OF s(2)]
          skip_ws_Cons [OF s(3)] length_skip_ws [of r2] by simp
      have m: "parse_members (Suc n) d (skip_ws r4) = parse_members n d (skip_ws r4)"
        if "parse_value n d (skip_ws r2) = Some (w, r3)" "skip_ws r3 = c2 # r4" for w r3 c2 r4
        using M [of "skip_ws r4" d] len s(1) scan_string_shorter [OF s(2)] skip_ws_Cons [OF s(3)]
          length_skip_ws [of r2] length_skip_ws [of r4] parse_value_shorter [OF that(1)]
          skip_ws_Cons [OF that(2)] by simp
      show ?thesis
      proof (cases "parse_value n d (skip_ws r2)")
        case None
        then show ?thesis by (simp del: parse_members.simps parse_value.simps add: defs [unfolded s(1)] s v)
      next
        case (Some p)
        obtain w r3 where p: "p = (w, r3)" by force
        show ?thesis
          using m [of w r3] Some
          by (cases "skip_ws r3") (simp_all del: parse_members.simps parse_value.simps add: defs [unfolded s(1)] s v p)
      qed
    qed
  qed
  ultimately show ?case by blast
qed

lemma parse_value_fuel: assumes "2 * length s < n" "n \<le> m" shows "parse_value m d s = parse_value n d s"
  using assms(2)
proof (induction rule: dec_induct)
  case (step k)
  have "parse_value (Suc k) d s = parse_value k d s"
    using parse_fuel_all [of k] step(1) assms(1) by simp
  then show ?case using step.IH by simp
qed simp

lemma json_prefix_fuel: "2 * length s + 2 \<le> n \<Longrightarrow> parse_value n 0 (skip_ws s) = json_prefix s"
  unfolding json_prefix_def using length_skip_ws [of s] by (intro parse_value_fuel) auto

lemma json_prefix_rest: "json_prefix s = Some (v, r) \<Longrightarrow> length r < length s"
  unfolding json_prefix_def using parse_value_shorter length_skip_ws less_le_trans by blast

section \<open>Decoding into Go values\<close>

definition parse_int :: "string \<Rightarrow> int64 option" where
  "parse_int t =
     (let (neg, ds) = (case t of c # r \<Rightarrow> if c = CHR ''-'' then (True, r) else (False, t) | [] \<Rightarrow> (False, t));
          n = (if neg then - digits_val ds else digits_val ds)
      in if ds \<noteq> [] \<and> list_all is_digit ds \<and> in_int64 n then Some n else None)"

definition parse_decimal :: "string \<Rightarrow> rat" where
  "parse_decimal t =
     (let (neg, u) = (case t of c # r \<Rightarrow> if c = CHR ''-'' then (True, r) else (False, t) | [] \<Rightarrow> (False, t));
          mant = takeWhile (\<lambda>c. c \<noteq> CHR ''e'' \<and> c \<noteq> CHR ''E'') u;
          ex = drop (length mant + 1) u;
          ip = takeWhile (\<lambda>c. c \<noteq> CHR ''.'') mant;
          fp = drop (length ip + 1) mant;
          e = (case ex of c # r \<Rightarrow> if c = CHR ''-'' then - digits_val r
                                   else if c = CHR ''+'' then digits_val r else digits_val ex
               | [] \<Rightarrow> 0);
          v = of_int (digits_val (ip @ fp)) * 10 powi (e - int (length fp))
      in if neg then - v else v)"

definition parse_float :: "string \<Rightarrow> f64 option" where
  "parse_float t = (case round64 (parse_decimal t) of Fin q \<Rightarrow> Some (Fin q) | _ \<Rightarrow> None)"

type_synonym 'a decoder = "json \<Rightarrow> 'a \<Rightarrow> 'a \<times> bool"

fun dec_int :: "int64 decoder" where
  "dec_int (JNum t) old = (case parse_int t of Some n \<Rightarrow> (n, False) | None \<Rightarrow> (old, True))"
| "dec_int JNull old = (old, False)"
| "dec_int v old = (old, True)"

fun dec_float :: "f64 decoder" where
  "dec_float (JNum t) old = (case parse_float t of Some x \<Rightarrow> (x, False) | None \<Rightarrow> (old, True))"
| "dec_float JNull old = (old, False)"
| "dec_float v old = (old, True)"

fun dec_string :: "string decoder" where
  "dec_string (JStr t) old = (t, False)"
| "dec_string JNull old = (old, False)"
| "dec_string v old = (old, True)"

fun dec_bool :: "bool decoder" where
  "dec_bool (JBool b) old = (b, False)"
| "dec_bool JNull old = (old, False)"
| "dec_bool v old = (old, True)"

text \<open>A \<open>[]string\<close> is an option: \<open>None\<close> is the nil slice. The old elements are decoded over.\<close>

fun dec_elems :: "json list \<Rightarrow> string list \<Rightarrow> string list \<times> bool" where
  "dec_elems [] old = ([], False)"
| "dec_elems (v # vs) old =
     (let (x, e) = dec_string v (case old of [] \<Rightarrow> [] | y # _ \<Rightarrow> y);
          (xs, e') = dec_elems vs (tl old)
      in (x # xs, e \<or> e'))"

fun dec_strings :: "string list option decoder" where
  "dec_strings (JArr vs) old =
     apfst Some (dec_elems vs (case old of None \<Rightarrow> [] | Some xs \<Rightarrow> xs))"
| "dec_strings JNull old = (None, False)"
| "dec_strings v old = (old, True)"

text \<open>Struct fields: the exact name first, then the name without regard to case.\<close>

type_synonym 'r field = "string \<times> 'r decoder"

fun fold_key :: "string \<Rightarrow> string" where
  "fold_key [] = []"
| "fold_key (c # s) =
     (if HasPrefix (c # s) (map byte [0xE2, 0x84, 0xAA]) then CHR ''K'' # fold_key (drop 2 s)
      else if HasPrefix (c # s) (map byte [0xC5, 0xBF]) then CHR ''S'' # fold_key (drop 1 s)
      else if 97 \<le> code c \<and> code c \<le> 122 then byte (code c - 32) # fold_key s
      else c # fold_key s)"

definition lookup_field :: "'r field list \<Rightarrow> string \<Rightarrow> 'r decoder option" where
  "lookup_field fs k =
     (case find (\<lambda>f. fst f = k) fs of
        Some f \<Rightarrow> Some (snd f)
      | None \<Rightarrow> map_option snd (find (\<lambda>f. fold_key (fst f) = fold_key k) fs))"

definition dec_field :: "('r \<Rightarrow> 'a) \<Rightarrow> ('a \<Rightarrow> 'r \<Rightarrow> 'r) \<Rightarrow> 'a decoder \<Rightarrow> 'r decoder" where
  "dec_field get put dec v r = (let (x, e) = dec v (get r) in (put x r, e))"

fun dec_members :: "'r field list \<Rightarrow> (string \<times> json) list \<Rightarrow> 'r \<Rightarrow> 'r \<times> bool" where
  "dec_members fs [] r = (r, False)"
| "dec_members fs ((k, v) # ms) r =
     (case lookup_field fs k of
        None \<Rightarrow> dec_members fs ms r
      | Some dec \<Rightarrow>
          (let (r1, e) = dec v r; (r2, e') = dec_members fs ms r1 in (r2, e \<or> e')))"

fun dec_struct :: "'r field list \<Rightarrow> 'r decoder" where
  "dec_struct fs (JObj ms) r = dec_members fs ms r"
| "dec_struct fs JNull r = (r, False)"
| "dec_struct fs v r = (r, True)"

text \<open>A pointer to a struct is allocated when a value other than \<open>null\<close> arrives.\<close>

fun dec_ptr :: "'r \<Rightarrow> 'r decoder \<Rightarrow> 'r option decoder" where
  "dec_ptr z dec JNull old = (None, False)"
| "dec_ptr z dec v old = apfst Some (dec v (case old of None \<Rightarrow> z | Some r \<Rightarrow> r))"

text \<open>\<open>json.Unmarshal\<close> and \<open>Decoder.Decode\<close>: the value stored, and whether an error is returned.\<close>

definition unmarshal :: "'r decoder \<Rightarrow> string \<Rightarrow> 'r \<Rightarrow> 'r \<times> bool" where
  "unmarshal dec s r = (case json_valid s of None \<Rightarrow> (r, True) | Some v \<Rightarrow> dec v r)"

definition decode_first :: "'r decoder \<Rightarrow> string \<Rightarrow> 'r \<Rightarrow> 'r \<times> bool" where
  "decode_first dec s r = (case json_prefix s of None \<Rightarrow> (r, True) | Some (v, _) \<Rightarrow> dec v r)"

section \<open>Evaluation\<close>

lemma marks_code [code]: "quote = CHR 0x22" "backslash = CHR 0x5C" "newline = CHR 0x0A"
  by (simp_all add: quote_def backslash_def newline_def char_of_def bit_Suc_0_iff)

lemma is_ws_code [code]: "is_ws c \<longleftrightarrow> c \<in> {CHR 0x09, CHR 0x0A, CHR 0x0D, CHR '' ''}"
  by (cases c) (auto simp: is_ws_def of_char_def)
lemma is_digit_code [code]: "is_digit c \<longleftrightarrow> c \<in> set ''0123456789''"
  by (cases c) (auto simp: is_digit_def)
lemma byte_tests [code_unfold]:
  "code c < 32 \<longleftrightarrow> \<not> digit5 c \<and> \<not> digit6 c \<and> \<not> digit7 c" "code c < 0x80 \<longleftrightarrow> \<not> digit7 c"
  by (cases c; auto simp: of_char_def)+
lemma max_depth_code [code_unfold]: "max_depth \<le> d \<longleftrightarrow> 10000 \<le> int d"
  by (simp add: max_depth_def)

text \<open>Key folding on the bits of a character.\<close>

definition upcase :: "char \<Rightarrow> char" where
  "upcase c = Char (digit0 c) (digit1 c) (digit2 c) (digit3 c) (digit4 c) False (digit6 c) (digit7 c)"

lemma lower_code: "97 \<le> code c \<and> code c \<le> 122 \<longleftrightarrow> c \<in> set ''abcdefghijklmnopqrstuvwxyz''"
  by (cases c) (auto simp: of_char_def)

lemma upcase_byte:
  assumes "c \<in> set ''abcdefghijklmnopqrstuvwxyz''"
  shows "byte (code c - 32) = upcase c"
proof -
  have "digit5 c" using assms by auto
  then have "code c - 32 = code (upcase c)" by (cases c) (simp add: upcase_def of_char_def)
  then show ?thesis by simp
qed

lemma fold_key_code [code]:
  "fold_key [] = []"
  "fold_key (c # s) =
     (if HasPrefix (c # s) [CHR 0xE2, CHR 0x84, CHR 0xAA] then CHR ''K'' # fold_key (drop 2 s)
      else if HasPrefix (c # s) [CHR 0xC5, CHR 0xBF] then CHR ''S'' # fold_key (drop 1 s)
      else if c \<in> set ''abcdefghijklmnopqrstuvwxyz'' then upcase c # fold_key s
      else c # fold_key s)"
proof -
  have k: "map byte [0xE2, 0x84, 0xAA] = [CHR 0xE2, CHR 0x84, CHR 0xAA]" "map byte [0xC5, 0xBF] = [CHR 0xC5, CHR 0xBF]"
    by (simp_all add: char_of_def bit_Suc_0_iff)
  show "fold_key (c # s) =
     (if HasPrefix (c # s) [CHR 0xE2, CHR 0x84, CHR 0xAA] then CHR ''K'' # fold_key (drop 2 s)
      else if HasPrefix (c # s) [CHR 0xC5, CHR 0xBF] then CHR ''S'' # fold_key (drop 1 s)
      else if c \<in> set ''abcdefghijklmnopqrstuvwxyz'' then upcase c # fold_key s
      else c # fold_key s)"
    unfolding fold_key.simps(2) [of c s] k lower_code using upcase_byte by simp
qed simp

section \<open>Encoding strings\<close>

definition hex_digit :: "nat \<Rightarrow> char" where
  "hex_digit n = (if n < 10 then byte (48 + n) else byte (87 + n))"

definition escape_byte :: "char \<Rightarrow> string" where
  "escape_byte c =
     (if c = quote \<or> c = backslash then [backslash, c]
      else if code c = 8 then [backslash, CHR ''b''] else if code c = 12 then [backslash, CHR ''f'']
      else if code c = 10 then [backslash, CHR ''n''] else if code c = 13 then [backslash, CHR ''r'']
      else if code c = 9 then [backslash, CHR ''t'']
      else if code c < 32 \<or> c \<in> set ''<>&'' then
        [backslash, CHR ''u'', CHR ''0'', CHR ''0'', hex_digit (code c div 16), hex_digit (code c mod 16)]
      else [c])"

function enc_body :: "string \<Rightarrow> string" where
  "enc_body [] = []"
| "enc_body (c # s) =
     (if code c < 0x80 then escape_byte c @ enc_body s
      else if rune_len (c # s) = 0 then backslash # ''ufffd'' @ enc_body s
      else if take 3 (c # s) = map byte [0xE2, 0x80, 0xA8] then backslash # ''u2028'' @ enc_body (drop 2 s)
      else if take 3 (c # s) = map byte [0xE2, 0x80, 0xA9] then backslash # ''u2029'' @ enc_body (drop 2 s)
      else take (rune_len (c # s)) (c # s) @ enc_body (drop (rune_len (c # s) - 1) s))"
  by pat_completeness auto
termination
  by (relation "measure length") auto

definition enc_string :: "string \<Rightarrow> string" where
  "enc_string s = quote # enc_body s @ [quote]"

fun enc_list :: "string list \<Rightarrow> string" where
  "enc_list [] = '']''"
| "enc_list [x] = enc_string x @ '']''"
| "enc_list (x # xs) = enc_string x @ '','' @ enc_list xs"

definition enc_strings :: "string list option \<Rightarrow> string" where
  "enc_strings xs = (case xs of None \<Rightarrow> ''null'' | Some ys \<Rightarrow> CHR ''['' # enc_list ys)"

function valid_utf8 :: "string \<Rightarrow> bool" where
  "valid_utf8 [] = True"
| "valid_utf8 (c # s) = (rune_len (c # s) \<noteq> 0 \<and> valid_utf8 (drop (rune_len (c # s) - 1) s))"
  by pat_completeness auto
termination
  by (relation "measure length") auto

section \<open>Decoding what was encoded\<close>

lemma prepend_prepend [simp]: "prepend u (prepend v x) = prepend (u @ v) x"
  by (auto simp: prepend_def split: option.splits)

lemma prepend_Some [simp]: "prepend u (Some (a, r)) = Some (u @ a, r)"
  by (simp add: prepend_def)

lemma code_byte [simp]: "n < 256 \<Longrightarrow> code (byte n) = n"
  by simp

lemma char_of_eq_iff_code: "n < 256 \<Longrightarrow> c = byte n \<longleftrightarrow> code c = n"
  by (metis char_of_char code_byte)

lemma quote_code: "c = quote \<longleftrightarrow> code c = 34" and backslash_code: "c = backslash \<longleftrightarrow> code c = 92"
  unfolding quote_def backslash_def by (simp_all add: char_of_eq_iff_code)

lemma code_marks [simp]: "code quote = 34" "code backslash = 92"
  by (simp_all add: quote_def backslash_def)

lemma scan_string_high:
  "list_all (\<lambda>c. 0x80 \<le> code c) u \<Longrightarrow> scan_string (u @ t) = prepend u (scan_string t)"
proof (induction u)
  case Nil
  then show ?case by (simp add: prepend_def split: option.split)
next
  case (Cons c u)
  then show ?case by (simp add: quote_code backslash_code)
qed

lemma high_not_low: "0x80 \<le> code c \<Longrightarrow> \<not> code c < 0x80" by simp

text \<open>The shapes of a rune that does not begin with an ASCII byte.\<close>

lemma rune_shapes:
  assumes "rune_len (c # s) \<noteq> 0" "0x80 \<le> code c"
  obtains c1 r where "s = c1 # r" "between 0xC2 0xDF c" "cont c1" "rune_len (c # s) = 2"
  | c1 c2 r where "s = c1 # c2 # r" "\<not> between 0xC2 0xDF c" "between 0xE0 0xEF c"
      "between (if code c = 0xE0 then 0xA0 else 0x80) (if code c = 0xED then 0x9F else 0xBF) c1" "cont c2" "rune_len (c # s) = 3"
  | c1 c2 c3 r where "s = c1 # c2 # c3 # r" "\<not> between 0xC2 0xDF c" "\<not> between 0xE0 0xEF c" "between 0xF0 0xF4 c"
      "between (if code c = 0xF0 then 0x90 else 0x80) (if code c = 0xF4 then 0x8F else 0xBF) c1" "cont c2" "cont c3" "rune_len (c # s) = 4"
  using assms by (simp split: if_split_asm list.split_asm del: if_split)

lemma rune_len_high:
  assumes "rune_len (c # s) \<noteq> 0" "0x80 \<le> code c"
  shows "list_all (\<lambda>c. 0x80 \<le> code c) (take (rune_len (c # s)) (c # s))"
    and "rune_len (take (rune_len (c # s)) (c # s) @ t) = rune_len (c # s)"
    and "rune_len (c # s) \<le> length (c # s)"
proof -
  note h = high_not_low [OF assms(2)]
  show "list_all (\<lambda>c. 0x80 \<le> code c) (take (rune_len (c # s)) (c # s))"
    using assms by (rule rune_shapes) (auto simp: between_def cont_def simp del: rune_len.simps split: if_split_asm)
  show "rune_len (take (rune_len (c # s)) (c # s) @ t) = rune_len (c # s)"
    using assms by (rule rune_shapes) (simp_all add: h)
  show "rune_len (c # s) \<le> length (c # s)"
    using assms by (rule rune_shapes) (simp_all del: rune_len.simps)
qed

lemma hex_digit_val: "d < 16 \<Longrightarrow> hex_val (hex_digit d) = Some d"
  by (auto simp: hex_digit_def hex_val_def)

lemma escape_byte_cases:
  assumes "code c < 0x80"
  obtains (plain) "escape_byte c = [c]" "c \<noteq> quote" "c \<noteq> backslash" "32 \<le> code c"
    | (short) e where "escape_byte c = [backslash, e]" "unescape e = c" "e \<noteq> CHR ''u''"
        "e \<in> set ([quote, backslash] @ ''/bfnrt'')"
    | (long) "escape_byte c = [backslash, CHR ''u'', CHR ''0'', CHR ''0'',
        hex_digit (code c div 16), hex_digit (code c mod 16)]"
proof -
  have short1: thesis if "escape_byte c = [backslash, e]" "unescape e = c"
    "e \<in> set ([quote, backslash] @ ''/bfnrt'')" for e
    using that by (intro short [of e]) (auto simp: quote_code backslash_code)
  have ctl: "unescape CHR ''b'' = byte 8" "unescape CHR ''f'' = byte 12" "unescape CHR ''n'' = byte 10"
    "unescape CHR ''r'' = byte 13" "unescape CHR ''t'' = byte 9"
    by (simp_all add: unescape_def)
  let ?special = "c = quote \<or> c = backslash" let ?named = "code c \<in> {8, 12, 10, 13, 9}"
  let ?hex = "code c < 32 \<or> c \<in> set ''<>&''"
  show thesis
  proof (cases ?special)
    case True
    then show ?thesis
      by (intro short1 [of c]) (auto simp: escape_byte_def unescape_def quote_code backslash_code)
  next
    case special: False
    show ?thesis
    proof (cases ?named)
      case True
      then consider "c = byte 8" | "c = byte 12" | "c = byte 10" | "c = byte 13" | "c = byte 9"
        by (auto simp: char_of_eq_iff_code)
      then show ?thesis
      proof cases
        case 1
        show ?thesis by (rule short1 [of "CHR ''b''"]) (simp_all add: 1 ctl escape_byte_def quote_code backslash_code)
      next
        case 2
        show ?thesis by (rule short1 [of "CHR ''f''"]) (simp_all add: 2 ctl escape_byte_def quote_code backslash_code)
      next
        case 3
        show ?thesis by (rule short1 [of "CHR ''n''"]) (simp_all add: 3 ctl escape_byte_def quote_code backslash_code)
      next
        case 4
        show ?thesis by (rule short1 [of "CHR ''r''"]) (simp_all add: 4 ctl escape_byte_def quote_code backslash_code)
      next
        case 5
        show ?thesis by (rule short1 [of "CHR ''t''"]) (simp_all add: 5 ctl escape_byte_def quote_code backslash_code)
      qed
    next
      case False
      with special show ?thesis
        by (cases ?hex) (auto intro: plain long simp: escape_byte_def)
    qed
  qed
qed

lemma scan_string_escape:
  assumes "code c < 0x80" shows "scan_string (escape_byte c @ t) = prepend (escape_byte c) (scan_string t)"
  using assms
proof (cases rule: escape_byte_cases)
  case long
  have "is_hex (hex_digit d)" if "d < 16" for d using hex_digit_val [OF that] by (simp add: is_hex_def)
  moreover have "is_hex (CHR ''0'')" by (simp add: is_hex_def hex_val_def)
  moreover have "code c div 16 < 16" using assms by simp
  ultimately show ?thesis unfolding long by (simp add: quote_code backslash_code)
next
  case (short e)
  then show ?thesis by (simp add: quote_code backslash_code)
qed simp

lemma encode_rune_ascii: "code c < 0x80 \<Longrightarrow> encode_rune (code c) = [c]"
  by (simp add: encode_rune_def)

lemma unquote_escape:
  assumes "code c < 0x80" shows "unquote (escape_byte c @ t) = c # unquote t"
  using assms
proof (cases rule: escape_byte_cases)
  case long
  have z: "hex_val (CHR ''0'') = Some 0" by (simp add: hex_val_def)
  have "getu4 (CHR ''0'' # CHR ''0'' # hex_digit (code c div 16) # hex_digit (code c mod 16) # t) = code c"
    using assms by (simp add: getu4_def z hex_digit_val)
  then show ?thesis unfolding long using assms encode_rune_ascii [OF assms] by (simp add: Let_def)
next
  case plain
  then show ?thesis using assms by simp
next
  case (short e)
  then show ?thesis by simp
qed

lemma line_sep_escape:
  "scan_string (backslash # ''u2028'' @ t) = prepend (backslash # ''u2028'') (scan_string t)"
  "scan_string (backslash # ''u2029'' @ t) = prepend (backslash # ''u2029'') (scan_string t)"
  "unquote (backslash # ''u2028'' @ t) = map byte [0xE2, 0x80, 0xA8] @ unquote t"
  "unquote (backslash # ''u2029'' @ t) = map byte [0xE2, 0x80, 0xA9] @ unquote t"
  by (simp_all add: is_hex_def hex_val_def getu4_def encode_rune_def Let_def quote_code backslash_code)

lemma take_3: "take 3 (c # s) = [x, y, z] \<Longrightarrow> c # s = [x, y, z] @ drop 2 s"
  by (metis One_nat_def append_take_drop_id drop_Suc_Cons eval_nat_numeral(3) numeral_2_eq_2)

lemma enc_body_correct:
  "valid_utf8 s \<Longrightarrow>
    scan_string (enc_body s @ quote # r) = Some (enc_body s, r) \<and> unquote (enc_body s) = s"
proof (induction s rule: enc_body.induct)
  case 1
  then show ?case by simp
next
  case (2 c s)
  let ?n = "rune_len (c # s)"
  let ?chunk = "take ?n (c # s)" and ?rest = "drop (?n - 1) s"
  from "2.prems" have n: "?n \<noteq> 0" and rest: "valid_utf8 ?rest" by simp_all
  have whole: "?chunk @ ?rest = c # s" using n by (cases ?n) simp_all
  show ?case
  proof (cases "code c < 0x80")
    case True
    then have "?n = 1" by simp
    then show ?thesis
      using "2.IH"(1) True rest by (simp add: scan_string_escape unquote_escape del: rune_len.simps)
  next
    case high: False
    then have hi: "0x80 \<le> code c" by simp
    note rh = rune_len_high [OF n hi]
    consider (a) "take 3 (c # s) = map byte [0xE2, 0x80, 0xA8]"
      | (b) "take 3 (c # s) \<noteq> map byte [0xE2, 0x80, 0xA8]" "take 3 (c # s) = map byte [0xE2, 0x80, 0xA9]"
      | (plain) "take 3 (c # s) \<noteq> map byte [0xE2, 0x80, 0xA8]" "take 3 (c # s) \<noteq> map byte [0xE2, 0x80, 0xA9]"
      by blast
    then show ?thesis
    proof cases
      case plain
      then have e: "enc_body (c # s) = ?chunk @ enc_body ?rest" using high n plain by (simp only: enc_body.simps if_False)
      have IH: "scan_string (enc_body ?rest @ quote # r) = Some (enc_body ?rest, r)"
        "unquote (enc_body ?rest) = ?rest"
        using "2.IH"(5) high n plain rest by blast+
      have "unquote (?chunk @ enc_body ?rest) = ?chunk @ unquote (enc_body ?rest)"
      proof -
        obtain m where m: "?n = Suc m" using n by (cases ?n) auto
        have "rune_len (c # take m s @ enc_body ?rest) = ?n" using rh(2) by (simp add: m del: rune_len.simps)
        moreover have "length (take m s) = m" using rh(3) m by simp
        ultimately show ?thesis using hi n by (simp add: m backslash_code del: rune_len.simps)
      qed
      then show ?thesis
        unfolding e using IH whole scan_string_high [OF rh(1)] by (simp add: whole del: rune_len.simps)
    next
      case a
      then have cs: "c # s = map byte [0xE2, 0x80, 0xA8] @ drop 2 s" using take_3 [of c s] by simp
      have "?n = 3" by (subst cs) (simp add: between_def cont_def)
      then have ok: "valid_utf8 (drop 2 s)" using rest by (simp del: rune_len.simps)
      have e: "enc_body (c # s) = backslash # ''u2028'' @ enc_body (drop 2 s)"
        using high n a by (simp only: enc_body.simps) simp
      have IH: "scan_string (enc_body (drop 2 s) @ quote # r) = Some (enc_body (drop 2 s), r)"
        "unquote (enc_body (drop 2 s)) = drop 2 s"
        using "2.IH"(3) high n a ok by blast+
      have "scan_string (backslash # ''u2028'' @ (enc_body (drop 2 s) @ quote # r)) =
          Some (backslash # ''u2028'' @ enc_body (drop 2 s), r)"
        by (subst line_sep_escape(1)) (simp add: IH)
      moreover have "unquote (backslash # ''u2028'' @ enc_body (drop 2 s)) = c # s"
        by (subst line_sep_escape(3)) (simp only: IH cs)
      ultimately show ?thesis by (simp only: e append_assoc append_Cons append_Nil)
    next
      case b
      then have cs: "c # s = map byte [0xE2, 0x80, 0xA9] @ drop 2 s" using take_3 [of c s] by simp
      have "?n = 3" by (subst cs) (simp add: between_def cont_def)
      then have ok: "valid_utf8 (drop 2 s)" using rest by (simp del: rune_len.simps)
      have e: "enc_body (c # s) = backslash # ''u2029'' @ enc_body (drop 2 s)"
        using high n b by (simp only: enc_body.simps) simp
      have IH: "scan_string (enc_body (drop 2 s) @ quote # r) = Some (enc_body (drop 2 s), r)"
        "unquote (enc_body (drop 2 s)) = drop 2 s"
        using "2.IH"(4) high n b ok by blast+
      have "scan_string (backslash # ''u2029'' @ (enc_body (drop 2 s) @ quote # r)) =
          Some (backslash # ''u2029'' @ enc_body (drop 2 s), r)"
        by (subst line_sep_escape(2)) (simp add: IH)
      moreover have "unquote (backslash # ''u2029'' @ enc_body (drop 2 s)) = c # s"
        by (subst line_sep_escape(4)) (simp only: IH cs)
      ultimately show ?thesis by (simp only: e append_assoc append_Cons append_Nil)
    qed
  qed
qed

lemma skip_ws_id: "\<not> is_ws c \<Longrightarrow> skip_ws (c # s) = c # s"
  by (simp add: skip_ws_def)

lemma not_ws [simp]: "\<not> is_ws quote" "\<not> is_ws CHR ''['' " "\<not> is_ws CHR '']''" "\<not> is_ws CHR '',''"
    "\<not> is_ws CHR ''n''"
  by (simp_all add: is_ws_def)

lemma quote_eq: "quote = c \<longleftrightarrow> code c = 34"
  using quote_code by metis

lemma parse_enc_string:
  assumes "valid_utf8 s" shows "parse_value (Suc n) d (enc_string s @ r) = Some (JStr s, r)"
proof -
  have "quote \<noteq> CHR ''{''" "quote \<noteq> CHR ''[''" by (simp_all add: quote_eq)
  then show ?thesis using enc_body_correct [OF assms, of r] by (simp add: enc_string_def)
qed

lemma enc_list_Cons: "enc_list (x # xs) = enc_string x @ (if xs = [] then '']'' else CHR '','' # enc_list xs)"
  by (cases xs) simp_all

lemma parse_enc_list:
  "xs \<noteq> [] \<Longrightarrow> list_all valid_utf8 xs \<Longrightarrow> length xs < n \<Longrightarrow>
    parse_elems n d (enc_list xs @ r) = Some (map JStr xs, r)"
proof (induction xs arbitrary: n)
  case (Cons x xs)
  obtain m where n: "n = Suc (Suc m)" using Cons.prems(3) by (cases n; cases "n - 1") auto
  have v: "parse_value (Suc m) d (enc_string x @ t) = Some (JStr x, t)" for t
    using parse_enc_string Cons.prems(2) by simp
  show ?case
  proof (cases "xs = []")
    case True
    then show ?thesis
      by (simp del: parse_value.simps add: n v enc_list_Cons parse_elems.simps(2) skip_ws_id)
  next
    case False
    have "skip_ws (enc_list xs @ r) = enc_list xs @ r"
      using False by (cases xs) (simp_all add: enc_list_Cons enc_string_def skip_ws_id)
    moreover have "parse_elems (Suc m) d (enc_list xs @ r) = Some (map JStr xs, r)"
      using Cons.IH [of "Suc m"] Cons.prems False n by (simp del: parse_elems.simps)
    ultimately show ?thesis using False
      by (simp del: parse_value.simps parse_elems.simps
          add: n v enc_list_Cons [of x xs] parse_elems.simps(2) [of "Suc m"] skip_ws_id)
  qed
qed simp

lemma length_enc_list: "2 * length xs < length (enc_list xs)"
proof (induction xs)
  case (Cons x xs)
  then show ?case by (cases xs) (simp_all add: enc_list_Cons enc_string_def)
qed simp

lemma dec_elems_JStr: "dec_elems (map JStr xs) old = (xs, False)"
  by (induction xs arbitrary: old) auto

lemma enc_strings_roundtrip:
  assumes "xs \<noteq> None \<longrightarrow> list_all valid_utf8 (the xs)"
  shows "unmarshal dec_strings (enc_strings xs) None = (xs, False)"
proof (cases xs)
  case None
  have "json_valid ''null'' = Some JNull"
    by (simp add: json_valid_def json_prefix_def skip_ws_def is_ws_def HasPrefix_def quote_eq [symmetric] quote_code numeral_eq_Suc)
  then show ?thesis by (simp add: None enc_strings_def unmarshal_def)
next
  case (Some ys)
  have "json_prefix (CHR ''['' # enc_list ys) = Some (JArr (map JStr ys), [])"
  proof (cases "ys = []")
    case True
    then show ?thesis by (simp add: json_prefix_def skip_ws_id max_depth_def numeral_eq_Suc)
  next
    case False
    obtain c t where ct: "enc_list ys = c # t" "c = quote"
      using False by (cases ys) (auto simp: enc_list_Cons enc_string_def)
    have "parse_elems (2 * length (enc_list ys) + 3) (Suc 0) (enc_list ys @ []) = Some (map JStr ys, [])"
      using False assms length_enc_list [of ys] by (intro parse_enc_list) (auto simp: Some)
    then show ?thesis
      unfolding json_prefix_def
      by (simp del: parse_elems.simps add: skip_ws_id ct max_depth_def quote_eq numeral_eq_Suc)
  qed
  then show ?thesis
    by (simp add: Some enc_strings_def unmarshal_def json_valid_def skip_ws_def dec_elems_JStr)
qed

end
