(* ===== verification/PriceFeed.thy ===== *)
theory PriceFeed
  imports Json
begin

text \<open>
  \<open>internal/billing/btcprice.go\<close>: the BTC/USD price feed. A fetch is given what the HTTP client
  returned: \<open>None\<close> when \<open>client.Get\<close> failed, otherwise the bytes of the response body. The price is
  only ever replaced by a positive one; a failed fetch, an unparsable body, a missing, zero or
  negative price leave it alone.
\<close>

record PriceTracker =
  price :: f64

text \<open>The anonymous struct \<open>{Bitcoin struct {USD float64}}\<close>, as the number it holds.\<close>

definition dec_coin :: "f64 decoder" where
  "dec_coin = dec_struct [(''bitcoin'', dec_struct [(''usd'', dec_float)])]"

definition fetch :: "string option \<Rightarrow> PriceTracker \<Rightarrow> PriceTracker" where
  "fetch resp pt =
     (case resp of
        None \<Rightarrow> pt
      | Some body \<Rightarrow>
          (let (usd, err) = decode_first dec_coin body (Fin 0)
           in if err then pt else if Fin 0 < usd then pt\<lparr>price := usd\<rparr> else pt))"

definition NewPriceTracker :: "string option \<Rightarrow> PriceTracker" where
  "NewPriceTracker resp = fetch resp \<lparr>price = Fin 0\<rparr>"

text \<open>The background goroutine fetches once per tick; \<open>resps\<close> are the answers it got so far.\<close>

definition price_loop :: "string option list \<Rightarrow> PriceTracker \<Rightarrow> PriceTracker" where
  "price_loop resps pt = foldl (\<lambda>t r. fetch r t) pt resps"

definition Price :: "PriceTracker \<Rightarrow> f64" where
  "Price pt = price pt"

section \<open>The price is zero or a positive finite number\<close>

definition usable_price :: "f64 \<Rightarrow> bool" where
  "usable_price x \<longleftrightarrow> (case x of Fin q \<Rightarrow> 0 \<le> q | _ \<Rightarrow> False)"

definition keeps_Fin :: "f64 decoder \<Rightarrow> bool" where
  "keeps_Fin dec \<longleftrightarrow> (\<forall>v q. \<exists>q'. fst (dec v (Fin q)) = Fin q')"

lemma keeps_FinD: "keeps_Fin dec \<Longrightarrow> \<exists>q'. fst (dec v (Fin q)) = Fin q'"
  by (simp add: keeps_Fin_def)

lemma dec_float_Fin: "keeps_Fin dec_float"
proof -
  have "\<exists>q'. fst (dec_float v (Fin q)) = Fin q'" for v q
    by (cases v) (auto simp: parse_float_def split: option.splits f64.splits)
  then show ?thesis by (simp add: keeps_Fin_def)
qed

lemma dec_members_Fin:
  assumes "\<And>k dec. lookup_field fs k = Some dec \<Longrightarrow> keeps_Fin dec"
  shows "\<exists>q'. fst (dec_members fs ms (Fin q)) = Fin q'"
proof (induction ms arbitrary: q)
  case (Cons m ms)
  obtain k v where m: "m = (k, v)" by force
  show ?case
  proof (cases "lookup_field fs k")
    case None
    then show ?thesis using Cons.IH m by simp
  next
    case (Some dec)
    obtain q1 e where q1: "dec v (Fin q) = (Fin q1, e)"
      using keeps_FinD [OF assms [OF Some], of v q] by (metis eq_fst_iff)
    obtain x e' where x: "dec_members fs ms (Fin q1) = (x, e')" by force
    show ?thesis using Cons.IH [of q1] by (simp add: m Some q1 x)
  qed
qed simp

lemma dec_struct_Fin: assumes "keeps_Fin dec" shows "keeps_Fin (dec_struct [(n, dec)])"
proof -
  have f: "lookup_field [(n, dec)] k = Some d \<Longrightarrow> keeps_Fin d" for k d
    using assms by (auto simp: lookup_field_def split: if_splits)
  have "\<exists>q'. fst (dec_struct [(n, dec)] v (Fin q)) = Fin q'" for v q
    using dec_members_Fin [OF f] by (cases v) auto
  then show ?thesis by (simp add: keeps_Fin_def)
qed

lemma dec_coin_Fin: "keeps_Fin dec_coin"
  unfolding dec_coin_def by (intro dec_struct_Fin dec_float_Fin)

lemma fetch_cases:
  obtains "fetch resp pt = pt" | q where "fetch resp pt = pt\<lparr>price := Fin q\<rparr>" "0 < q"
proof (cases "\<exists>usd. fetch resp pt = pt\<lparr>price := usd\<rparr> \<and> Fin 0 < usd \<and> (\<exists>q. usd = Fin q)")
  case True
  then show thesis using that(2) by auto
next
  case False
  have "\<exists>q. fst (decode_first dec_coin body (Fin 0)) = Fin q" for body
    using keeps_FinD [OF dec_coin_Fin] by (auto simp: decode_first_def split: option.split)
  with False have "fetch resp pt = pt"
    by (auto simp: fetch_def split: option.splits prod.splits if_splits) (metis fst_conv)
  then show thesis using that(1) by blast
qed

text \<open>
  C27: whatever the price service answers, and however often, the price the engine works with is a
  finite number, it is never negative, and once a positive price is known it stays positive.
\<close>

theorem price_loop_ok:
  "usable_price (Price (price_loop resps (NewPriceTracker resp))) \<and>
   (Fin 0 < Price (NewPriceTracker resp) \<longrightarrow> Fin 0 < Price (price_loop resps (NewPriceTracker resp)))"
proof -
  let ?P = "\<lambda>pt. usable_price (price pt)"
  have step: "?P (fetch r pt) \<and> (Fin 0 < price pt \<longrightarrow> Fin 0 < price (fetch r pt))" if "?P pt" for r pt
    using that by (cases rule: fetch_cases [of r pt]) (auto simp: usable_price_def)
  have "?P pt \<Longrightarrow> ?P (price_loop rs pt) \<and> (Fin 0 < price pt \<longrightarrow> Fin 0 < price (price_loop rs pt))" for rs pt
  proof (induction rs arbitrary: pt)
    case (Cons r rs)
    then show ?case using step [OF Cons.prems, of r] by (simp add: price_loop_def)
  qed (simp add: price_loop_def)
  moreover have "?P (NewPriceTracker resp)"
    using step [of "\<lparr>price = Fin 0\<rparr>" resp] by (simp add: NewPriceTracker_def usable_price_def)
  ultimately show ?thesis by (simp add: Price_def)
qed

theorem price_loop_ok_witness:
  \<open>Fin 0 < Price (price_loop [None, Some ''{}''] (NewPriceTracker (Some ''{"bitcoin":{"usd":65000.5}}'')))\<close>
proof -
  have \<open>Fin 0 < Price (NewPriceTracker (Some ''{"bitcoin":{"usd":65000.5}}''))\<close> by code_simp
  then show ?thesis using price_loop_ok by blast
qed

end
