(* ===== verification/Billing.thy ===== *)
theory Billing
  imports PriceFeed
begin

text \<open>
  \<open>internal/billing/billing.go\<close>: the pricing table and the calculation of what a job costs and earns.
  A decimal constant of the source is the double nearest to it (\<open>lit\<close>). The engine's \<open>db\<close> field is
  never used by the package and has no counterpart. \<open>Calculate\<close> returns the gross price in dollars
  and the shares of the provider and of the gateway in millisatoshi.
\<close>

section \<open>The engine\<close>

record ModelPricing =
  PerMInputUSD :: f64
  PerMOutputUSD :: f64

record Engine =
  feePct :: f64
  prices :: PriceTracker
  pricing :: "string \<rightharpoonup> ModelPricing"

definition price_of :: "rat \<Rightarrow> rat \<Rightarrow> ModelPricing" where
  "price_of i out = \<lparr>PerMInputUSD = lit i, PerMOutputUSD = lit out\<rparr>"

definition pricing_table :: "(string \<times> ModelPricing) list" where
  "pricing_table =
     [(''llama3.1:70b'', price_of (10 / 100) (14 / 100)),
      (''llama3.1:70b-instruct-q4_K_M'', price_of (10 / 100) (14 / 100)),
      (''llama3.3:70b'', price_of (10 / 100) (14 / 100)),
      (''llama3.1:70b-instruct-q2_K'', price_of (8 / 100) (12 / 100)),
      (''qwen2.5-coder:32b-instruct-q4_K_M'', price_of (6 / 100) (11 / 100)),
      (''qwen2.5:32b'', price_of (6 / 100) (11 / 100)),
      (''mixtral:8x7b'', price_of (6 / 100) (11 / 100)),
      (''command-r:35b'', price_of (5 / 100) (10 / 100)),
      (''gemma2:27b'', price_of (5 / 100) (10 / 100)),
      (''mistral-small:24b'', price_of (5 / 100) (10 / 100)),
      (''qwen2.5:14b'', price_of (4 / 100) (9 / 100)),
      (''deepseek-r1:14b'', price_of (5 / 100) (9 / 100)),
      (''llama3.1:8b-instruct-q8_0'', price_of (3 / 100) (8 / 100)),
      (''qwen3.5:9b'', price_of (3 / 100) (8 / 100)),
      (''qwen3:8b'', price_of (3 / 100) (8 / 100)),
      (''deepseek-r1:8b'', price_of (3 / 100) (7 / 100)),
      (''llama3.1:8b'', price_of (3 / 100) (7 / 100)),
      (''qwen2.5:7b'', price_of (3 / 100) (7 / 100)),
      (''qwen2.5-coder:7b'', price_of (3 / 100) (7 / 100)),
      (''deepseek-r1:7b'', price_of (3 / 100) (7 / 100)),
      (''gemma2:9b'', price_of (3 / 100) (7 / 100)),
      (''mistral:7b'', price_of (3 / 100) (7 / 100)),
      (''phi4-mini'', price_of (2 / 100) (6 / 100)),
      (''phi4-mini:latest'', price_of (2 / 100) (6 / 100)),
      (''qwen3.5:4b'', price_of (2 / 100) (5 / 100)),
      (''gemma3:4b'', price_of (2 / 100) (5 / 100)),
      (''llama3.2:3b'', price_of (15 / 1000) (4 / 100)),
      (''qwen2.5:3b'', price_of (15 / 1000) (4 / 100)),
      (''phi3:mini'', price_of (15 / 1000) (4 / 100)),
      (''qwen2.5:1.5b'', price_of (8 / 1000) (2 / 100)),
      (''deepseek-r1:1.5b'', price_of (8 / 1000) (2 / 100)),
      (''llama3.2:1b'', price_of (5 / 1000) (1 / 100)),
      (''tinyllama:1.1b'', price_of (5 / 1000) (1 / 100)),
      (''qwen3.5:0.8b'', price_of (5 / 1000) (12 / 1000)),
      (''qwen2.5:0.5b'', price_of (3 / 1000) (8 / 1000)),
      (''smollm2:360m'', price_of (2 / 1000) (5 / 1000)),
      (''smollm2:135m'', price_of (1 / 1000) (3 / 1000))]"

definition defaultPricing :: "string \<rightharpoonup> ModelPricing" where
  "defaultPricing = map_of pricing_table"

definition FallbackPricing :: ModelPricing where
  "FallbackPricing = price_of (3 / 100) (7 / 100)"

text \<open>\<open>New\<close>: \<open>resp\<close> is the answer of the price service to the first fetch.\<close>

definition New :: "f64 \<Rightarrow> string option \<Rightarrow> Engine" where
  "New fee resp = \<lparr>feePct = fee, prices = NewPriceTracker resp, pricing = defaultPricing\<rparr>"

definition BtcPrice :: "Engine \<Rightarrow> f64" where
  "BtcPrice e = Price (prices e)"

definition FeePct :: "Engine \<Rightarrow> f64" where
  "FeePct e = feePct e"

definition GetPricing :: "Engine \<Rightarrow> string \<Rightarrow> ModelPricing option" where
  "GetPricing e model = pricing e model"

definition AllPricing :: "Engine \<Rightarrow> (string \<rightharpoonup> ModelPricing)" where
  "AllPricing e = pricing e"

section \<open>Calculate\<close>

definition gross_usd :: "ModelPricing \<Rightarrow> int \<Rightarrow> int \<Rightarrow> f64" where
  "gross_usd p tokensIn tokensOut =
     float_of_int tokensIn / lit 1000000 * PerMInputUSD p
     + float_of_int tokensOut / lit 1000000 * PerMOutputUSD p"

definition total_msats :: "f64 \<Rightarrow> f64 \<Rightarrow> int64" where
  "total_msats grossUSD btcPriceUSD = int_of_float (grossUSD / btcPriceUSD * lit 100000000000)"

definition fee_msats :: "f64 \<Rightarrow> int64 \<Rightarrow> int64" where
  "fee_msats fee totalMsats = int_of_float (float_of_int totalMsats * fee / lit 100)"

definition Calculate :: "Engine \<Rightarrow> string \<Rightarrow> int \<Rightarrow> int \<Rightarrow> f64 \<Rightarrow> f64 \<times> int64 \<times> int64" where
  "Calculate e model tokensIn tokensOut btcPriceUSD =
     (let p = (case pricing e model of Some p \<Rightarrow> p | None \<Rightarrow> FallbackPricing);
          grossUSD = gross_usd p tokensIn tokensOut
      in if btcPriceUSD \<le> Fin 0 then (grossUSD, 0, 0)
         else let totalMsats = total_msats grossUSD btcPriceUSD;
                  feeMsats = fee_msats (feePct e) totalMsats;
                  providerMsats = wrap64 (totalMsats - feeMsats)
              in (grossUSD, providerMsats, feeMsats))"


section \<open>The pricing table\<close>

definition price_ok :: "ModelPricing \<Rightarrow> bool" where
  "price_ok p \<longleftrightarrow>
     fin_between 0 1 (PerMInputUSD p) \<and> fin_between 0 1 (PerMOutputUSD p)"

lemma lit_range: assumes "1 / 1024 \<le> q" "q \<le> 1" shows "fin_between (1 / 1024) 1 (lit q)"
proof -
  have "rnd (1 / 1024) = 1 / 1024" using rnd_pow2 [of "-10"] by (simp add: power_int_minus)
  moreover have "rnd 1 = 1" using rnd_of_int [of 1] by simp
  ultimately show ?thesis
    using assms rnd_mono [OF assms(1)] rnd_mono [OF assms(2)] by (simp add: lit_def round64_Fin)
qed

definition sound_price :: "ModelPricing \<Rightarrow> bool" where
  "sound_price p \<longleftrightarrow>
     fin_between (1 / 1024) 1 (PerMInputUSD p) \<and> fin_between (1 / 1024) 1 (PerMOutputUSD p) \<and>
     PerMInputUSD p \<le> PerMOutputUSD p"

lemma price_of_sound:
  assumes "1 / 1024 \<le> i" "i \<le> out" "out \<le> 1" shows "sound_price (price_of i out)"
  using assms lit_range [of i] lit_range [of out] lit_mono [of i out]
  by (simp add: price_of_def sound_price_def)

lemma pricing_table_sound_price: "list_all (\<lambda>(m, p). sound_price p) pricing_table"
  by (simp add: pricing_table_def price_of_sound)

lemma FallbackPricing_sound: "sound_price FallbackPricing"
  by (simp add: FallbackPricing_def price_of_sound)

text \<open>
  Every model of the table, and the fallback, has a positive input price of at most one dollar
  per million tokens and an output price that is at least as high; no model is listed twice, and
  the map the engine works with is exactly the table.
\<close>

theorem pricing_table_sound:
  "distinct (map fst pricing_table) \<and> length pricing_table = 37 \<and> sound_price FallbackPricing \<and>
   list_all (\<lambda>(m, p). sound_price p \<and> GetPricing (New fee resp) m = Some p) pricing_table"
proof -
  have d: "distinct (map fst pricing_table)" by (simp add: pricing_table_def)
  moreover have "length pricing_table = 37" by (simp add: pricing_table_def)
  moreover have "list_all (\<lambda>(m, p). sound_price p \<and> GetPricing (New fee resp) m = Some p) pricing_table"
    using map_of_is_SomeI [OF d] pricing_table_sound_price
    by (auto simp: list_all_iff GetPricing_def New_def defaultPricing_def)
  ultimately show ?thesis using FallbackPricing_sound by blast
qed

section \<open>What Calculate returns\<close>

text \<open>The engine as the program builds it: a fee between 0 and 100 percent and sound prices.\<close>

definition wf_engine :: "Engine \<Rightarrow> bool" where
  "wf_engine e \<longleftrightarrow> fin_between 0 100 (feePct e) \<and> (\<forall>p\<in>ran (pricing e). price_ok p)"

definition good_btc :: "f64 \<Rightarrow> bool" where
  "good_btc b \<longleftrightarrow> (case b of Fin q \<Rightarrow> 1 \<le> q | _ \<Rightarrow> False)"

definition tokens_ok :: "int \<Rightarrow> bool" where
  "tokens_ok n \<longleftrightarrow> 0 \<le> n \<and> n \<le> 100000"

definition price_for :: "Engine \<Rightarrow> string \<Rightarrow> ModelPricing" where
  "price_for e model = (case pricing e model of Some p \<Rightarrow> p | None \<Rightarrow> FallbackPricing)"

lemma sound_price_ok: "sound_price p \<Longrightarrow> price_ok p"
  by (auto simp: sound_price_def price_ok_def elim!: fin_betweenE)

lemma price_for_ok: "wf_engine e \<Longrightarrow> price_ok (price_for e model)"
  using sound_price_ok [OF FallbackPricing_sound]
  by (auto simp: price_for_def wf_engine_def ran_def split: option.split)

lemma feePct_New: "feePct (New fee resp) = fee"
  by (simp add: New_def)

lemma New_wf: assumes "fin_between 0 100 fee" shows "wf_engine (New fee resp)"
proof -
  have "price_ok p" if "defaultPricing m = Some p" for m p
    using map_of_SomeD [of pricing_table m p] that pricing_table_sound_price sound_price_ok
    by (auto simp: defaultPricing_def list_all_iff)
  then show ?thesis using assms by (auto simp: wf_engine_def New_def ran_def)
qed

lemma Calculate_eq:
  "Calculate e model i out b =
     (let g = gross_usd (price_for e model) i out
      in if b \<le> Fin 0 then (g, 0, 0)
         else (g, wrap64 (total_msats g b - fee_msats (feePct e) (total_msats g b)),
               fee_msats (feePct e) (total_msats g b)))"
  by (simp add: Calculate_def price_for_def Let_def)

lemma good_btcE: "good_btc b \<Longrightarrow> (\<And>q. b = Fin q \<Longrightarrow> 1 \<le> q \<Longrightarrow> P) \<Longrightarrow> P"
  by (cases b) (auto simp: good_btc_def)

lemma lit_million [simp]: "lit 1000000 = Fin 1000000" and lit_hundred [simp]: "lit 100 = Fin 100"
  and lit_msats [simp]: "lit 100000000000 = Fin 100000000000"
  by (simp_all add: lit_numeral)

subsection \<open>The gross price\<close>

definition share_usd :: "f64 \<Rightarrow> int \<Rightarrow> f64" where
  "share_usd p n = float_of_int n / lit 1000000 * p"

lemma share_usd_Fin:
  assumes "tokens_ok n" "fin_between 0 1 (Fin p)"
  shows "share_usd (Fin p) n = Fin (rnd (rnd (of_int n / 1000000) * p))"
    and "0 \<le> rnd (rnd (of_int n / 1000000) * p)" and "rnd (rnd (of_int n / 1000000) * p) \<le> 1"
proof -
  let ?x = "rnd (of_int n / 1000000) :: rat"
  have q: "0 \<le> (of_int n / 1000000 :: rat)" "of_int n / 1000000 \<le> (of_int 1 :: rat)"
    using assms(1) of_int_le_iff [of n 100000, where 'a = rat] by (simp_all add: tokens_ok_def)
  have x: "0 \<le> ?x" "?x \<le> 1" using rnd_nonneg [OF q(1)] rnd_le_int [OF q(2)] by simp_all
  have xp: "0 \<le> ?x * p" "?x * p \<le> of_int 1"
    using x assms(2) by (simp_all add: mult_le_one)
  show "share_usd (Fin p) n = Fin (rnd (?x * p))"
    using assms(1) round64_small [OF q] round64_small [OF xp]
    by (simp add: share_usd_def float_of_int_exact tokens_ok_def)
  show "0 \<le> rnd (?x * p)" "rnd (?x * p) \<le> 1"
    using rnd_nonneg [OF xp(1)] rnd_le_int [OF xp(2)] by simp_all
qed

lemma gross_usd_Fin:
  assumes "price_ok p" "tokens_ok i" "tokens_ok out"
  obtains a b where "share_usd (PerMInputUSD p) i = Fin a" "share_usd (PerMOutputUSD p) out = Fin b"
    "0 \<le> a" "0 \<le> b" "gross_usd p i out = Fin (rnd (a + b))" "0 \<le> rnd (a + b)" "rnd (a + b) \<le> 2"
proof -
  from assms(1) obtain x y where
    xy: "PerMInputUSD p = Fin x" "PerMOutputUSD p = Fin y" "fin_between 0 1 (Fin x)" "fin_between 0 1 (Fin y)"
    by (auto simp: price_ok_def elim!: fin_betweenE)
  note X = share_usd_Fin [OF assms(2) xy(3)] and Y = share_usd_Fin [OF assms(3) xy(4)]
  let ?a = "rnd (rnd (of_int i / 1000000) * x)" and ?b = "rnd (rnd (of_int out / 1000000) * y)"
  have ab: "0 \<le> ?a + ?b" "?a + ?b \<le> of_int 2" using X Y by simp_all
  have "gross_usd p i out = Fin ?a + Fin ?b"
    using X(1) Y(1) by (simp only: gross_usd_def xy share_usd_def)
  then show thesis
    using that [of ?a ?b] X Y xy ab round64_small [OF ab] rnd_nonneg [OF ab(1)] rnd_le_int [OF ab(2)]
    by simp
qed

lemma share_usd_mono:
  assumes "tokens_ok n" "tokens_ok m" "n \<le> m" "fin_between 0 1 (Fin p)"
    "share_usd (Fin p) n = Fin a" "share_usd (Fin p) m = Fin b"
  shows "a \<le> b"
proof -
  have "rnd (of_int n / 1000000) \<le> (rnd (of_int m / 1000000) :: rat)"
    using assms(3) by (intro rnd_mono divide_right_mono) simp_all
  then have "rnd (rnd (of_int n / 1000000) * p) \<le> rnd (rnd (of_int m / 1000000) * p)"
    using assms(4) by (intro rnd_mono [OF mult_right_mono]) simp_all
  then show ?thesis using assms(5,6) share_usd_Fin(1) [OF assms(1,4)] share_usd_Fin(1) [OF assms(2,4)] by simp
qed

lemma gross_usd_mono:
  assumes "price_ok p" "tokens_ok i" "tokens_ok out" "tokens_ok i'" "tokens_ok out'" "i \<le> i'" "out \<le> out'"
    "gross_usd p i out = Fin g" "gross_usd p i' out' = Fin g'"
  shows "g \<le> g'"
proof -
  obtain x y where xy: "PerMInputUSD p = Fin x" "PerMOutputUSD p = Fin y"
    "fin_between 0 1 (Fin x)" "fin_between 0 1 (Fin y)"
    using assms(1) by (auto simp: price_ok_def elim!: fin_betweenE)
  obtain a b where ab: "share_usd (Fin x) i = Fin a" "share_usd (Fin y) out = Fin b"
    "gross_usd p i out = Fin (rnd (a + b))"
    using gross_usd_Fin [OF assms(1-3)] xy by metis
  obtain a' b' where ab': "share_usd (Fin x) i' = Fin a'" "share_usd (Fin y) out' = Fin b'"
    "gross_usd p i' out' = Fin (rnd (a' + b'))"
    using gross_usd_Fin [OF assms(1,4,5)] xy by metis
  have "a \<le> a'" "b \<le> b'"
    using share_usd_mono [OF _ _ _ xy(3) ab(1) ab'(1)] share_usd_mono [OF _ _ _ xy(4) ab(2) ab'(2)] assms
    by blast+
  then have "rnd (a + b) \<le> rnd (a' + b')" by (intro rnd_mono add_mono)
  then show ?thesis using ab ab' assms(8,9) by simp
qed

subsection \<open>The price in millisatoshi and the fee\<close>

lemma total_msats_Fin:
  assumes "0 \<le> g" "g \<le> 2" "1 \<le> b"
  shows "total_msats (Fin g) (Fin b) = \<lfloor>rnd (rnd (g / b) * 100000000000)\<rfloor>"
    and "0 \<le> total_msats (Fin g) (Fin b)" and "total_msats (Fin g) (Fin b) \<le> 200000000000"
proof -
  have "g / b \<le> g" using assms by (simp add: divide_le_eq mult_le_cancel_left1)
  then have q: "0 \<le> g / b" "g / b \<le> of_int 2" using assms by simp_all
  have x: "0 \<le> rnd (g / b)" "rnd (g / b) \<le> 2" using rnd_nonneg [OF q(1)] rnd_le_int [OF q(2)] by simp_all
  let ?y = "rnd (g / b) * 100000000000"
  have y: "0 \<le> ?y" "?y \<le> of_int 200000000000" using x by simp_all
  have r: "0 \<le> rnd ?y" "rnd ?y \<le> of_int 200000000000" using rnd_nonneg [OF y(1)] rnd_le_int [OF y(2)] by simp_all
  then have f: "0 \<le> \<lfloor>rnd ?y\<rfloor>" "\<lfloor>rnd ?y\<rfloor> \<le> 200000000000" by (simp_all add: floor_le_iff)
  then show eq: "total_msats (Fin g) (Fin b) = \<lfloor>rnd ?y\<rfloor>"
    using assms(3) round64_small [OF q] round64_small [OF y] r(1)
    by (simp add: total_msats_def trunc_def in_int64_def)
  show "0 \<le> total_msats (Fin g) (Fin b)" "total_msats (Fin g) (Fin b) \<le> 200000000000"
    unfolding eq by (rule f)+
qed

lemma total_msats_mono:
  assumes "0 \<le> g" "g \<le> g'" "g' \<le> 2" "1 \<le> b"
  shows "total_msats (Fin g) (Fin b) \<le> total_msats (Fin g') (Fin b)"
proof -
  have "rnd (rnd (g / b) * 100000000000) \<le> rnd (rnd (g' / b) * 100000000000)"
    using assms by (intro rnd_mono mult_right_mono divide_right_mono) simp_all
  then show ?thesis using assms total_msats_Fin(1) [of g b] total_msats_Fin(1) [of g' b] by (simp add: floor_mono)
qed

lemma fee_msats_Fin:
  assumes "0 \<le> t" "t \<le> 200000000000" "0 \<le> q" "q \<le> 100"
  shows "fee_msats (Fin q) t = \<lfloor>rnd (rnd (of_int t * q) / 100)\<rfloor>"
    and "0 \<le> fee_msats (Fin q) t" and "fee_msats (Fin q) t \<le> t"
proof -
  have t: "0 \<le> (of_int t :: rat)" using assms(1) by simp
  have "of_int t * q \<le> of_int t * 100" using t assms(4) by (rule mult_left_mono [rotated])
  then have p: "0 \<le> of_int t * q" "of_int t * q \<le> of_int (t * 100)" using t assms(3) by simp_all
  have t53: "t * 100 \<le> 2 ^ 53" "\<bar>t * 100\<bar> \<le> 2 ^ 53" "t \<le> 2 ^ 53" "\<bar>t\<bar> \<le> 2 ^ 53" using assms(1,2) by simp_all
  have x: "0 \<le> rnd (of_int t * q)" "rnd (of_int t * q) \<le> of_int (t * 100)"
    using rnd_nonneg [OF p(1)] rnd_le_int [OF p(2) t53(2)] .
  then have y: "0 \<le> rnd (of_int t * q) / 100" "rnd (of_int t * q) / 100 \<le> of_int t" by simp_all
  let ?r = "rnd (rnd (of_int t * q) / 100)"
  have r: "0 \<le> ?r" "?r \<le> of_int t" using rnd_nonneg [OF y(1)] rnd_le_int [OF y(2) t53(4)] .
  then have f: "0 \<le> \<lfloor>?r\<rfloor>" "\<lfloor>?r\<rfloor> \<le> t" by (simp_all add: floor_le_iff)
  then have "in_int64 \<lfloor>?r\<rfloor>" by (rule in_int64_le) (use assms(2) in simp)
  then show eq: "fee_msats (Fin q) t = \<lfloor>?r\<rfloor>"
    using assms(1,2) round64_small [OF p t53(1)] round64_small [OF y t53(3)] r(1)
    by (simp add: fee_msats_def float_of_int_exact trunc_def)
  show "0 \<le> fee_msats (Fin q) t" "fee_msats (Fin q) t \<le> t" unfolding eq by (rule f)+
qed

lemma fee_msats_error:
  assumes "0 \<le> t" "t \<le> 200000000000" "0 \<le> q" "q \<le> 100"
  shows "of_int t * q / 100 - 10001 / 10000 < of_int (fee_msats (Fin q) t)"
    and "of_int (fee_msats (Fin q) t) < of_int t * q / 100 + 1 / 10000"
proof -
  define x where "x = of_int t * q"
  have t: "0 \<le> (of_int t :: rat)" "of_int t \<le> (200000000000 :: rat)" using assms(1,2) by simp_all
  have "x \<le> 200000000000 * 100" unfolding x_def using t assms by (intro mult_mono) simp_all
  then have x: "0 \<le> x" "x \<le> 20000000000000" using t assms(3) by (simp_all add: x_def)
  have e1: "\<bar>rnd x - x\<bar> \<le> pow2 (44 - 53)"
    using x by (intro rnd_abs_error) (simp_all add: power_int_def)
  then have e1': "rnd x - x \<le> 1 / 512" "x - rnd x \<le> 1 / 512"
    using abs_le_D1 [OF e1] abs_le_D2 [OF e1] by (simp_all add: power_int_minus)
  define y where "y = rnd x / 100"
  have r: "0 \<le> rnd x" by (rule rnd_nonneg [OF x(1)])
  have y: "0 \<le> y" "y < 274877906944" using r e1' x by (simp_all add: y_def)
  have e: "\<bar>rnd y - y\<bar> \<le> pow2 (37 - 53)"
    using y by (intro rnd_abs_error) (simp_all add: power_int_def)
  then have e2: "rnd y - y \<le> 1 / 65536" "y - rnd y \<le> 1 / 65536"
    using abs_le_D1 [OF e] abs_le_D2 [OF e] by (simp_all add: power_int_minus)
  have "fee_msats (Fin q) t = \<lfloor>rnd y\<rfloor>" using fee_msats_Fin(1) [OF assms] by (simp add: x_def y_def)
  moreover have "rnd y - 1 < of_int \<lfloor>rnd y\<rfloor>" "of_int \<lfloor>rnd y\<rfloor> \<le> rnd y" by linarith+
  moreover have "100 * y = rnd x" by (simp add: y_def)
  ultimately have "x / 100 - 10001 / 10000 < of_int (fee_msats (Fin q) t)"
    "of_int (fee_msats (Fin q) t) < x / 100 + 1 / 10000" using e1' e2 by linarith+
  then show "of_int t * q / 100 - 10001 / 10000 < of_int (fee_msats (Fin q) t)"
    "of_int (fee_msats (Fin q) t) < of_int t * q / 100 + 1 / 10000" by (simp_all add: x_def)
qed

lemma Calculate_good:
  assumes "wf_engine e" "tokens_ok i" "tokens_ok out" "good_btc b" "Calculate e model i out b = (g, p, f)"
  obtains t q where "feePct e = Fin q" "0 \<le> q" "q \<le> 100"
    "t = total_msats (gross_usd (price_for e model) i out) b" "0 \<le> t" "t \<le> 200000000000"
    "f = fee_msats (Fin q) t" "p + f = t" "0 \<le> p" "0 \<le> f"
proof -
  let ?g = "gross_usd (price_for e model) i out" let ?t = "total_msats ?g b"
  obtain q where q: "feePct e = Fin q" "0 \<le> q" "q \<le> 100"
    using assms(1) by (auto simp: wf_engine_def elim: fin_betweenE)
  obtain c where c: "b = Fin c" "1 \<le> c" using assms(4) by (rule good_btcE)
  obtain x where x: "?g = Fin x" "0 \<le> x" "x \<le> 2"
    using gross_usd_Fin [OF price_for_ok [OF assms(1)] assms(2,3)] by metis
  have t: "0 \<le> ?t" "?t \<le> 200000000000" using total_msats_Fin(2,3) [OF x(2,3) c(2)] by (simp_all add: x c)
  let ?f = "fee_msats (Fin q) ?t"
  have f: "0 \<le> ?f" "?f \<le> ?t" by (rule fee_msats_Fin(2,3) [OF t q(2,3)])+
  then have "in_int64 (?t - ?f)" using t by (intro in_int64_le [of _ ?t]) simp_all
  then have "p = ?t - ?f" "f = ?f" using assms(5) c q by (auto simp: Calculate_eq Let_def)
  then show thesis using that [of q ?t] q t f by simp
qed

section \<open>Properties of the billing engine\<close>

text \<open>
  Nothing is lost between the two shares: in 64-bit arithmetic they add up to the price of the
  job in millisatoshi, for every engine, model, token count and price, overflowing or not; with no
  known bitcoin price both shares are zero.
\<close>

theorem Calculate_conserves:
  "case Calculate e model tokensIn tokensOut b of (g, p, f) \<Rightarrow>
     g = gross_usd (price_for e model) tokensIn tokensOut \<and>
     wrap64 (p + f) = (if b \<le> Fin 0 then 0 else total_msats g b)"
  by (simp add: Calculate_eq Let_def wrap64_plus_minus total_msats_def)

text \<open>
  C26: for metered token counts, a fee of 0 to 100 percent and a bitcoin price of at least a dollar,
  no share is negative, no share overflows, they add up exactly, and the fee differs from the
  advertised percentage of the price by at most one millisatoshi of truncation and a ten-thousandth
  of rounding.
\<close>

theorem Calculate_shares:
  assumes "wf_engine e" "tokens_ok tokensIn" "tokens_ok tokensOut" "good_btc b"
    "feePct e = Fin q" "Calculate e model tokensIn tokensOut b = (g, p, f)"
  shows "0 \<le> p \<and> 0 \<le> f \<and> p + f = total_msats g b \<and> p + f \<le> 200000000000 \<and>
    of_int (p + f) * q / 100 - 10001 / 10000 < of_int f \<and> of_int f < of_int (p + f) * q / 100 + 1 / 10000"
proof -
  have "\<not> b \<le> Fin 0" using assms(4) by (auto elim: good_btcE)
  then have "g = gross_usd (price_for e model) tokensIn tokensOut"
    using assms(6) by (simp add: Calculate_eq Let_def)
  then show ?thesis
    using Calculate_good [OF assms(1-4,6)] fee_msats_error assms(5) by (metis f64.inject)
qed

text \<open>A concrete engine for the examples: five percent, one model of the table looked up.\<close>

lemma example_price: "price_for (New (Fin 5) None) ''qwen2.5:7b'' = price_of (3 / 100) (7 / 100)"
  by (simp add: price_for_def New_def defaultPricing_def pricing_table_def)

lemma example_gross:
  "gross_usd (price_of (3 / 100) (7 / 100)) 1000 500 = Fin (1199038364791121 / 18446744073709551616)"
  "gross_usd (price_of (3 / 100) (7 / 100)) 2000 500 = Fin (3504881374004815 / 36893488147419103232)"
  by code_simp+

lemma example_msats:
  "total_msats (Fin (1199038364791121 / 18446744073709551616)) (Fin 65000) = 100"
  "total_msats (Fin (3504881374004815 / 36893488147419103232)) (Fin 65000) = 146"
  "fee_msats (Fin 5) 100 = 5" "fee_msats (Fin 5) 146 = 7"
  by code_simp+

lemma example_Calculate:
  "Calculate (New (Fin 5) None) ''qwen2.5:7b'' 1000 500 (Fin 65000)
     = (Fin (1199038364791121 / 18446744073709551616), 95, 5)"
  "snd (Calculate (New (Fin 5) None) ''qwen2.5:7b'' 2000 500 (Fin 65000)) = (139, 7)"
  by (simp_all add: Calculate_eq example_price example_gross example_msats feePct_New in_int64_def)

theorem Calculate_shares_witness:
  "case Calculate (New (Fin 5) None) ''qwen2.5:7b'' 1000 500 (Fin 65000) of (g, p, f) \<Rightarrow>
     p = 95 \<and> f = 5 \<and> p + f = total_msats g (Fin 65000) \<and> of_int (p + f) * 5 / 100 - 10001 / 10000 < (of_int f :: rat)"
proof -
  note Calculate_shares [OF New_wf _ _ _ _ example_Calculate(1), of 5]
  then show ?thesis
    unfolding example_Calculate(1) by (simp add: New_def tokens_ok_def good_btc_def)
qed

text \<open>
  More tokens never cost less: the price of a job in millisatoshi, and so what is paid out for
  it, grows with the prompt and with the completion.
\<close>

theorem Calculate_mono:
  assumes "wf_engine e" "tokens_ok i'" "tokens_ok out'" "0 \<le> i" "0 \<le> out" "i \<le> i'" "out \<le> out'" "good_btc b"
    "Calculate e model i out b = (g, p, f)" "Calculate e model i' out' b = (g', p', f')"
  shows "p + f \<le> p' + f'"
proof -
  have tk: "tokens_ok i" "tokens_ok out" using assms by (simp_all add: tokens_ok_def)
  obtain c where c: "b = Fin c" "1 \<le> c" using assms(8) by (rule good_btcE)
  note ok = price_for_ok [OF assms(1), of model]
  obtain x where x: "gross_usd (price_for e model) i out = Fin x" "0 \<le> x" "x \<le> 2"
    using gross_usd_Fin [OF ok tk] by metis
  obtain x' where x': "gross_usd (price_for e model) i' out' = Fin x'" "0 \<le> x'" "x' \<le> 2"
    using gross_usd_Fin [OF ok assms(2,3)] by metis
  have "x \<le> x'" by (rule gross_usd_mono [OF ok tk assms(2,3,6,7) x(1) x'(1)])
  then have "total_msats (Fin x) b \<le> total_msats (Fin x') b"
    using total_msats_mono [OF x(2) _ x'(3) c(2)] c by simp
  then show ?thesis
    using Calculate_good [OF assms(1) tk assms(8,9)] Calculate_good [OF assms(1-3,8,10)] x x' by metis
qed

theorem Calculate_mono_witness:
  "snd (Calculate (New (Fin 5) None) ''qwen2.5:7b'' 1000 500 (Fin 65000)) = (95, 5) \<and>
   snd (Calculate (New (Fin 5) None) ''qwen2.5:7b'' 2000 500 (Fin 65000)) = (139, 7) \<and> 95 + 5 \<le> (139 + 7 :: int)"
proof -
  note c = example_Calculate(1)
  obtain g where d: "Calculate (New (Fin 5) None) ''qwen2.5:7b'' 2000 500 (Fin 65000) = (g, 139, 7)"
    using example_Calculate(2) by (metis prod.collapse)
  have "95 + 5 \<le> (139 + 7 :: int)"
    by (rule Calculate_mono [OF New_wf _ _ _ _ _ _ _ c d]) (simp_all add: tokens_ok_def good_btc_def)
  then show ?thesis by (simp add: c d)
qed

section \<open>The contract the gateway relies on\<close>

text \<open>
  What settling a job needs from the meter: with token counts that are in range, the two shares are
  nonnegative and far from the 64-bit limit.
\<close>

locale metering =
  fixes ok :: "'e \<Rightarrow> bool"
    and calc :: "'e \<Rightarrow> string \<Rightarrow> int \<Rightarrow> int \<Rightarrow> f64 \<Rightarrow> f64 \<times> int64 \<times> int64"
  assumes calc_unpriced: "b \<le> Fin 0 \<Longrightarrow> snd (calc e m i out b) = (0, 0)"
    and calc_shares: "ok e \<Longrightarrow> tokens_ok i \<Longrightarrow> tokens_ok out \<Longrightarrow> good_btc b \<Longrightarrow>
      calc e m i out b = (g, p, f) \<Longrightarrow> 0 \<le> p \<and> 0 \<le> f \<and> p + f \<le> 200000000000"

interpretation meter: metering wf_engine Calculate
proof unfold_locales
  show "b \<le> Fin 0 \<Longrightarrow> snd (Calculate e m i out b) = (0, 0)" for b e m i out
    by (simp add: Calculate_eq Let_def)
  show "0 \<le> p \<and> 0 \<le> f \<and> p + f \<le> 200000000000"
    if "wf_engine e" "tokens_ok i" "tokens_ok out" "good_btc b" "Calculate e m i out b = (g, p, f)"
    for e i out b m g p f
    using Calculate_good [OF that] by metis
qed

end
