(* ===== verification/Usage.thy ===== *)
theory Usage
  imports Billing
begin

text \<open>
  The pure helpers of \<open>internal/gateway/gateway.go\<close> that decide what a job costs: reading the token
  counts a node reports (\<open>parseUsage\<close>), the clamps on tokens and earnings (\<open>capTokens\<close>, \<open>capEarnings\<close>),
  and the small checks \<open>karmaLevel\<close> and \<open>isValidLightningAddress\<close>.
\<close>

section \<open>The limits and the clamps\<close>

definition maxTokensPerField :: int where "maxTokensPerField = 100000"
definition maxTotalTokensPerJob :: int where "maxTotalTokensPerJob = 200000"
definition maxEarningsPerJobMsats :: int where "maxEarningsPerJobMsats = 200000"

lemmas job_limits = maxTokensPerField_def maxTotalTokensPerJob_def maxEarningsPerJobMsats_def

definition capTokens :: "int \<Rightarrow> int \<Rightarrow> int \<times> int" where
  "capTokens tokensIn tokensOut =
     (let i0 = (if tokensIn < 0 then 0 else tokensIn);
          o0 = (if tokensOut < 0 then 0 else tokensOut);
          i1 = (if i0 > maxTokensPerField then maxTokensPerField else i0);
          o1 = (if o0 > maxTokensPerField then maxTokensPerField else o0)
      in if wrap64 (i1 + o1) > maxTotalTokensPerJob then
           (let ratio = float_of_int maxTotalTokensPerJob / float_of_int (wrap64 (i1 + o1))
            in (int_of_float (float_of_int i1 * ratio), int_of_float (float_of_int o1 * ratio)))
         else (i1, o1))"

definition capEarnings :: "int64 \<Rightarrow> int64 \<Rightarrow> int64 \<times> int64" where
  "capEarnings providerMsats feeMsats =
     (let total = wrap64 (providerMsats + feeMsats)
      in if total > maxEarningsPerJobMsats then
           (let scale = float_of_int maxEarningsPerJobMsats / float_of_int total;
                p = int_of_float (float_of_int providerMsats * scale)
            in (p, wrap64 (maxEarningsPerJobMsats - p)))
         else (providerMsats, feeMsats))"

section \<open>Reading the usage report\<close>

record Usage =
  PromptTokens :: int
  CompletionTokens :: int

definition dec_usage :: "Usage decoder" where
  "dec_usage = dec_struct
     [(''prompt_tokens'', dec_field PromptTokens (\<lambda>x u. u\<lparr>PromptTokens := x\<rparr>) dec_int),
      (''completion_tokens'', dec_field CompletionTokens (\<lambda>x u. u\<lparr>CompletionTokens := x\<rparr>) dec_int)]"

text \<open>The struct with the one field \<open>usage\<close>, as that field.\<close>

definition dec_chunk :: "Usage option decoder" where
  "dec_chunk = dec_struct [(''usage'', dec_ptr \<lparr>PromptTokens = 0, CompletionTokens = 0\<rparr> dec_usage)]"

definition sse_payload :: "string \<Rightarrow> string" where
  "sse_payload line = TrimSpace (TrimPrefix (TrimPrefix (TrimSpace line) ''data: '') ''data:'')"

fun first_usage :: "string list \<Rightarrow> int \<times> int" where
  "first_usage [] = (0, 0)"
| "first_usage (l # ls) =
     (let line = sse_payload l
      in if line = '''' \<or> line = ''[DONE]'' \<or> \<not> Contains line ''usage'' then first_usage ls
         else (case unmarshal dec_chunk line None of
                 (Some u, False) \<Rightarrow> (PromptTokens u, CompletionTokens u)
               | _ \<Rightarrow> first_usage ls))"

definition parseUsage :: "string \<Rightarrow> int \<times> int" where
  "parseUsage sseData = first_usage (Split sseData newline)"

section \<open>Karma and addresses\<close>

definition karmaLevel :: "int64 \<Rightarrow> string" where
  "karmaLevel score =
     (if score \<ge> 10000 then ''diamond'' else if score \<ge> 5000 then ''gold''
      else if score \<ge> 1000 then ''silver'' else if score \<ge> 100 then ''bronze'' else '''')"

definition isValidLightningAddress :: "string \<Rightarrow> bool" where
  "isValidLightningAddress addr =
     (if length addr < 5 \<or> length addr > 320 then False
      else (let parts = SplitN2 addr CHR ''@''
            in if length parts \<noteq> 2 \<or> parts ! 0 = '''' \<or> parts ! 1 = '''' then False
               else if \<not> Contains (parts ! 1) ''.'' then False else True))"

section \<open>What one job costs\<close>

text \<open>The lines \<open>handleProxyDone\<close> and \<open>jobCleanupLoop\<close> share: tokens, price, shares.\<close>

definition meter_job :: "Engine \<Rightarrow> string \<Rightarrow> string \<Rightarrow> (int \<times> int) \<times> f64 \<times> int64 \<times> int64" where
  "meter_job e model lastChunk =
     (let (i, out) = parseUsage lastChunk;
          (tokensIn, tokensOut) = capTokens i out;
          (grossUSD, p, f) = Calculate e model tokensIn tokensOut (BtcPrice e);
          (providerMsats, feeMsats) = capEarnings p f
      in ((tokensIn, tokensOut), grossUSD, providerMsats, feeMsats))"

section \<open>The clamps\<close>

lemma capTokens_eq: "capTokens i out = (max 0 (min i 100000), max 0 (min out 100000))"
proof -
  have "wrap64 (max 0 (min i 100000) + max 0 (min out 100000)) \<le> 200000"
    by (subst wrap64_id) (auto simp: in_int64_def)
  moreover have "(if (if n < 0 then 0 else n) > 100000 then 100000 else if n < 0 then 0 else n) =
      max 0 (min n (100000 :: int))" for n
    by simp
  ultimately show ?thesis by (simp only: capTokens_def job_limits Let_def not_less [symmetric] if_False)
qed

lemma capTokens_ok: "capTokens i out = (i', out') \<Longrightarrow> tokens_ok i' \<and> tokens_ok out'"
  by (auto simp: capTokens_eq tokens_ok_def)

lemma scaled_share:
  assumes "200000 < t" "t \<le> 2 ^ 40" "0 \<le> p" "p \<le> t"
  defines "r \<equiv> rnd (of_int p * rnd (200000 / of_int t)) :: rat"
  shows "0 \<le> r" "\<bar>r - of_int p * 200000 / of_int t\<bar> \<le> 1 / 10000000"
    and "capEarnings p (t - p) = (\<lfloor>r\<rfloor>, 200000 - \<lfloor>r\<rfloor>)"
proof -
  define x where "x = (200000 / of_int t :: rat)"
  have t: "200000 < (of_int t :: rat)" "of_int t \<le> (2 ^ 40 :: rat)" "0 \<le> (of_int p :: rat)"
    "of_int p \<le> (of_int t :: rat)"
    using assms(1-4) of_int_less_iff [of 200000 t, where 'a = rat] of_int_le_iff [of t "2 ^ 40", where 'a = rat]
    by simp_all
  have x: "0 \<le> x" "x \<le> of_int 1" "pow2 (-1022) \<le> \<bar>x\<bar>"
  proof -
    show "0 \<le> x" "x \<le> of_int 1" using t by (simp_all add: x_def)
    have "pow2 (-1022) \<le> pow2 (-40)" by (rule pow2_mono) simp
    also have "\<dots> \<le> x" using t by (simp add: x_def power_int_minus field_simps)
    finally show "pow2 (-1022) \<le> \<bar>x\<bar>" by simp
  qed
  have s: "\<bar>rnd x - x\<bar> \<le> x * pow2 (-53)" "0 \<le> rnd x" "rnd x \<le> 1"
    using rnd_rel_error [OF x(3)] rnd_nonneg [OF x(1)] rnd_le_int [OF x(2)] x(1) by simp_all
  define y where "y = of_int p * rnd x"
  have px: "of_int p * x \<le> 200000" using t by (simp add: x_def field_simps)
  have "\<bar>y - of_int p * x\<bar> = of_int p * \<bar>rnd x - x\<bar>"
    using t(3) by (simp add: y_def abs_mult flip: right_diff_distrib)
  also have "\<dots> \<le> of_int p * (x * pow2 (-53))" using s(1) t(3) by (rule mult_left_mono)
  also have "\<dots> \<le> 200000 * pow2 (-53)" using px by (simp add: mult.assoc [symmetric] mult.commute)
  finally have y1: "\<bar>y - of_int p * x\<bar> \<le> 200000 * pow2 (-53)" .
  have y0: "0 \<le> y" using t(3) s(2) by (simp add: y_def)
  have "\<bar>y - of_int p * x\<bar> \<le> 1" using y1 by (rule order_trans) (simp add: power_int_minus)
  then have y2: "y \<le> 200001" using px unfolding abs_le_iff by linarith
  have y3: "\<bar>rnd y - y\<bar> \<le> pow2 (17 - 53)"
    by (rule rnd_abs_error) (use y0 y2 in \<open>simp_all add: power_int_def\<close>)
  have r: "r = rnd y" by (simp add: r_def y_def x_def)
  show "0 \<le> r" using rnd_nonneg [OF y0] r by simp
  have "of_int p * 200000 / of_int t = of_int p * x" by (simp add: x_def)
  then show err: "\<bar>r - of_int p * 200000 / of_int t\<bar> \<le> 1 / 10000000"
  proof -
    have "200000 * pow2 (-53) \<le> (1 / 100000000 :: rat)" "pow2 (17 - 53) \<le> (1 / 100000000 :: rat)"
      by (simp_all add: power_int_minus)
    then show ?thesis using y1 y3 \<open>_ = of_int p * x\<close> unfolding r by (simp only: abs_le_iff, linarith)
  qed
  have r2: "r \<le> 200001" using err px \<open>_ = of_int p * x\<close> unfolding abs_le_iff by linarith
  have fl: "0 \<le> \<lfloor>r\<rfloor>" "\<lfloor>r\<rfloor> \<le> 200001" using \<open>0 \<le> r\<close> r2 by (simp_all add: floor_le_iff)
  have "in_int64 n \<and> in_int64 (200000 - n)" if "0 \<le> n" "n \<le> 200001" for n
    using that by (simp add: in_int64_def)
  then have fl64: "in_int64 \<lfloor>rnd y\<rfloor>" "in_int64 (200000 - \<lfloor>rnd y\<rfloor>)" using fl unfolding r by blast+
  have p53: "\<bar>p\<bar> \<le> 2 ^ 53" "\<bar>t\<bar> \<le> 2 ^ 53" using assms(1-4) by simp_all
  have "wrap64 (p + (t - p)) = t" using assms(1,2) by (simp add: in_int64_def)
  moreover have "float_of_int 200000 / float_of_int t = Fin (rnd x)"
    using t p53 round64_small [OF x(1,2)] by (simp add: float_of_int_exact x_def)
  moreover have "float_of_int p * Fin (rnd x) = Fin (rnd y)"
    using p53 round64_small [of y 200001] y0 y2 by (simp add: float_of_int_exact y_def)
  ultimately show "capEarnings p (t - p) = (\<lfloor>r\<rfloor>, 200000 - \<lfloor>r\<rfloor>)"
    using assms(1) fl64 \<open>0 \<le> r\<close>
    by (simp add: capEarnings_def job_limits Let_def trunc_def r)
qed

section \<open>Properties of metering\<close>

text \<open>
  The token clamp is exactly a clamp of each count to 0..100000: the branch that scales both
  counts down to a common total is never taken.
\<close>

theorem capTokens_clamp:
  "capTokens tokensIn tokensOut = (max 0 (min tokensIn 100000), max 0 (min tokensOut 100000))"
  by (rule capTokens_eq)

lemma capEarnings_small: "p + f \<le> 200000 \<Longrightarrow> in_int64 (p + f) \<Longrightarrow> capEarnings p f = (p, f)"
  by (simp add: capEarnings_def job_limits)

lemma capEarnings_bounds:
  assumes "0 \<le> p" "0 \<le> f" "p + f \<le> 2 ^ 40" "capEarnings p f = (p', f')"
  shows "0 \<le> p' \<and> 0 \<le> f' \<and> p' + f' = min (p + f) 200000 \<and> p' \<le> p"
proof (cases "p + f \<le> 200000")
  case True
  moreover have "in_int64 (p + f)" using assms by (simp add: in_int64_def)
  ultimately show ?thesis using assms capEarnings_small [of p f] by simp
next
  case False
  let ?t = "p + f" let ?r = "rnd (of_int p * rnd (200000 / of_int ?t)) :: rat"
  note S = scaled_share [of ?t p]
  have r: "0 \<le> ?r" "\<bar>?r - of_int p * 200000 / of_int ?t\<bar> \<le> 1 / 10000000"
    "capEarnings p f = (\<lfloor>?r\<rfloor>, 200000 - \<lfloor>?r\<rfloor>)"
    using S False assms by simp_all
  have pq: "of_int p * 200000 / of_int ?t \<le> (200000 :: rat)" "of_int p * 200000 / of_int ?t \<le> (of_int p :: rat)"
    using False assms(1,2) of_int_le_iff [of 200000 ?t, where 'a = rat]
      mult_left_mono [of 200000 "of_int ?t :: rat" "of_int p"]
    by (simp_all add: divide_le_eq)
  have "?r \<le> of_int p * 200000 / of_int ?t + 1 / 10000000" using r(2) by (simp only: abs_le_iff, linarith)
  then have "?r < of_int 200001" "?r < of_int (p + 1)" using pq by simp_all
  then have "\<lfloor>?r\<rfloor> \<le> 200000" "\<lfloor>?r\<rfloor> \<le> p" using floor_less_iff [of ?r] by fastforce+
  then show ?thesis using r(1,3) assms(4) False by simp
qed

text \<open>
  Capping the earnings of a job never creates money and never exceeds 200 sats: shares stay
  nonnegative, a job within the limit is left alone, and above it they add up to exactly the limit,
  with the provider's share within one millisatoshi of its proportional part.
\<close>

theorem capEarnings_proportional:
  assumes "0 \<le> p" "0 \<le> f" "p + f \<le> 2 ^ 40" "capEarnings p f = (p', f')"
  shows "0 \<le> p' \<and> 0 \<le> f' \<and> p' + f' = min (p + f) 200000 \<and> p' \<le> p \<and>
    (p + f \<le> 200000 \<longrightarrow> p' = p \<and> f' = f) \<and>
    (200000 < p + f \<longrightarrow> of_int p * 200000 / of_int (p + f) - 10000001 / 10000000 < (of_int p' :: rat) \<and>
       of_int p' \<le> (of_int p * 200000 / of_int (p + f) + 1 / 10000000 :: rat))"
proof -
  have small: "p + f \<le> 200000 \<Longrightarrow> p' = p \<and> f' = f"
    using assms capEarnings_small [of p f] by (simp add: in_int64_def)
  have big: "of_int p * 200000 / of_int (p + f) - 10000001 / 10000000 < (of_int p' :: rat) \<and>
       of_int p' \<le> (of_int p * 200000 / of_int (p + f) + 1 / 10000000 :: rat)" if "200000 < p + f"
  proof -
    let ?r = "rnd (of_int p * rnd (200000 / of_int (p + f))) :: rat"
    have "\<bar>?r - of_int p * 200000 / of_int (p + f)\<bar> \<le> 1 / 10000000" "p' = \<lfloor>?r\<rfloor>"
      using scaled_share [of "p + f" p] that assms by simp_all
    then show ?thesis by (simp only: abs_le_iff, linarith)
  qed
  show ?thesis using capEarnings_bounds [OF assms] small big by blast
qed

lemma example_cap: "capEarnings 380000 20000 = (190000, 10000)"
  by code_simp

theorem capEarnings_proportional_witness:
  "capEarnings 380000 20000 = (190000, 10000) \<and> (190000 :: int) + 10000 = min (380000 + 20000) 200000"
  using capEarnings_proportional [OF _ _ _ example_cap] example_cap by simp

text \<open>
  An address is accepted exactly when it has 5 to 320 bytes, a nonempty name before the first @
  and after it a nonempty domain with a dot in it.
\<close>

theorem isValidLightningAddress_iff:
  "isValidLightningAddress addr \<longleftrightarrow>
     5 \<le> length addr \<and> length addr \<le> 320 \<and>
     (\<exists>name domain. addr = name @ CHR ''@'' # domain \<and> CHR ''@'' \<notin> set name \<and> name \<noteq> '''' \<and>
        domain \<noteq> '''' \<and> CHR ''.'' \<in> set domain)"
proof -
  have dot: "Contains d ''.'' \<longleftrightarrow> CHR ''.'' \<in> set d" for d
    by (simp add: Contains_iff sublist_def in_set_conv_decomp)
  consider (none) "CHR ''@'' \<notin> set addr" "SplitN2 addr CHR ''@'' = [addr]"
    | (some) u v where "addr = u @ CHR ''@'' # v" "CHR ''@'' \<notin> set u" "SplitN2 addr CHR ''@'' = [u, v]"
    using SplitN2_cases [of "CHR ''@''" addr] by blast
  then show ?thesis
  proof cases
    case none
    then show ?thesis by (auto simp: isValidLightningAddress_def)
  next
    case some
    have "name = u \<and> domain = v" if "addr = name @ CHR ''@'' # domain" "CHR ''@'' \<notin> set name" for name domain
      using SplitN2_sep [OF that(2), of domain] unfolding that(1) [symmetric] some(3) by simp
    then have "(\<exists>name domain. addr = name @ CHR ''@'' # domain \<and> CHR ''@'' \<notin> set name \<and> name \<noteq> '''' \<and>
        domain \<noteq> '''' \<and> CHR ''.'' \<in> set domain) \<longleftrightarrow> u \<noteq> '''' \<and> v \<noteq> '''' \<and> CHR ''.'' \<in> set v"
      using some(1,2) by metis
    then show ?thesis using some(3) dot by (simp add: isValidLightningAddress_def Let_def not_le not_less)
  qed
qed

theorem isValidLightningAddress_iff_witness:
  "isValidLightningAddress ''bob@node.org'' \<and> \<not> isValidLightningAddress ''bob@localhost''"
proof -
  have "isValidLightningAddress ''bob@node.org''"
    unfolding isValidLightningAddress_iff
    by (intro conjI exI [of _ "''bob''"] exI [of _ "''node.org''"]) simp_all
  moreover have "\<not> isValidLightningAddress ''bob@localhost''"
    by (simp add: isValidLightningAddress_def HasPrefix_def)
  ultimately show ?thesis ..
qed

text \<open>Inside the meter's contract: what the caps make of any report a node sends.\<close>

definition capped :: "int64 \<Rightarrow> int64 \<Rightarrow> bool" where
  "capped p f \<longleftrightarrow> 0 \<le> p \<and> 0 \<le> f \<and> p + f \<le> 200000"

context metering begin

lemma capped_shares:
  assumes "ok e" "tokens_ok i" "tokens_ok out" "good_btc b \<or> b \<le> Fin 0"
    "calc e m i out b = (g, p, f)" "capEarnings p f = (p', f')"
  shows "capped p' f'"
proof (cases "b \<le> Fin 0")
  case True
  then have "p = 0" "f = 0" using calc_unpriced [of b e m i out] assms(5) by simp_all
  then show ?thesis using assms(6) capEarnings_small [of 0 0] by (simp add: capped_def in_int64_def)
next
  case False
  then have "0 \<le> p \<and> 0 \<le> f \<and> p + f \<le> 200000000000" using calc_shares assms by blast
  then show ?thesis using capEarnings_bounds [OF _ _ _ assms(6)] by (simp add: capped_def)
qed

end

lemma meter_job_tokens:
  "meter_job e m s = ((i, out), g, p, f) \<Longrightarrow> tokens_ok i \<and> tokens_ok out"
  using capTokens_ok [of "fst (parseUsage s)" "snd (parseUsage s)" i out]
  by (simp add: meter_job_def split_beta)

lemma meter_job_bounds_lib:
  assumes "wf_engine e" "good_btc (BtcPrice e) \<or> BtcPrice e \<le> Fin 0"
    "meter_job e model lastChunk = ((tokensIn, tokensOut), g, p, f)"
  shows "tokens_ok tokensIn \<and> tokens_ok tokensOut \<and> capped p f"
proof -
  have tk: "tokens_ok tokensIn \<and> tokens_ok tokensOut" using meter_job_tokens [OF assms(3)] .
  obtain g0 p0 f0 where c: "Calculate e model tokensIn tokensOut (BtcPrice e) = (g0, p0, f0)"
    by (metis prod.collapse)
  have "capTokens (fst (parseUsage lastChunk)) (snd (parseUsage lastChunk)) = (tokensIn, tokensOut)"
    using assms(3) by (simp add: meter_job_def split_beta)
  then have "capEarnings p0 f0 = (p, f)"
    using assms(3) c by (simp add: meter_job_def split_beta prod_eq_iff)
  with c show ?thesis using meter.capped_shares [OF assms(1) _ _ assms(2)] tk by blast
qed

text \<open>
  Whatever bytes a node reports as its usage, the job is metered at 0 to 100000 tokens each way
  and costs between 0 and 200 sats in all, with no negative share.
\<close>

theorem meter_job_bounds:
  assumes "wf_engine e" "good_btc (BtcPrice e) \<or> BtcPrice e \<le> Fin 0"
    "meter_job e model lastChunk = ((tokensIn, tokensOut), g, p, f)"
  shows "tokens_ok tokensIn \<and> tokens_ok tokensOut \<and> capped p f"
  using assms by (rule meter_job_bounds_lib)

text \<open>A usage report as the nodes send it.\<close>

definition example_chunk :: string where
  "example_chunk = ''data: {'' @ quote # ''usage'' @ quote # '':{'' @ quote # ''prompt_tokens'' @ quote #
     '':9,'' @ quote # ''completion_tokens'' @ quote # '':250000}}''"

lemma parse_example: "parseUsage example_chunk = (9, 250000)"
  by code_simp

theorem meter_job_bounds_witness:
  "fst (meter_job (New (Fin 5) None) ''m'' example_chunk) = (9, 100000) \<and>
   (case snd (meter_job (New (Fin 5) None) ''m'' example_chunk) of (g, p, f) \<Rightarrow> capped p f)"
proof -
  obtain i out g p f where m: "meter_job (New (Fin 5) None) ''m'' example_chunk = ((i, out), g, p, f)"
    by (metis prod.collapse)
  moreover have "wf_engine (New (Fin 5) None)" by (rule New_wf) simp
  moreover have "BtcPrice (New (Fin 5) None) \<le> Fin 0"
    by (simp add: BtcPrice_def New_def Price_def NewPriceTracker_def fetch_def)
  moreover have "(i, out) = (9, 100000)"
    using m by (auto simp: meter_job_def parse_example capTokens_eq split_beta)
  ultimately show ?thesis using meter_job_bounds by fastforce
qed

end
