(* ===== verification/Router.thy ===== *)
theory Router
  imports Prelude
begin

text \<open>
  \<open>internal/router/router.go\<close>: picking a node for a request. The router's only state is its source of
  live node snapshots, \<open>None\<close> until the gateway is wired in; a source is what a call of
  \<open>LiveNodeInfos\<close> returns at that moment, a list in no particular order. The loop over the nodes
  keeps the best one seen so far (\<open>best_node\<close>), the loop over the models a set of the ones seen.
\<close>

section \<open>State and operations\<close>

record NodeInfo =
  NodeID :: string
  Models :: "string list"
  VRAMFreeMB :: int
  Region :: string
  QueueDepth :: int

datatype router_error = ErrNoNode

record Router =
  source :: "NodeInfo list option"

definition New_router :: Router where
  "New_router = \<lparr>source = None\<rparr>"

definition SetSource :: "Router \<Rightarrow> NodeInfo list \<Rightarrow> Router" where
  "SetSource r s = r\<lparr>source := Some s\<rparr>"

fun hasModel :: "string list \<Rightarrow> string \<Rightarrow> bool" where
  "hasModel [] target = False"
| "hasModel (m # models) target = (if m = target then True else hasModel models target)"

fun best_node :: "NodeInfo list \<Rightarrow> string \<Rightarrow> NodeInfo option \<Rightarrow> NodeInfo option" where
  "best_node [] model best = best"
| "best_node (n # nodes) model best =
     (if \<not> hasModel (Models n) model then best_node nodes model best
      else (case best of
              None \<Rightarrow> best_node nodes model (Some n)
            | Some b \<Rightarrow>
                if QueueDepth n < QueueDepth b then best_node nodes model (Some n)
                else best_node nodes model best))"

definition RouteRequest :: "Router \<Rightarrow> string \<Rightarrow> router_error + string" where
  "RouteRequest r model =
     (case source r of
        None \<Rightarrow> Inl ErrNoNode
      | Some nodes \<Rightarrow>
          (case best_node nodes model None of
             None \<Rightarrow> Inl ErrNoNode
           | Some best \<Rightarrow> Inr (NodeID best)))"

fun add_models :: "string list \<Rightarrow> string set \<Rightarrow> string list \<Rightarrow> string set \<times> string list" where
  "add_models [] seen out = (seen, out)"
| "add_models (m # ms) seen out =
     (if m \<notin> seen then add_models ms (insert m seen) (out @ [m]) else add_models ms seen out)"

fun collect_models :: "NodeInfo list \<Rightarrow> string set \<Rightarrow> string list \<Rightarrow> string list" where
  "collect_models [] seen out = out"
| "collect_models (n # nodes) seen out =
     (let (seen', out') = add_models (Models n) seen out in collect_models nodes seen' out')"

definition AvailableModels :: "Router \<Rightarrow> string list" where
  "AvailableModels r =
     (case source r of None \<Rightarrow> [] | Some nodes \<Rightarrow> collect_models nodes {} [])"

section \<open>The loops\<close>

lemma hasModel_iff [simp]: "hasModel models target \<longleftrightarrow> target \<in> set models"
  by (induction models) auto

abbreviation serves :: "string \<Rightarrow> NodeInfo \<Rightarrow> bool" where
  "serves model n \<equiv> model \<in> set (Models n)"

text \<open>The loop body as a step on the best node so far.\<close>

definition better :: "string \<Rightarrow> NodeInfo option \<Rightarrow> NodeInfo \<Rightarrow> NodeInfo option" where
  "better model best n =
     (if serves model n \<and> (best = None \<or> QueueDepth n < QueueDepth (the best)) then Some n else best)"

lemma best_node_foldl: "best_node nodes model best = foldl (better model) best nodes"
  by (induction nodes arbitrary: best) (auto simp: better_def split: option.splits)

lemma best_node_None:
  "best_node nodes model None = None \<longleftrightarrow> (\<forall>n\<in>set nodes. \<not> serves model n)"
proof -
  have keep: "best_node nodes model (Some b) \<noteq> None" for nodes b
    by (induction nodes arbitrary: b) auto
  show ?thesis by (induction nodes) (auto simp: keep)
qed

text \<open>
  The node chosen is the first of the least loaded ones: everything before it that serves the model
  is busier, everything after it at least as busy.
\<close>

definition first_least :: "string \<Rightarrow> NodeInfo list \<Rightarrow> NodeInfo \<Rightarrow> bool" where
  "first_least model nodes b \<longleftrightarrow>
     (\<exists>before after. nodes = before @ b # after \<and> serves model b \<and>
        (\<forall>n\<in>set before. serves model n \<longrightarrow> QueueDepth b < QueueDepth n) \<and>
        (\<forall>n\<in>set after. serves model n \<longrightarrow> QueueDepth b \<le> QueueDepth n))"

lemma best_node_first_least:
  "best_node nodes model None = Some b \<longleftrightarrow> first_least model nodes b"
proof -
  have fwd: "best_node nodes model None = Some b \<Longrightarrow> first_least model nodes b" for b
  proof (induction nodes arbitrary: b rule: rev_induct)
    case (snoc n nodes)
    show ?case
    proof (cases "best_node nodes model None")
      case None
      then have "\<forall>n\<in>set nodes. \<not> serves model n" by (simp add: best_node_None)
      moreover have "serves model n" "b = n"
        using snoc.prems None by (auto simp: best_node_foldl better_def split: if_splits)
      ultimately show ?thesis unfolding first_least_def by fastforce
    next
      case (Some c)
      then obtain before after where c: "nodes = before @ c # after" "serves model c"
        "\<forall>n\<in>set before. serves model n \<longrightarrow> QueueDepth c < QueueDepth n"
        "\<forall>n\<in>set after. serves model n \<longrightarrow> QueueDepth c \<le> QueueDepth n"
        using snoc.IH [OF Some] unfolding first_least_def by blast
      consider (new) "b = n" "serves model n" "QueueDepth n < QueueDepth c"
        | (old) "b = c" "serves model n \<longrightarrow> QueueDepth c \<le> QueueDepth n"
        using snoc.prems Some by (auto simp: best_node_foldl better_def split: if_splits)
      then show ?thesis
      proof cases
        case new
        then have "\<forall>m\<in>set nodes. serves model m \<longrightarrow> QueueDepth b < QueueDepth m"
          using c by fastforce
        then show ?thesis
          unfolding first_least_def using new by (intro exI [of _ nodes] exI [of _ "[]"]) simp
      next
        case old
        then show ?thesis
          unfolding first_least_def using c by (intro exI [of _ before] exI [of _ "after @ [n]"]) auto
      qed
    qed
  qed simp
  have unique: "b = c" if "first_least model nodes b" "first_least model nodes c" for b c
    using that unfolding first_least_def by (fastforce simp: append_eq_append_conv2 append_eq_Cons_conv Cons_eq_append_conv)
  show ?thesis
  proof
    assume b: "first_least model nodes b"
    then have "\<exists>n\<in>set nodes. serves model n" unfolding first_least_def by fastforce
    then obtain c where "best_node nodes model None = Some c" using best_node_None by fastforce
    then show "best_node nodes model None = Some b" using fwd unique b by blast
  qed (rule fwd)
qed

lemma add_models_correct:
  "add_models ms seen out = (seen', out') \<Longrightarrow> set out = seen \<Longrightarrow> distinct out \<Longrightarrow>
    set out' = seen' \<and> distinct out' \<and> seen' = seen \<union> set ms"
proof (induction ms arbitrary: seen out)
  case (Cons a ms)
  show ?case
  proof (cases "a \<in> seen")
    case True
    then show ?thesis using Cons.IH [of seen out] Cons.prems by auto
  next
    case False
    then show ?thesis using Cons.IH [of "insert a seen" "out @ [a]"] Cons.prems by auto
  qed
qed simp

lemma collect_models_correct:
  "set out = seen \<Longrightarrow> distinct out \<Longrightarrow>
    distinct (collect_models nodes seen out) \<and>
    set (collect_models nodes seen out) = seen \<union> (\<Union>n\<in>set nodes. set (Models n))"
proof (induction nodes arbitrary: seen out)
  case (Cons n nodes)
  obtain seen' out' where a: "add_models (Models n) seen out = (seen', out')" by force
  show ?case using Cons.IH [of out' seen'] add_models_correct [OF a Cons.prems] by (auto simp: a)
qed simp

section \<open>Properties of the router\<close>

text \<open>
  C24: a request is routed to a node exactly when some live node serves the model, and then to the
  first of the nodes with the shortest queue among those that serve it; otherwise the error says
  that there is no node.
\<close>

theorem RouteRequest_correct:
  "(RouteRequest r model = Inr nodeID \<longleftrightarrow>
      (\<exists>nodes b. source r = Some nodes \<and> first_least model nodes b \<and> NodeID b = nodeID)) \<and>
   (RouteRequest r model = Inl ErrNoNode \<longleftrightarrow>
      (\<forall>nodes n. source r = Some nodes \<and> n \<in> set nodes \<longrightarrow> \<not> serves model n))"
proof (cases "source r")
  case None
  then show ?thesis by (simp add: RouteRequest_def)
next
  case (Some nodes)
  show ?thesis
  proof (cases "best_node nodes model None")
    case None
    then have "\<And>b. \<not> first_least model nodes b" by (simp flip: best_node_first_least)
    moreover have "\<forall>n\<in>set nodes. \<not> serves model n" using None by (simp add: best_node_None)
    ultimately show ?thesis using Some None by (simp add: RouteRequest_def)
  next
    case (Some b)
    then have b: "first_least model nodes c \<longleftrightarrow> c = b" for c
      by (auto simp flip: best_node_first_least)
    then have "\<exists>n\<in>set nodes. serves model n" unfolding first_least_def by force
    then show ?thesis using \<open>source r = Some nodes\<close> Some b by (auto simp: RouteRequest_def)
  qed
qed

theorem RouteRequest_correct_witness:
  "RouteRequest (SetSource New_router
      [\<lparr>NodeID = ''a'', Models = [''m''], VRAMFreeMB = 9, Region = ''eu'', QueueDepth = 2\<rparr>,
       \<lparr>NodeID = ''b'', Models = [''x'', ''m''], VRAMFreeMB = 1, Region = ''us'', QueueDepth = 1\<rparr>,
       \<lparr>NodeID = ''c'', Models = [''m''], VRAMFreeMB = 99, Region = ''eu'', QueueDepth = 1\<rparr>]) ''m''
     = Inr ''b''"
  by (subst RouteRequest_correct [THEN conjunct1])
     (auto simp: SetSource_def New_router_def best_node_first_least [symmetric])

text \<open>
  The models on offer are those of the connected nodes, each once.
\<close>

theorem AvailableModels_correct:
  "distinct (AvailableModels r) \<and>
   set (AvailableModels r) =
     (case source r of None \<Rightarrow> {} | Some nodes \<Rightarrow> (\<Union>n\<in>set nodes. set (Models n)))"
  using collect_models_correct [of "[]" "{}"] by (auto simp: AvailableModels_def split: option.split)

text \<open>
  What is offered can be served, and what can be served is offered.
\<close>

theorem AvailableModels_routable:
  "model \<in> set (AvailableModels r) \<longleftrightarrow> (\<exists>nodeID. RouteRequest r model = Inr nodeID)"
proof (cases "source r")
  case None
  then show ?thesis by (simp add: AvailableModels_def RouteRequest_def)
next
  case (Some nodes)
  have "model \<in> set (AvailableModels r) \<longleftrightarrow> (\<exists>n\<in>set nodes. serves model n)"
    using collect_models_correct [of "[]" "{}" nodes] Some by (simp add: AvailableModels_def)
  also have "\<dots> \<longleftrightarrow> best_node nodes model None \<noteq> None" by (auto simp: best_node_None)
  finally show ?thesis using Some by (auto simp: RouteRequest_def split: option.splits)
qed

section \<open>The interface to the gateway\<close>

text \<open>
  What the router relies on: \<open>LiveNodeInfos\<close> returns the snapshots of the connected nodes, in any order,
  each under its own id.
\<close>

locale node_source =
  fixes valid :: "'s \<Rightarrow> bool" and infos :: "'s \<Rightarrow> NodeInfo list" and lookup :: "'s \<Rightarrow> string \<rightharpoonup> NodeInfo"
  assumes infos_complete: "valid s \<Longrightarrow> set (infos s) = ran (lookup s)"
    and infos_keyed: "valid s \<Longrightarrow> lookup s n = Some i \<Longrightarrow> NodeID i = n"
begin

lemma routed:
  assumes "valid s" "RouteRequest (SetSource r (infos s)) model = Inr n"
  shows "\<exists>i. lookup s n = Some i \<and> serves model i \<and>
    (\<forall>n' i'. lookup s n' = Some i' \<and> serves model i' \<longrightarrow> QueueDepth i \<le> QueueDepth i')"
proof -
  obtain b where b: "best_node (infos s) model None = Some b" "n = NodeID b"
    using assms(2) by (auto simp: RouteRequest_def SetSource_def split: option.splits)
  then have f: "first_least model (infos s) b" by (simp add: best_node_first_least)
  then have "b \<in> set (infos s)" by (auto simp: first_least_def)
  then obtain n' where "lookup s n' = Some b" using infos_complete [OF assms(1)] by (auto simp: ran_def)
  moreover from this have "n' = n" using infos_keyed [OF assms(1)] b(2) by simp
  moreover have "serves model b" "\<forall>i\<in>set (infos s). serves model i \<longrightarrow> QueueDepth b \<le> QueueDepth i"
    using f unfolding first_least_def by (force dest: order.strict_implies_order)+
  ultimately show ?thesis using infos_complete [OF assms(1)] by (auto simp: ran_def)
qed

lemma not_routed:
  assumes "valid s" "RouteRequest (SetSource r (infos s)) model = Inl e" "lookup s n = Some i"
  shows "\<not> serves model i"
proof -
  have "best_node (infos s) model None = None"
    using assms(2) by (auto simp: RouteRequest_def SetSource_def split: option.splits)
  then show ?thesis using assms(3) infos_complete [OF assms(1)] by (auto simp: best_node_None ran_def)
qed

end

end
