(* ===== verification/Store.thy ===== *)
theory Store
  imports Prelude
begin

text \<open>
  \<open>internal/store/sqlite.go\<close>: the database. The tables of \<open>migrate\<close> are lists of rows in insertion
  (rowid) order, and each method is the effect of its SQL statements on them, with the PRIMARY KEY
  and UNIQUE constraints. One connection is open at a time, so the statements of a method, and a
  transaction, are not interleaved with others.

  The SQLite driver is a parameter, \<open>driver\<close>: which statement of a method fails, numbered from 0 in
  the order the method issues them, and how many rows of a query are delivered before the driver
  stops (the code does not look at \<open>rows.Err\<close>). A statement that fails has no effect, and a
  transaction that is not committed has none.

  Timestamps are whole seconds; the text form the code stores compares as the number does for the
  years 0 to 9999. SUM is a 64-bit sum that fails on overflow. Columns no query reads (\<open>nodes.created_at\<close>,
  \<open>api_keys.created_at\<close>) are left out.
\<close>

section \<open>Rows and tables\<close>

record Node =
  n_node_id :: string
  n_api_key :: string
  n_gpu :: string
  n_gpu_vendor :: string
  n_vram_total_mb :: int
  n_models :: string
  n_region :: string
  n_lightning_addr :: string
  n_redeem_threshold :: int
  n_free_tier_pct :: int
  n_version :: string
  n_last_seen :: time

record Key =
  k_key :: string
  k_user_id :: string
  k_name :: string
  k_quota_daily :: int
  k_balance_msats :: int

record Invoice =
  i_payment_hash :: string
  i_user_key :: string
  i_amount_msats :: int
  i_bolt11 :: string
  i_status :: string
  i_created_at :: int

record Job =
  j_job_id :: string
  j_node_id :: string
  j_user_key :: string
  j_model :: string
  j_tokens_in :: int
  j_tokens_out :: int
  j_earned_msats :: int
  j_fee_msats :: int
  j_free_tier :: bool
  j_status :: string
  j_started_at :: int
  j_completed_at :: "int option"

record Payout =
  p_id :: int
  p_node_id :: string
  p_amount_msats :: int
  p_payment_hash :: string
  p_status :: string
  p_created_at :: int
  p_confirmed_at :: time

record AuditJob =
  a_model :: string
  a_tokens_in :: int
  a_tokens_out :: int
  a_earned_msats :: int
  a_fee_msats :: int
  a_timestamp :: int

record DB =
  tbl_nodes :: "Node list"
  tbl_api_keys :: "Key list"
  tbl_invoices :: "Invoice list"
  tbl_jobs :: "Job list"
  tbl_payouts :: "Payout list"
  payout_seq :: int

text \<open>A new database, after \<open>migrate\<close>.\<close>

definition empty_db :: DB where
  "empty_db = \<lparr>tbl_nodes = [], tbl_api_keys = [], tbl_invoices = [], tbl_jobs = [],
     tbl_payouts = [], payout_seq = 0\<rparr>"

datatype db_error =
  ErrNoRows | ErrDriver | ErrConstraint | ErrOverflow | ErrInsufficient int int

record driver =
  fails :: "nat \<Rightarrow> bool"
  rows_read :: "nat option"

definition no_faults :: driver where
  "no_faults = \<lparr>fails = (\<lambda>_. False), rows_read = None\<rparr>"

definition deliver :: "driver \<Rightarrow> 'a list \<Rightarrow> 'a list" where
  "deliver d xs = (case rows_read d of None \<Rightarrow> xs | Some n \<Rightarrow> take n xs)"

section \<open>SQL arithmetic and time\<close>

definition secs :: "time \<Rightarrow> int" where
  "secs t = t div 1000000000"

text \<open>\<open>datetime('now', '-n seconds')\<close>, and the day of a timestamp.\<close>

definition ago :: "time \<Rightarrow> int \<Rightarrow> int" where
  "ago now n = secs now - n"

definition day :: "int \<Rightarrow> int" where
  "day s = s div 86400"

text \<open>\<open>COALESCE(SUM(c), 0)\<close>: the running sum must stay within 64 bits.\<close>

fun sql_sum_from :: "int \<Rightarrow> int list \<Rightarrow> int option" where
  "sql_sum_from acc [] = Some acc"
| "sql_sum_from acc (x # xs) = (if in_int64 (acc + x) then sql_sum_from (acc + x) xs else None)"

definition sql_sum :: "int list \<Rightarrow> db_error + int" where
  "sql_sum xs = (case sql_sum_from 0 xs of None \<Rightarrow> Inl ErrOverflow | Some s \<Rightarrow> Inr s)"

text \<open>
  Arithmetic on a column: SQLite leaves the integers for the reals on overflow, which no row in
  reach does; the model leaves the value open.
\<close>

definition sql_int :: "int \<Rightarrow> int" where
  "sql_int n = (if in_int64 n then n else undefined n)"

text \<open>A caller that drops the error reads the zero value.\<close>

definition or_zero :: "db_error + int \<Rightarrow> int" where
  "or_zero r = (case r of Inl _ \<Rightarrow> 0 | Inr v \<Rightarrow> v)"

section \<open>Nodes\<close>

text \<open>The zero \<open>time.Time\<close>.\<close>

definition zero_time :: time where
  "zero_time = - 62135596800000000000"

definition NodeByAPIKey :: "driver \<Rightarrow> DB \<Rightarrow> string \<Rightarrow> db_error + Node" where
  "NodeByAPIKey d db apiKey =
     (if fails d 0 then Inl ErrDriver
      else (case find (\<lambda>n. n_api_key n = apiKey) (tbl_nodes db) of
              None \<Rightarrow> Inl ErrNoRows
            | Some n \<Rightarrow> Inr (n\<lparr>n_last_seen := zero_time\<rparr>)))"

definition upsert_node :: "Node \<Rightarrow> Node \<Rightarrow> Node" where
  "upsert_node excluded r =
     excluded\<lparr>n_node_id := n_node_id r, n_api_key := n_api_key r\<rparr>"

definition RegisterNode :: "driver \<Rightarrow> DB \<Rightarrow> Node \<Rightarrow> time \<Rightarrow> DB \<times> db_error option" where
  "RegisterNode d db n now =
     (let n' = n\<lparr>n_last_seen := now\<rparr>
      in if fails d 0 then (db, Some ErrDriver)
         else if list_ex (\<lambda>r. n_node_id r = n_node_id n) (tbl_nodes db) then
           (db\<lparr>tbl_nodes := map (\<lambda>r. if n_node_id r = n_node_id n then upsert_node n' r else r)
              (tbl_nodes db)\<rparr>, None)
         else if list_ex (\<lambda>r. n_api_key r = n_api_key n) (tbl_nodes db) then (db, Some ErrConstraint)
         else (db\<lparr>tbl_nodes := tbl_nodes db @ [n']\<rparr>, None))"

section \<open>Jobs\<close>

definition completed_by :: "string \<Rightarrow> Job \<Rightarrow> bool" where
  "completed_by nodeID j \<longleftrightarrow> j_node_id j = nodeID \<and> j_status j = ''complete''"

definition NodeEarningsTotal :: "driver \<Rightarrow> DB \<Rightarrow> string \<Rightarrow> db_error + int" where
  "NodeEarningsTotal d db nodeID =
     (if fails d 0 then Inl ErrDriver
      else sql_sum (map j_earned_msats (filter (completed_by nodeID) (tbl_jobs db))))"

text \<open>\<open>RecordJob\<close> stores the times as text, to the second.\<close>

definition RecordJob ::
  "driver \<Rightarrow> DB \<Rightarrow> Job \<Rightarrow> time \<Rightarrow> time option \<Rightarrow> DB \<times> db_error option" where
  "RecordJob d db j startedAt completedAt =
     (if fails d 0 then (db, Some ErrDriver)
      else if list_ex (\<lambda>r. j_job_id r = j_job_id j) (tbl_jobs db) then (db, Some ErrConstraint)
      else (db\<lparr>tbl_jobs := tbl_jobs db @
              [j\<lparr>j_started_at := secs startedAt, j_completed_at := map_option secs completedAt\<rparr>]\<rparr>, None))"

definition paid_to :: "string \<Rightarrow> Payout \<Rightarrow> bool" where
  "paid_to nodeID p \<longleftrightarrow>
     p_node_id p = nodeID \<and> (p_status p = ''sent'' \<or> p_status p = ''confirmed'')"

definition NodeBalance :: "driver \<Rightarrow> DB \<Rightarrow> string \<Rightarrow> db_error + int" where
  "NodeBalance d db nodeID =
     (if fails d 0 then Inl ErrDriver
      else (case sql_sum (map j_earned_msats (filter (completed_by nodeID) (tbl_jobs db))) of
              Inl e \<Rightarrow> Inl e
            | Inr earned \<Rightarrow>
                if fails d 1 then Inl ErrDriver
                else (case sql_sum (map p_amount_msats (filter (paid_to nodeID) (tbl_payouts db))) of
                        Inl e \<Rightarrow> Inl e
                      | Inr paid \<Rightarrow> Inr (wrap64 (earned - paid)))))"

definition NodeEarningsToday :: "driver \<Rightarrow> DB \<Rightarrow> string \<Rightarrow> time \<Rightarrow> db_error + int" where
  "NodeEarningsToday d db nodeID now =
     (if fails d 0 then Inl ErrDriver
      else sql_sum (map j_earned_msats
        (filter (\<lambda>j. completed_by nodeID j \<and> ago now 86400 \<le> j_started_at j) (tbl_jobs db))))"

definition job_tokens :: "Job \<Rightarrow> int" where
  "job_tokens j = sql_int (j_tokens_in j + j_tokens_out j)"

definition count_and_tokens :: "driver \<Rightarrow> Job list \<Rightarrow> db_error + int \<times> int" where
  "count_and_tokens d js =
     (if fails d 0 then Inl ErrDriver
      else (case sql_sum (map job_tokens js) of
              Inl e \<Rightarrow> Inl e
            | Inr s \<Rightarrow> Inr (int (length js), s)))"

definition NodeJobsToday :: "driver \<Rightarrow> DB \<Rightarrow> string \<Rightarrow> time \<Rightarrow> db_error + int \<times> int" where
  "NodeJobsToday d db nodeID now =
     count_and_tokens d
       (filter (\<lambda>j. completed_by nodeID j \<and> ago now 86400 \<le> j_started_at j) (tbl_jobs db))"

definition GlobalStats24h :: "driver \<Rightarrow> DB \<Rightarrow> time \<Rightarrow> db_error + int \<times> int" where
  "GlobalStats24h d db now =
     count_and_tokens d
       (filter (\<lambda>j. j_status j = ''complete'' \<and> ago now 86400 \<le> j_started_at j) (tbl_jobs db))"

text \<open>ORDER BY leaves the order of equal timestamps open; the model keeps the insertion order.\<close>

definition audit_row :: "Job \<Rightarrow> AuditJob" where
  "audit_row j = \<lparr>a_model = j_model j, a_tokens_in = j_tokens_in j, a_tokens_out = j_tokens_out j,
     a_earned_msats = j_earned_msats j, a_fee_msats = j_fee_msats j, a_timestamp = j_started_at j\<rparr>"

definition RecentJobs :: "driver \<Rightarrow> DB \<Rightarrow> nat \<Rightarrow> db_error + AuditJob list" where
  "RecentJobs d db n =
     (if fails d 0 then Inl ErrDriver
      else Inr (deliver d (map audit_row
        (take n (sort_key (\<lambda>j. - j_started_at j)
          (filter (\<lambda>j. j_status j = ''complete'') (tbl_jobs db)))))))"

definition NodeKarma :: "driver \<Rightarrow> DB \<Rightarrow> string \<Rightarrow> time \<Rightarrow> db_error + int \<times> int" where
  "NodeKarma d db nodeID now =
     (if fails d 0 then Inl ErrDriver
      else (let js = filter (completed_by nodeID) (tbl_jobs db);
                freeTierJobs = int (length (filter j_free_tier js));
                totalJobs30d = (if fails d 1 then 0
                  else int (length (filter (\<lambda>j. ago now (30 * 86400) \<le> j_started_at j) js)))
            in Inr (freeTierJobs, wrap64 (freeTierJobs * 10 + totalJobs30d))))"

section \<open>Users\<close>

definition ValidateUserKey :: "driver \<Rightarrow> DB \<Rightarrow> string \<Rightarrow> time \<Rightarrow> db_error + string \<times> int" where
  "ValidateUserKey d db key now =
     (if fails d 0 then Inl ErrDriver
      else (case find (\<lambda>k. k_key k = key) (tbl_api_keys db) of
              None \<Rightarrow> Inl ErrNoRows
            | Some k \<Rightarrow>
                (let usedToday = (if fails d 1 then 0
                       else int (length (filter
                         (\<lambda>j. j_user_key j = key \<and> day (j_started_at j) = day (secs now)) (tbl_jobs db))))
                 in Inr (k_user_id k, wrap64 (k_quota_daily k - usedToday)))))"

definition CreateUserKey ::
  "driver \<Rightarrow> DB \<Rightarrow> string \<Rightarrow> string \<Rightarrow> string \<Rightarrow> int \<Rightarrow> DB \<times> db_error option" where
  "CreateUserKey d db key userID name quotaDaily =
     (if fails d 0 then (db, Some ErrDriver)
      else if list_ex (\<lambda>k. k_key k = key) (tbl_api_keys db) then (db, Some ErrConstraint)
      else (db\<lparr>tbl_api_keys := tbl_api_keys db @
              [\<lparr>k_key = key, k_user_id = userID, k_name = name, k_quota_daily = quotaDaily,
                k_balance_msats = 0\<rparr>]\<rparr>, None))"

definition UserBalance :: "driver \<Rightarrow> DB \<Rightarrow> string \<Rightarrow> db_error + int" where
  "UserBalance d db key =
     (if fails d 0 then Inl ErrDriver
      else (case find (\<lambda>k. k_key k = key) (tbl_api_keys db) of
              None \<Rightarrow> Inl ErrNoRows
            | Some k \<Rightarrow> Inr (k_balance_msats k)))"

text \<open>\<open>UPDATE api_keys SET balance_msats = balance_msats + ? WHERE key = ?\<close>.\<close>

definition add_balance :: "DB \<Rightarrow> string \<Rightarrow> int \<Rightarrow> DB" where
  "add_balance db key amount =
     db\<lparr>tbl_api_keys := map (\<lambda>k. if k_key k = key
        then k\<lparr>k_balance_msats := sql_int (k_balance_msats k + amount)\<rparr> else k) (tbl_api_keys db)\<rparr>"

definition DeductBalance :: "driver \<Rightarrow> DB \<Rightarrow> string \<Rightarrow> int \<Rightarrow> DB \<times> db_error option" where
  "DeductBalance d db key amountMsats =
     (if fails d 0 \<or> fails d 1 then (db, Some ErrDriver)
      else (case find (\<lambda>k. k_key k = key) (tbl_api_keys db) of
              None \<Rightarrow> (db, Some ErrNoRows)
            | Some k \<Rightarrow>
                if k_balance_msats k < amountMsats then
                  (db, Some (ErrInsufficient (k_balance_msats k) amountMsats))
                else if fails d 2 \<or> fails d 3 then (db, Some ErrDriver)
                else (add_balance db key (- amountMsats), None)))"

section \<open>Invoices\<close>

definition CreateInvoice ::
  "driver \<Rightarrow> DB \<Rightarrow> string \<Rightarrow> string \<Rightarrow> int \<Rightarrow> string \<Rightarrow> time \<Rightarrow> DB \<times> db_error option" where
  "CreateInvoice d db paymentHash userKey amountMsats bolt11 now =
     (if fails d 0 then (db, Some ErrDriver)
      else if list_ex (\<lambda>i. i_payment_hash i = paymentHash) (tbl_invoices db) then (db, Some ErrConstraint)
      else (db\<lparr>tbl_invoices := tbl_invoices db @
              [\<lparr>i_payment_hash = paymentHash, i_user_key = userKey, i_amount_msats = amountMsats,
                i_bolt11 = bolt11, i_status = ''pending'', i_created_at = secs now\<rparr>]\<rparr>, None))"

definition set_credited :: "DB \<Rightarrow> string \<Rightarrow> DB" where
  "set_credited db paymentHash =
     db\<lparr>tbl_invoices := map (\<lambda>i. if i_payment_hash i = paymentHash
        then i\<lparr>i_status := ''credited''\<rparr> else i) (tbl_invoices db)\<rparr>"

text \<open>The result is \<open>(credited, err)\<close>; when the commit fails \<open>credited\<close> is true and \<open>err\<close> is set.\<close>

definition CreditInvoice :: "driver \<Rightarrow> DB \<Rightarrow> string \<Rightarrow> DB \<times> bool \<times> db_error option" where
  "CreditInvoice d db paymentHash =
     (if fails d 0 \<or> fails d 1 then (db, False, Some ErrDriver)
      else (case find (\<lambda>i. i_payment_hash i = paymentHash) (tbl_invoices db) of
              None \<Rightarrow> (db, False, Some ErrNoRows)
            | Some i \<Rightarrow>
                if i_status i \<noteq> ''pending'' then (db, False, None)
                else if fails d 2 \<or> fails d 3 then (db, False, Some ErrDriver)
                else if fails d 4 then (db, True, Some ErrDriver)
                else (add_balance (set_credited db paymentHash) (i_user_key i) (i_amount_msats i),
                      True, None)))"

definition PendingInvoices :: "driver \<Rightarrow> DB \<Rightarrow> db_error + Invoice list" where
  "PendingInvoices d db =
     (if fails d 0 then Inl ErrDriver
      else Inr (deliver d (filter (\<lambda>i. i_status i = ''pending'') (tbl_invoices db))))"

definition overdue :: "time \<Rightarrow> Invoice \<Rightarrow> bool" where
  "overdue now i \<longleftrightarrow> i_status i = ''pending'' \<and> i_created_at i < ago now 600"

definition ExpireOldInvoices :: "driver \<Rightarrow> DB \<Rightarrow> time \<Rightarrow> DB \<times> (db_error + int)" where
  "ExpireOldInvoices d db now =
     (if fails d 0 then (db, Inl ErrDriver)
      else (db\<lparr>tbl_invoices := map (\<lambda>i. if overdue now i then i\<lparr>i_status := ''expired''\<rparr> else i)
              (tbl_invoices db)\<rparr>,
            Inr (int (length (filter (overdue now) (tbl_invoices db))))))"

section \<open>Payouts\<close>

definition RecordPayout ::
  "driver \<Rightarrow> DB \<Rightarrow> string \<Rightarrow> int \<Rightarrow> string \<Rightarrow> string \<Rightarrow> time \<Rightarrow> DB \<times> db_error option" where
  "RecordPayout d db nodeID amountMsats paymentHash status now =
     (if fails d 0 then (db, Some ErrDriver)
      else (db\<lparr>payout_seq := payout_seq db + 1,
               tbl_payouts := tbl_payouts db @
                 [\<lparr>p_id = payout_seq db + 1, p_node_id = nodeID, p_amount_msats = amountMsats,
                   p_payment_hash = paymentHash, p_status = status, p_created_at = secs now,
                   p_confirmed_at = now\<rparr>]\<rparr>, None))"

definition NodeWithdrawHistory :: "driver \<Rightarrow> DB \<Rightarrow> string \<Rightarrow> nat \<Rightarrow> db_error + Payout list" where
  "NodeWithdrawHistory d db nodeID n =
     (if fails d 0 then Inl ErrDriver
      else Inr (deliver d (take n (sort_key (\<lambda>p. - p_created_at p)
        (filter (\<lambda>p. p_node_id p = nodeID \<and> p_status p = ''confirmed'') (tbl_payouts db))))))"

text \<open>
  The correlated sums of \<open>PendingPayouts\<close>, and its rows: the three columns scanned, the rest of the
  struct zero. A row whose sum overflows ends the query, with an error when it is the first one.
\<close>

definition unpaid :: "DB \<Rightarrow> string \<Rightarrow> int option" where
  "unpaid db nodeID =
     (case sql_sum (map j_earned_msats (filter (completed_by nodeID) (tbl_jobs db))) of
        Inl e \<Rightarrow> None
      | Inr earned \<Rightarrow>
          (case sql_sum (map p_amount_msats (filter (paid_to nodeID) (tbl_payouts db))) of
             Inl e \<Rightarrow> None
           | Inr paid \<Rightarrow> Some (earned - paid)))"

definition payout_row :: "Node \<Rightarrow> Node" where
  "payout_row n = \<lparr>n_node_id = n_node_id n, n_api_key = '''', n_gpu = '''', n_gpu_vendor = '''',
     n_vram_total_mb = 0, n_models = '''', n_region = '''', n_lightning_addr = n_lightning_addr n,
     n_redeem_threshold = n_redeem_threshold n, n_free_tier_pct = 0, n_version = '''',
     n_last_seen = zero_time\<rparr>"

definition due :: "DB \<Rightarrow> Node \<Rightarrow> bool" where
  "due db n \<longleftrightarrow> (case unpaid db (n_node_id n) of None \<Rightarrow> False | Some b \<Rightarrow> n_redeem_threshold n * 1000 \<le> b)"

definition PendingPayouts :: "driver \<Rightarrow> DB \<Rightarrow> db_error + Node list" where
  "PendingPayouts d db =
     (let candidates = filter (\<lambda>n. n_lightning_addr n \<noteq> '''') (tbl_nodes db);
          summed = takeWhile (\<lambda>n. unpaid db (n_node_id n) \<noteq> None) candidates;
          out = filter (due db) summed
      in if fails d 0 \<or> (out = [] \<and> summed \<noteq> candidates) then Inl ErrDriver
         else Inr (deliver d (map payout_row out)))"


section \<open>Tables with a key\<close>

lemma list_ex_find: "list_ex P xs \<longleftrightarrow> find P xs \<noteq> None"
  by (simp add: list_ex_iff find_None_iff_set)

lemma find_map_upd:
  "(\<And>x. f (g x) = f x) \<Longrightarrow>
   find (\<lambda>x. f x = key') (map (\<lambda>x. if f x = key then g x else x) xs) =
     (if key' = key then map_option g (find (\<lambda>x. f x = key) xs) else find (\<lambda>x. f x = key') xs)"
  by (induction xs) auto

lemma find_append: "find P (xs @ ys) = (case find P xs of None \<Rightarrow> find P ys | Some x \<Rightarrow> Some x)"
  by (induction xs) auto

lemma sql_int_id [simp]: "in_int64 n \<Longrightarrow> sql_int n = n"
  by (simp add: sql_int_def)

lemma sql_sum_from_nonneg:
  "\<forall>x\<in>set xs. 0 \<le> x \<Longrightarrow> 0 \<le> acc \<Longrightarrow> acc \<le> max_int64 \<Longrightarrow>
   sql_sum_from acc xs = (if acc + sum_list xs \<le> max_int64 then Some (acc + sum_list xs) else None)"
proof (induction xs arbitrary: acc)
  case (Cons x xs)
  have "0 \<le> sum_list xs" using Cons.prems by (intro sum_list_nonneg) auto
  then show ?case
    using Cons.IH [of "acc + x"] Cons.prems by (auto simp: in_int64_def algebra_simps)
qed simp

lemma sql_sum_nonneg:
  "\<forall>x\<in>set xs. 0 \<le> x \<Longrightarrow> sql_sum xs = (if sum_list xs \<le> max_int64 then Inr (sum_list xs) else Inl ErrOverflow)"
  by (simp add: sql_sum_def sql_sum_from_nonneg)

lemma sql_sum_from_Some: "sql_sum_from acc xs = Some s \<Longrightarrow> s = acc + sum_list xs"
  by (induction xs arbitrary: acc) (fastforce split: if_splits)+

lemma sql_sum_Inr: "sql_sum xs = Inr s \<Longrightarrow> s = sum_list xs"
  by (auto simp: sql_sum_def dest: sql_sum_from_Some split: option.splits)

section \<open>Accounts\<close>

text \<open>What the users hold, the abstract view of \<open>api_keys\<close>.\<close>

definition accounts :: "DB \<Rightarrow> string \<rightharpoonup> int" where
  "accounts db key = map_option k_balance_msats (find (\<lambda>k. k_key k = key) (tbl_api_keys db))"

definition funded :: "DB \<Rightarrow> bool" where
  "funded db \<longleftrightarrow> (\<forall>key b. accounts db key = Some b \<longrightarrow> 0 \<le> b \<and> b \<le> max_int64)"

lemma UserBalance_accounts:
  "UserBalance d db key =
     (if fails d 0 then Inl ErrDriver else case accounts db key of None \<Rightarrow> Inl ErrNoRows | Some b \<Rightarrow> Inr b)"
  by (simp add: UserBalance_def accounts_def split: option.split)

lemma accounts_add_balance:
  "accounts (add_balance db key a) =
     (accounts db)(key := map_option (\<lambda>b. sql_int (b + a)) (accounts db key))"
proof
  show "accounts (add_balance db key a) key' =
     ((accounts db)(key := map_option (\<lambda>b. sql_int (b + a)) (accounts db key))) key'" for key'
    unfolding accounts_def add_balance_def
    by (cases "find (\<lambda>k. k_key k = key) (tbl_api_keys db)")
       (simp_all add: find_map_upd [of k_key "\<lambda>k. k\<lparr>k_balance_msats := sql_int (k_balance_msats k + a)\<rparr>"])
qed

lemma add_balance_frame [db_frame, simp]:
  "tbl_nodes (add_balance db key a) = tbl_nodes db"
  "tbl_invoices (add_balance db key a) = tbl_invoices db"
  "tbl_jobs (add_balance db key a) = tbl_jobs db"
  "tbl_payouts (add_balance db key a) = tbl_payouts db"
  "payout_seq (add_balance db key a) = payout_seq db"
  by (simp_all add: add_balance_def)

lemma keys_add_balance [simp]: "map k_key (tbl_api_keys (add_balance db key a)) = map k_key (tbl_api_keys db)"
  by (simp add: add_balance_def o_def if_distrib cong: if_cong)

lemma DeductBalance_accounts:
  "DeductBalance d db key a =
     (if fails d 0 \<or> fails d 1 then (db, Some ErrDriver)
      else (case accounts db key of
              None \<Rightarrow> (db, Some ErrNoRows)
            | Some b \<Rightarrow>
                if b < a then (db, Some (ErrInsufficient b a))
                else if fails d 2 \<or> fails d 3 then (db, Some ErrDriver)
                else (add_balance db key (- a), None)))"
  by (simp add: DeductBalance_def accounts_def split: option.split)

lemma DeductBalance_cases:
  obtains (failed) e where "DeductBalance d db key a = (db, Some e)"
    | (drawn) b where "DeductBalance d db key a = (add_balance db key (- a), None)"
        "accounts db key = Some b" "a \<le> b"
proof (cases "accounts db key")
  case (Some b)
  then have "(\<exists>e. DeductBalance d db key a = (db, Some e)) \<or>
      (DeductBalance d db key a = (add_balance db key (- a), None) \<and> a \<le> b)"
    by (auto simp: DeductBalance_accounts)
  then show ?thesis using failed drawn Some by blast
next
  case None
  then show ?thesis
    using failed [of "if fails d 0 \<or> fails d 1 then ErrDriver else ErrNoRows"]
    by (simp add: DeductBalance_accounts)
qed

lemma funded_withdraw:
  assumes "funded db" "accounts db key = Some b" "0 \<le> a" "a \<le> b"
  shows "accounts (add_balance db key (- a)) = (accounts db)(key \<mapsto> b - a)" (is ?acc)
    and "funded (add_balance db key (- a))"
proof -
  have b: "0 \<le> b" "b \<le> max_int64" using assms(1,2) by (auto simp: funded_def)
  then show acc: ?acc using assms by (simp add: accounts_add_balance in_int64_def)
  show "funded (add_balance db key (- a))"
    using assms b unfolding funded_def acc by (auto simp: fun_upd_def intro: order_trans [of "b - a" b])
qed

text \<open>
  The interface the gateway relies on: accounts that can be drawn on, one withdrawal at a time.
\<close>

locale account_book =
  fixes valid :: "'s \<Rightarrow> bool" and balance :: "'s \<Rightarrow> string \<rightharpoonup> int"
    and withdraw :: "'f \<Rightarrow> 's \<Rightarrow> string \<Rightarrow> int \<Rightarrow> 's \<times> bool"
  assumes refused: "\<not> snd (withdraw f s key a) \<Longrightarrow> fst (withdraw f s key a) = s"
    and drawn: "valid s \<Longrightarrow> 0 \<le> a \<Longrightarrow> snd (withdraw f s key a) \<Longrightarrow>
      \<exists>b. balance s key = Some b \<and> a \<le> b \<and>
        balance (fst (withdraw f s key a)) = (balance s)(key \<mapsto> b - a) \<and> valid (fst (withdraw f s key a))"
begin

text \<open>Requests, each with its driver, in order; the result holds the total drawn by \<open>key\<close>.\<close>

primrec draw_all :: "'s \<Rightarrow> string \<Rightarrow> ('f \<times> string \<times> int) list \<Rightarrow> 's \<times> int" where
  "draw_all s key [] = (s, 0)"
| "draw_all s key (r # rs) =
     (let (f, k, a) = r; (s1, ok) = withdraw f s k a; (s2, t) = draw_all s1 key rs
      in (s2, (if ok \<and> k = key then a else 0) + t))"

lemma draw_step:
  assumes "valid s" "0 \<le> a" "balance s key = Some b"
  shows "valid (fst (withdraw f s k a))"
    and "balance (fst (withdraw f s k a)) key =
      Some (b - (if snd (withdraw f s k a) \<and> k = key then a else 0))"
proof -
  show "valid (fst (withdraw f s k a))"
    using assms refused [of f s k a] drawn [of s a f k] by (cases "snd (withdraw f s k a)") auto
  show "balance (fst (withdraw f s k a)) key =
      Some (b - (if snd (withdraw f s k a) \<and> k = key then a else 0))"
  proof (cases "snd (withdraw f s k a)")
    case True
    then obtain c where "balance s k = Some c" "balance (fst (withdraw f s k a)) = (balance s)(k \<mapsto> c - a)"
      using drawn [OF assms(1,2)] by blast
    then show ?thesis using assms(3) True by auto
  qed (use assms(3) refused [of f s k a] in simp)
qed

lemma draw_all_total:
  "valid s \<Longrightarrow> \<forall>(f, k, a)\<in>set rs. 0 \<le> a \<Longrightarrow> balance s key = Some b \<Longrightarrow>
   valid (fst (draw_all s key rs)) \<and> balance (fst (draw_all s key rs)) key = Some (b - snd (draw_all s key rs))"
proof (induction rs arbitrary: s b)
  case (Cons r rs)
  obtain f k a where r: "r = (f, k, a)" by (cases r)
  then have a: "0 \<le> a" using Cons.prems(2) by simp
  show ?case
    using Cons.IH [OF draw_step(1) [OF Cons.prems(1) a Cons.prems(3)] _
        draw_step(2) [OF Cons.prems(1) a Cons.prems(3)]] Cons.prems(2)
    by (simp add: r split_beta algebra_simps)
qed simp

end

definition draw :: "driver \<Rightarrow> DB \<Rightarrow> string \<Rightarrow> int \<Rightarrow> DB \<times> bool" where
  "draw d db key a = (let (db', err) = DeductBalance d db key a in (db', err = None))"

interpretation book: account_book funded accounts draw
proof unfold_locales
  fix d db key and a :: int
  show "fst (draw d db key a) = db" if "\<not> snd (draw d db key a)"
    using that by (cases rule: DeductBalance_cases [of d db key a]) (auto simp: draw_def)
  show "\<exists>b. accounts db key = Some b \<and> a \<le> b \<and>
      accounts (fst (draw d db key a)) = (accounts db)(key \<mapsto> b - a) \<and> funded (fst (draw d db key a))"
    if "funded db" "0 \<le> a" "snd (draw d db key a)"
    using that funded_withdraw [OF that(1) _ that(2)]
    by (cases rule: DeductBalance_cases [of d db key a]) (auto simp: draw_def)
qed


section \<open>Every way the database changes\<close>

datatype db_op =
  OpRegisterNode driver Node time
| OpRecordJob driver Job time "time option"
| OpCreateUserKey driver string string string int
| OpDeductBalance driver string int
| OpCreateInvoice driver string string int string time
| OpCreditInvoice driver string
| OpExpireOldInvoices driver time
| OpRecordPayout driver string int string string time

fun db_step :: "DB \<Rightarrow> db_op \<Rightarrow> DB" where
  "db_step db (OpRegisterNode d n now) = fst (RegisterNode d db n now)"
| "db_step db (OpRecordJob d j t t') = fst (RecordJob d db j t t')"
| "db_step db (OpCreateUserKey d k u nm q) = fst (CreateUserKey d db k u nm q)"
| "db_step db (OpDeductBalance d k a) = fst (DeductBalance d db k a)"
| "db_step db (OpCreateInvoice d h k a b now) = fst (CreateInvoice d db h k a b now)"
| "db_step db (OpCreditInvoice d h) = fst (CreditInvoice d db h)"
| "db_step db (OpExpireOldInvoices d now) = fst (ExpireOldInvoices d db now)"
| "db_step db (OpRecordPayout d n a h st now) = fst (RecordPayout d db n a h st now)"

definition db_run :: "DB \<Rightarrow> db_op list \<Rightarrow> DB" where
  "db_run db ops = foldl db_step db ops"

lemma db_run_simps [simp]:
  "db_run db [] = db"
  "db_run db (ops @ [op]) = db_step (db_run db ops) op"
  by (simp_all add: db_run_def)

text \<open>The constraints of the schema.\<close>

definition wf_db :: "DB \<Rightarrow> bool" where
  "wf_db db \<longleftrightarrow>
     distinct (map n_node_id (tbl_nodes db)) \<and> distinct (map n_api_key (tbl_nodes db)) \<and>
     distinct (map k_key (tbl_api_keys db)) \<and> distinct (map i_payment_hash (tbl_invoices db)) \<and>
     distinct (map j_job_id (tbl_jobs db)) \<and> distinct (map p_id (tbl_payouts db)) \<and>
     (\<forall>p\<in>set (tbl_payouts db). p_id p \<le> payout_seq db) \<and>
     (\<forall>i\<in>set (tbl_invoices db). i_status i \<in> {''pending'', ''credited'', ''expired''})"

lemma map_map_upd:
  "(\<And>x. f (g x) = f x) \<Longrightarrow> map f (map (\<lambda>x. if P x then g x else x) xs) = map f xs"
  by (induction xs) auto

lemma not_list_ex_key: "\<not> list_ex (\<lambda>r. f r = k) xs \<longleftrightarrow> k \<notin> f ` set xs"
  by (auto simp: list_ex_iff)

lemma map_upd_node:
  "map n_node_id (map (\<lambda>r. if n_node_id r = nid then upsert_node m r else r) rs) = map n_node_id rs"
  "map n_api_key (map (\<lambda>r. if n_node_id r = nid then upsert_node m r else r) rs) = map n_api_key rs"
  by (simp_all add: upsert_node_def)

lemma RegisterNode_wf: "wf_db db \<Longrightarrow> wf_db (fst (RegisterNode d db n now))"
  unfolding RegisterNode_def Let_def
  by (auto simp: wf_db_def map_upd_node not_list_ex_key simp del: map_map simp flip: list_ex_iff)

lemma CreditInvoice_cases:
  obtains (same) credited err where "CreditInvoice d db h = (db, credited, err)" "\<not> (credited \<and> err = None)"
    | (credit) i where "CreditInvoice d db h =
          (add_balance (set_credited db h) (i_user_key i) (i_amount_msats i), True, None)"
        "find (\<lambda>i. i_payment_hash i = h) (tbl_invoices db) = Some i" "i_status i = ''pending''"
proof (cases "find (\<lambda>i. i_payment_hash i = h) (tbl_invoices db)")
  case (Some i)
  then have "(\<exists>c e. CreditInvoice d db h = (db, c, e) \<and> \<not> (c \<and> e = None)) \<or>
     (CreditInvoice d db h = (add_balance (set_credited db h) (i_user_key i) (i_amount_msats i), True, None)
        \<and> i_status i = ''pending'')"
    by (auto simp: CreditInvoice_def)
  then show ?thesis using same credit Some by blast
next
  case None
  then show ?thesis
    using same [of False "Some (if fails d 0 \<or> fails d 1 then ErrDriver else ErrNoRows)"]
    by (simp add: CreditInvoice_def)
qed

lemma invoices_set_credited [simp]:
  "map i_payment_hash (tbl_invoices (set_credited db h)) = map i_payment_hash (tbl_invoices db)"
  by (simp add: set_credited_def)

lemma set_credited_frame [db_frame, simp]:
  "tbl_nodes (set_credited db h) = tbl_nodes db"
  "tbl_api_keys (set_credited db h) = tbl_api_keys db"
  "tbl_jobs (set_credited db h) = tbl_jobs db"
  "tbl_payouts (set_credited db h) = tbl_payouts db"
  "payout_seq (set_credited db h) = payout_seq db"
  by (simp_all add: set_credited_def)

lemma wf_add_balance: "wf_db db \<Longrightarrow> wf_db (add_balance db k a)"
  unfolding wf_db_def by simp

lemma wf_set_credited: "wf_db db \<Longrightarrow> wf_db (set_credited db h)"
  unfolding wf_db_def set_credited_def by (auto simp: o_def if_distrib cong: if_cong)

lemma wf_db_run: "wf_db (db_run empty_db ops)"
proof (induction ops rule: rev_induct)
  case Nil
  then show ?case by (simp add: wf_db_def empty_db_def)
next
  case (snoc op ops)
  let ?db = "db_run empty_db ops"
  have "wf_db (db_step ?db op)"
  proof (cases op)
    case (OpRegisterNode d n now)
    then show ?thesis using snoc by (simp add: RegisterNode_wf)
  next
    case (OpDeductBalance d k a)
    then show ?thesis
      using snoc by (cases rule: DeductBalance_cases [of d ?db k a]) (auto intro: wf_add_balance)
  next
    case (OpCreditInvoice d h)
    then show ?thesis
      using snoc by (cases rule: CreditInvoice_cases [of d ?db h]) (auto intro: wf_add_balance wf_set_credited)
  next
    case (OpExpireOldInvoices d now)
    then show ?thesis
      using snoc by (auto simp: wf_db_def ExpireOldInvoices_def o_def if_distrib cong: if_cong)
  next
    case (OpRecordPayout d n a h st now)
    then show ?thesis using snoc by (auto simp: wf_db_def RecordPayout_def)
  qed (use snoc in \<open>auto simp: wf_db_def RecordJob_def CreateUserKey_def
      CreateInvoice_def list_ex_iff\<close>)
  then show ?case by simp
qed

end
