(* ===== verification/Ledger.thy ===== *)
theory Ledger
  imports Store
begin

text \<open>
  What the database promises, over runs of its operations: user balances are what was credited less
  what was drawn, an invoice is credited once, a node is owed what it earned less what it was paid,
  and the payout query finds the nodes that are owed enough.
\<close>

section \<open>The ledger of user balances\<close>

definition credited_in :: "string \<Rightarrow> Invoice list \<Rightarrow> int" where
  "credited_in key is =
     sum_list (map i_amount_msats (filter (\<lambda>i. i_user_key i = key \<and> i_status i = ''credited'') is))"

definition credited_to :: "DB \<Rightarrow> string \<Rightarrow> int" where
  "credited_to db key = credited_in key (tbl_invoices db)"

text \<open>
  What the callers see to: nothing negative is drawn, an invoice is for a known user and not
  negative, and all invoices together stay within 64 bits (2^63 msats are four times all bitcoins).
\<close>

definition invoiced :: "DB \<Rightarrow> int" where
  "invoiced db = sum_list (map i_amount_msats (tbl_invoices db))"

fun op_ok :: "DB \<Rightarrow> db_op \<Rightarrow> bool" where
  "op_ok db (OpDeductBalance d k a) = (0 \<le> a)"
| "op_ok db (OpCreateInvoice d h k a b now) =
     (0 \<le> a \<and> accounts db k \<noteq> None \<and> invoiced db + a \<le> max_int64)"
| "op_ok db _ = True"

text \<open>A run, with the sum drawn so far from each user.\<close>

fun spend :: "(string \<Rightarrow> int) \<Rightarrow> DB \<Rightarrow> db_op \<Rightarrow> string \<Rightarrow> int" where
  "spend sp db (OpDeductBalance d k a) =
     (if snd (DeductBalance d db k a) = None then sp(k := sp k + a) else sp)"
| "spend sp db _ = sp"

inductive ledger_run :: "(string \<Rightarrow> int) \<Rightarrow> DB \<Rightarrow> bool" where
  init: "ledger_run (\<lambda>_. 0) empty_db"
| step: "ledger_run sp db \<Longrightarrow> op_ok db op \<Longrightarrow> ledger_run (spend sp db op) (db_step db op)"

definition books_balance :: "(string \<Rightarrow> int) \<Rightarrow> DB \<Rightarrow> bool" where
  "books_balance sp db \<longleftrightarrow>
     (\<forall>k b. accounts db k = Some b \<longrightarrow> b = credited_to db k - sp k \<and> 0 \<le> b) \<and>
     (\<forall>k. 0 \<le> sp k \<and> (accounts db k = None \<longrightarrow> sp k = 0)) \<and>
     (\<forall>i\<in>set (tbl_invoices db). 0 \<le> i_amount_msats i \<and> accounts db (i_user_key i) \<noteq> None) \<and>
     invoiced db \<le> max_int64"

lemma ledger_run_wf: "ledger_run sp db \<Longrightarrow> \<exists>ops. db = db_run empty_db ops"
proof (induction rule: ledger_run.induct)
  case init
  show ?case by (rule exI [of _ "[]"]) simp
next
  case (step sp db op)
  then show ?case by (metis db_run_simps(2))
qed

lemma credited_in_simps [simp]:
  "credited_in k [] = 0"
  "credited_in k (i # is) =
     (if i_user_key i = k \<and> i_status i = ''credited'' then i_amount_msats i else 0) + credited_in k is"
  "credited_in k (is @ js) = credited_in k is + credited_in k js"
  by (simp_all add: credited_in_def)

lemma credited_in_bounds:
  "\<forall>i\<in>set is. 0 \<le> i_amount_msats i \<Longrightarrow>
    0 \<le> credited_in k is \<and> credited_in k is \<le> sum_list (map i_amount_msats is)"
  by (induction "is") auto

lemma credited_in_unhit:
  "h \<notin> i_payment_hash ` set is \<Longrightarrow>
   map (\<lambda>i. if i_payment_hash i = h then i\<lparr>i_status := s\<rparr> else i) is = is"
  by (induction "is") auto

lemma credited_in_set:
  assumes "distinct (map i_payment_hash is)"
    and "find (\<lambda>i. i_payment_hash i = h) is = Some i" "i_status i = ''pending''"
  shows "credited_in k (map (\<lambda>i. if i_payment_hash i = h then i\<lparr>i_status := ''credited''\<rparr> else i) is) =
     credited_in k is + (if k = i_user_key i then i_amount_msats i else 0)"
  using assms by (induction "is") (auto simp: credited_in_unhit split: if_splits)

lemma credited_in_le_total:
  assumes "\<forall>i\<in>set is. 0 \<le> i_amount_msats i" "i \<in> set is" "i_status i = ''pending''"
  shows "credited_in k is + i_amount_msats i \<le> sum_list (map i_amount_msats is)"
  using assms
proof (induction "is")
  case (Cons j js)
  then show ?case using credited_in_bounds [of js k] by (cases "i = j") auto
qed simp

lemma credited_to_frame [db_frame]:
  "tbl_invoices db' = tbl_invoices db \<Longrightarrow> credited_to db' k = credited_to db k"
  "tbl_invoices db' = tbl_invoices db \<Longrightarrow> invoiced db' = invoiced db"
  by (simp_all add: credited_to_def invoiced_def)

lemma books_funded: "books_balance sp db \<Longrightarrow> funded db"
  unfolding funded_def
proof (intro allI impI)
  fix k b assume inv: "books_balance sp db" and b: "accounts db k = Some b"
  have "credited_to db k \<le> invoiced db" "0 \<le> sp k"
    using inv credited_in_bounds [of "tbl_invoices db" k]
    by (auto simp: books_balance_def credited_to_def invoiced_def)
  moreover have "b = credited_to db k - sp k" "0 \<le> b" "invoiced db \<le> max_int64"
    using inv b by (auto simp: books_balance_def)
  ultimately show "0 \<le> b \<and> b \<le> max_int64" by linarith
qed

lemma books_same:
  assumes "books_balance sp db" "accounts db' = accounts db" "tbl_invoices db' = tbl_invoices db"
  shows "books_balance sp db'"
  using assms by (simp add: books_balance_def credited_to_def invoiced_def)

lemma books_deduct:
  assumes "books_balance sp db" "0 \<le> a"
  shows "books_balance (spend sp db (OpDeductBalance d k a)) (fst (DeductBalance d db k a))"
proof (cases rule: DeductBalance_cases [of d db k a])
  case failed
  then show ?thesis using assms by simp
next
  case (drawn b)
  let ?db = "add_balance db k (- a)"
  have acc: "accounts ?db = (accounts db)(k \<mapsto> b - a)"
    using funded_withdraw(1) [OF books_funded [OF assms(1)] drawn(2) assms(2) drawn(3)] .
  have "credited_to ?db = credited_to db" "invoiced ?db = invoiced db"
    by (auto simp: credited_to_def invoiced_def)
  then show ?thesis
    using assms drawn unfolding books_balance_def by (auto simp: acc)
qed

lemma books_create_invoice:
  assumes "books_balance sp db" "op_ok db (OpCreateInvoice d h k a b now)"
  shows "books_balance sp (fst (CreateInvoice d db h k a b now))"
proof (cases "snd (CreateInvoice d db h k a b now) = None")
  case True
  then obtain i where i: "fst (CreateInvoice d db h k a b now) = db\<lparr>tbl_invoices := tbl_invoices db @ [i]\<rparr>"
    "i_user_key i = k" "i_amount_msats i = a" "i_status i = ''pending''"
    by (auto simp: CreateInvoice_def split: if_splits)
  have "accounts (db\<lparr>tbl_invoices := js\<rparr>) = accounts db" for js
    by (simp add: accounts_def fun_eq_iff)
  then show ?thesis
    using assms unfolding i(1) books_balance_def credited_to_def
    by (auto simp: i(2-4) invoiced_def)
next
  case False
  then have "fst (CreateInvoice d db h k a b now) = db" by (auto simp: CreateInvoice_def)
  then show ?thesis using assms by simp
qed

lemma books_credit:
  assumes "books_balance sp db" "wf_db db"
  shows "books_balance sp (fst (CreditInvoice d db h))"
proof (cases rule: CreditInvoice_cases [of d db h])
  case same
  then show ?thesis using assms by simp
next
  case (credit i)
  let ?db = "add_balance (set_credited db h) (i_user_key i) (i_amount_msats i)"
  have i: "i \<in> set (tbl_invoices db)" "i_payment_hash i = h" using find_Some_set [OF credit(2)] by auto
  then obtain b where b: "accounts db (i_user_key i) = Some b" and a: "0 \<le> i_amount_msats i"
    using assms(1) by (auto simp: books_balance_def)
  have c: "credited_to ?db k = credited_to db k + (if k = i_user_key i then i_amount_msats i else 0)" for k
    using credited_in_set [OF _ credit(2,3)] assms(2)
    by (simp add: credited_to_def set_credited_def wf_db_def)
  have inv: "b = credited_to db (i_user_key i) - sp (i_user_key i)" "0 \<le> b" "0 \<le> sp (i_user_key i)"
    "invoiced db \<le> max_int64" "\<forall>i\<in>set (tbl_invoices db). 0 \<le> i_amount_msats i"
    using assms(1) b by (auto simp: books_balance_def)
  have "credited_to db (i_user_key i) + i_amount_msats i \<le> invoiced db"
    using credited_in_le_total [OF inv(5) i(1) credit(3)] by (simp add: credited_to_def invoiced_def)
  then have "in_int64 (b + i_amount_msats i)" using inv a by (auto simp: in_int64_def)
  moreover have "accounts (set_credited db h) = accounts db"
    by (simp add: accounts_def fun_eq_iff)
  ultimately have acc: "accounts ?db = (accounts db)(i_user_key i \<mapsto> b + i_amount_msats i)"
    by (simp add: accounts_add_balance b)
  have rows: "invoiced ?db = invoiced db"
    "(\<forall>j\<in>set (tbl_invoices ?db). 0 \<le> i_amount_msats j \<and> accounts db (i_user_key j) \<noteq> None)"
    using assms(1) by (auto simp: invoiced_def set_credited_def o_def if_distrib books_balance_def cong: if_cong)
  then have "\<forall>j\<in>set (tbl_invoices ?db). 0 \<le> i_amount_msats j \<and> accounts ?db (i_user_key j) \<noteq> None"
    unfolding acc by simp
  moreover have "\<forall>k c. accounts ?db k = Some c \<longrightarrow> c = credited_to ?db k - sp k \<and> 0 \<le> c"
    using assms(1) inv a unfolding acc c books_balance_def by auto
  moreover have "\<forall>k. 0 \<le> sp k \<and> (accounts ?db k = None \<longrightarrow> sp k = 0)"
    using assms(1) unfolding acc books_balance_def by auto
  ultimately show ?thesis
    using rows(1) inv(4) unfolding credit(1) fst_conv by (simp add: books_balance_def)
qed

lemma books_create_user:
  assumes "books_balance sp db"
  shows "books_balance sp (fst (CreateUserKey d db key u nm q))"
proof (cases "snd (CreateUserKey d db key u nm q) = None")
  case True
  then have new: "accounts db key = None"
    by (auto simp: CreateUserKey_def accounts_def list_ex_find split: if_splits)
  have "accounts (fst (CreateUserKey d db key u nm q)) = (accounts db)(key \<mapsto> 0)"
    using True new
    by (auto simp: CreateUserKey_def accounts_def find_append fun_eq_iff split: if_splits option.splits)
  moreover have "tbl_invoices (fst (CreateUserKey d db key u nm q)) = tbl_invoices db"
    by (simp add: CreateUserKey_def)
  moreover have "credited_to db key = 0" "sp key = 0"
  proof -
    have "\<forall>i\<in>set (tbl_invoices db). i_user_key i \<noteq> key"
      using assms new unfolding books_balance_def by metis
    then show "credited_to db key = 0" by (auto simp: credited_to_def credited_in_def filter_empty_conv)
    show "sp key = 0" using assms new by (simp add: books_balance_def)
  qed
  ultimately show ?thesis
    using assms by (auto simp: books_balance_def credited_to_def invoiced_def)
next
  case False
  then have "fst (CreateUserKey d db key u nm q) = db" by (auto simp: CreateUserKey_def)
  then show ?thesis using assms by simp
qed

lemma books_expire:
  assumes "books_balance sp db"
  shows "books_balance sp (fst (ExpireOldInvoices d db now))"
proof -
  let ?upd = "\<lambda>i. if overdue now i then i\<lparr>i_status := ''expired''\<rparr> else i"
  have c: "credited_in k (map ?upd is) = credited_in k is" for k "is"
    by (induction "is") (auto simp: overdue_def)
  have acc: "accounts (db\<lparr>tbl_invoices := js\<rparr>) = accounts db" for js
    by (simp add: accounts_def fun_eq_iff)
  show ?thesis
    using assms by (auto simp: ExpireOldInvoices_def books_balance_def credited_to_def invoiced_def
      acc c o_def if_distrib cong: if_cong)
qed

lemma books_step:
  assumes "books_balance sp db" "wf_db db" "op_ok db op"
  shows "books_balance (spend sp db op) (db_step db op)"
proof (cases op)
  case (OpRegisterNode d n now)
  then show ?thesis
    using assms books_same [OF assms(1), of "db_step db op"]
    by (simp add: RegisterNode_def Let_def accounts_def fun_eq_iff)
next
  case (OpRecordJob d j t t')
  then show ?thesis
    using books_same [OF assms(1), of "db_step db op"] by (simp add: RecordJob_def accounts_def fun_eq_iff)
next
  case (OpRecordPayout d n a h st now)
  then show ?thesis
    using books_same [OF assms(1), of "db_step db op"] by (simp add: RecordPayout_def accounts_def fun_eq_iff)
next
  case (OpDeductBalance d k a)
  then show ?thesis using assms books_deduct [of sp db a d k] by simp
next
  case (OpCreateInvoice d h k a b now)
  then show ?thesis using assms books_create_invoice by simp
qed (use assms in \<open>simp_all add: books_credit books_create_user books_expire\<close>)

lemma ledger_books: "ledger_run sp db \<Longrightarrow> books_balance sp db"
proof (induction rule: ledger_run.induct)
  case init
  show ?case by (simp add: books_balance_def accounts_def empty_db_def invoiced_def)
next
  case (step sp db op)
  then have "wf_db db" using ledger_run_wf wf_db_run by metis
  then show ?case using step books_step by blast
qed


section \<open>Invoices are settled once\<close>

definition settled :: "DB \<Rightarrow> string \<Rightarrow> bool" where
  "settled db h \<longleftrightarrow>
     (\<exists>i. find (\<lambda>i. i_payment_hash i = h) (tbl_invoices db) = Some i \<and> i_status i \<noteq> ''pending'')"

lemma find_map_keep:
  "(\<And>x. f (g x) = f x) \<Longrightarrow> find (\<lambda>x. f x = k) (map g xs) = map_option g (find (\<lambda>x. f x = k) xs)"
  by (induction xs) auto

lemma settled_frame: "tbl_invoices db' = tbl_invoices db \<Longrightarrow> settled db' h = settled db h"
  by (simp add: settled_def)

lemma settled_map:
  assumes "settled db h" "tbl_invoices db' = map g (tbl_invoices db)"
    and "\<And>i. i_payment_hash (g i) = i_payment_hash i"
    and "\<And>i. i_status i \<noteq> ''pending'' \<Longrightarrow> i_status (g i) \<noteq> ''pending''"
  shows "settled db' h"
  using assms(1,4) unfolding settled_def assms(2) find_map_keep [of i_payment_hash g, OF assms(3)] by auto

lemma settled_credited:
  "settled db h \<Longrightarrow> settled (set_credited db h') h"
  by (erule settled_map [where g = "\<lambda>i. if i_payment_hash i = h' then i\<lparr>i_status := ''credited''\<rparr> else i"])
     (auto simp: set_credited_def)

lemma settled_add_balance [simp]: "settled (add_balance db k a) h = settled db h"
  by (rule settled_frame) simp

lemma settled_step: "settled db h \<Longrightarrow> settled (db_step db op) h"
proof (cases op)
  case (OpDeductBalance d k a)
  then show "settled db h \<Longrightarrow> ?thesis" by (cases rule: DeductBalance_cases [of d db k a]) auto
next
  case (OpCreditInvoice d h')
  then show "settled db h \<Longrightarrow> ?thesis"
    by (cases rule: CreditInvoice_cases [of d db h']) (auto intro: settled_credited)
next
  case (OpExpireOldInvoices d now)
  then show "settled db h \<Longrightarrow> ?thesis"
    by (cases "fails d 0")
       (simp add: ExpireOldInvoices_def, erule settled_map [where g =
          "\<lambda>i. if overdue now i then i\<lparr>i_status := ''expired''\<rparr> else i"],
         auto simp: ExpireOldInvoices_def)
qed (auto simp: settled_def RegisterNode_def Let_def RecordJob_def CreateUserKey_def CreateInvoice_def
    RecordPayout_def find_append)

lemma settled_run: "settled db h \<Longrightarrow> settled (db_run db ops) h"
  by (induction ops rule: rev_induct) (simp_all add: settled_step)

lemma CreditInvoice_settled:
  "settled db h \<Longrightarrow> fst (CreditInvoice d db h) = db \<and> snd (CreditInvoice d db h) \<noteq> (True, None)"
  by (auto simp: settled_def CreditInvoice_def)

lemma credited_settled:
  assumes "CreditInvoice d db h = (db', True, None)"
  shows "settled db' h"
proof (cases rule: CreditInvoice_cases [of d db h])
  case (credit i)
  let ?g = "\<lambda>i. i\<lparr>i_status := ''credited''\<rparr>"
  have "find (\<lambda>i. i_payment_hash i = h) (tbl_invoices db') = Some (?g i)"
    using assms credit(1,2) find_map_upd [of i_payment_hash ?g h h "tbl_invoices db"]
    by (auto simp: set_credited_def)
  then show ?thesis by (simp add: settled_def)
qed (use assms in auto)

section \<open>What nodes are owed\<close>

definition earned_by :: "DB \<Rightarrow> string \<Rightarrow> int" where
  "earned_by db n = sum_list (map j_earned_msats (filter (completed_by n) (tbl_jobs db)))"

definition paid_out :: "DB \<Rightarrow> string \<Rightarrow> int" where
  "paid_out db n = sum_list (map p_amount_msats (filter (paid_to n) (tbl_payouts db)))"

text \<open>No negative amounts, and sums within 64 bits.\<close>

definition money_ok :: "DB \<Rightarrow> bool" where
  "money_ok db \<longleftrightarrow>
     (\<forall>j\<in>set (tbl_jobs db). 0 \<le> j_earned_msats j) \<and> (\<forall>p\<in>set (tbl_payouts db). 0 \<le> p_amount_msats p) \<and>
     sum_list (map j_earned_msats (tbl_jobs db)) \<le> max_int64 \<and>
     sum_list (map p_amount_msats (tbl_payouts db)) \<le> max_int64"

lemma sum_list_filter_le:
  "\<forall>x\<in>set xs. 0 \<le> f x \<Longrightarrow> 0 \<le> sum_list (map f (filter P xs)) \<and>
     sum_list (map f (filter P xs)) \<le> (sum_list (map f xs) :: int)"
  by (induction xs) auto

lemma money_ok_bounds:
  assumes "money_ok db"
  shows "0 \<le> earned_by db n" "earned_by db n \<le> max_int64" "0 \<le> paid_out db n" "paid_out db n \<le> max_int64"
  using assms sum_list_filter_le [of "tbl_jobs db" j_earned_msats "completed_by n"]
    sum_list_filter_le [of "tbl_payouts db" p_amount_msats "paid_to n"]
  by (auto simp: money_ok_def earned_by_def paid_out_def)

lemma sql_sums:
  assumes "money_ok db"
  shows "sql_sum (map j_earned_msats (filter (completed_by n) (tbl_jobs db))) = Inr (earned_by db n)"
    and "sql_sum (map p_amount_msats (filter (paid_to n) (tbl_payouts db))) = Inr (paid_out db n)"
  using money_ok_bounds [OF assms, of n] assms
  by (auto simp: sql_sum_nonneg earned_by_def paid_out_def money_ok_def)

lemma unpaid_eq: "money_ok db \<Longrightarrow> unpaid db n = Some (earned_by db n - paid_out db n)"
  by (simp add: unpaid_def sql_sums)

lemma NodeBalance_eq:
  "money_ok db \<Longrightarrow> NodeBalance d db n =
     (if fails d 0 \<or> fails d 1 then Inl ErrDriver else Inr (earned_by db n - paid_out db n))"
  using money_ok_bounds [of db n] by (simp add: NodeBalance_def sql_sums in_int64_def)

lemma NodeBalance_Inr:
  assumes "money_ok db" "NodeBalance d db n = Inr b"
  shows "b = earned_by db n - paid_out db n"
  using assms by (simp add: NodeBalance_eq split: if_splits)

section \<open>Properties of the database\<close>

text \<open>
  C28: In every run of the database, whatever statements fail, the balance of a user is exactly the
  sum of the invoices credited to them less the sum drawn from them, and it is never negative.
\<close>

theorem balance_is_credits_less_draws:
  assumes "ledger_run sp db" "UserBalance d db k = Inr b"
  shows "b = credited_to db k - sp k \<and> 0 \<le> b"
proof -
  have "accounts db k = Some b"
    using assms(2) by (auto simp: UserBalance_accounts split: if_splits option.splits)
  then show ?thesis using ledger_books [OF assms(1)] by (auto simp: books_balance_def)
qed

theorem balance_is_credits_less_draws_witness:
  "UserBalance no_faults
     (db_run empty_db [OpCreateUserKey no_faults ''k'' ''u'' ''n'' 10,
        OpCreateInvoice no_faults ''h'' ''k'' 5000 ''lnbc'' 0, OpCreditInvoice no_faults ''h'',
        OpCreditInvoice no_faults ''h'', OpDeductBalance no_faults ''k'' 1200,
        OpDeductBalance no_faults ''k'' 4000]) ''k'' = Inr 3800 \<and> (3800 :: int) = 5000 - 1200"
proof -
  let ?nf = no_faults
  note defs = CreateUserKey_def CreateInvoice_def CreditInvoice_def DeductBalance_def add_balance_def
    set_credited_def empty_db_def no_faults_def accounts_def invoiced_def sql_int_def in_int64_def
  let ?db = "db_step (db_step (db_step (db_step (db_step (db_step empty_db
    (OpCreateUserKey ?nf ''k'' ''u'' ''n'' 10)) (OpCreateInvoice ?nf ''h'' ''k'' 5000 ''lnbc'' 0))
    (OpCreditInvoice ?nf ''h'')) (OpCreditInvoice ?nf ''h'')) (OpDeductBalance ?nf ''k'' 1200))
    (OpDeductBalance ?nf ''k'' 4000)"
  have run: "\<exists>sp. ledger_run sp ?db \<and> sp ''k'' = 1200"
    by (rule exI, rule conjI, (rule ledger_run.step)+, rule ledger_run.init) (simp_all add: defs)
  have bal: "UserBalance ?nf ?db ''k'' = Inr 3800" "credited_to ?db ''k'' = 5000"
    by (simp_all add: defs UserBalance_def credited_to_def)
  have "(3800 :: int) = 5000 - 1200"
    using balance_is_credits_less_draws [OF _ bal(1)] run bal(2) by metis
  then show ?thesis using bal(1) by (simp add: db_run_def)
qed

text \<open>
  C12: an invoice that was credited is never credited again, and one that expired is never credited,
  whatever happens in between: the attempt changes nothing and does not report success.
\<close>

theorem invoice_settled_once:
  assumes "CreditInvoice d db h = (db1, True, None) \<or>
     (\<exists>i. find (\<lambda>i. i_payment_hash i = h) (tbl_invoices db1) = Some i \<and> i_status i = ''expired'')"
  shows "fst (CreditInvoice d' (db_run db1 ops) h) = db_run db1 ops \<and>
    snd (CreditInvoice d' (db_run db1 ops) h) \<noteq> (True, None)"
proof -
  have "settled db1 h" using assms credited_settled by (auto simp: settled_def)
  then show ?thesis using CreditInvoice_settled settled_run by blast
qed

theorem invoice_settled_once_witness:
  "\<exists>db1. CreditInvoice no_faults (db_run empty_db [OpCreateUserKey no_faults ''k'' ''u'' ''n'' 10,
        OpCreateInvoice no_faults ''h'' ''k'' 5000 ''lnbc'' 0]) ''h'' = (db1, True, None) \<and>
     fst (CreditInvoice no_faults (db_run db1 []) ''h'') = db1"
proof -
  let ?db = "db_run empty_db [OpCreateUserKey no_faults ''k'' ''u'' ''n'' 10,
        OpCreateInvoice no_faults ''h'' ''k'' 5000 ''lnbc'' 0]"
  have "\<exists>db1. CreditInvoice no_faults ?db ''h'' = (db1, True, None)"
    by (simp add: db_run_def CreateUserKey_def CreateInvoice_def CreditInvoice_def empty_db_def no_faults_def)
  then obtain db1 where "CreditInvoice no_faults ?db ''h'' = (db1, True, None)" ..
  then show ?thesis
    using invoice_settled_once [OF disjI1, of no_faults ?db "''h''" db1 no_faults "[]"] by simp
qed

text \<open>
  Drawing on a balance implements the abstract withdrawal: it succeeds exactly when the driver
  does and the account holds the amount, takes exactly the amount from that account and leaves the
  other accounts, invoices, jobs and payouts alone; otherwise nothing changes.
\<close>

theorem DeductBalance_refines:
  assumes "funded db" "0 \<le> a" "DeductBalance d db k a = (db', err)"
  shows "(err = None \<longleftrightarrow> \<not> (fails d 0 \<or> fails d 1 \<or> fails d 2 \<or> fails d 3) \<and> (\<exists>b. accounts db k = Some b \<and> a \<le> b)) \<and>
    (if err = None then accounts db' = (accounts db)(k \<mapsto> the (accounts db k) - a) \<and> funded db' \<and>
        tbl_invoices db' = tbl_invoices db \<and> tbl_jobs db' = tbl_jobs db \<and> tbl_payouts db' = tbl_payouts db
     else db' = db)"
proof (cases "accounts db k")
  case (Some b)
  then show ?thesis using assms(3) funded_withdraw [OF assms(1) Some assms(2)]
    by (auto simp: DeductBalance_accounts split: if_splits)
qed (use assms in \<open>auto simp: DeductBalance_accounts split: if_splits\<close>)

theorem DeductBalance_refines_witness:
  "accounts (fst (DeductBalance no_faults
     (empty_db\<lparr>tbl_api_keys := [\<lparr>k_key = ''k'', k_user_id = ''u'', k_name = ''n'', k_quota_daily = 10,
        k_balance_msats = 70\<rparr>]\<rparr>) ''k'' 30)) ''k'' = Some 40"
proof -
  let ?db = "empty_db\<lparr>tbl_api_keys := [\<lparr>k_key = ''k'', k_user_id = ''u'', k_name = ''n'', k_quota_daily = 10,
        k_balance_msats = 70\<rparr>]\<rparr>"
  have f: "funded ?db" by (simp add: funded_def accounts_def)
  have acc: "accounts ?db ''k'' = Some 70" by (simp add: accounts_def)
  from DeductBalance_refines [OF f _ prod.collapse [symmetric], of 30 no_faults "''k''"] acc
  show ?thesis by (auto simp: no_faults_def split: if_splits)
qed

text \<open>
  A node's balance is what it earned less what it was paid; recording a completed job adds the
  job's earnings to it and recording a confirmed payout takes the payout off, for that node only.
\<close>

theorem NodeBalance_tracks:
  assumes "money_ok db" "NodeBalance d db n = Inr b"
  shows "b = earned_by db n - paid_out db n \<and>
    (\<forall>j t t' db'. RecordJob d' db j t t' = (db', None) \<and> j_status j = ''complete'' \<and> money_ok db' \<longrightarrow>
       NodeBalance d db' n = Inr (b + (if j_node_id j = n then j_earned_msats j else 0))) \<and>
    (\<forall>m a h now db'. RecordPayout d' db m a h ''confirmed'' now = (db', None) \<and> money_ok db' \<longrightarrow>
       NodeBalance d db' n = Inr (b - (if m = n then a else 0)))"
proof -
  have d: "\<not> (fails d 0 \<or> fails d 1)" using assms by (auto simp: NodeBalance_eq)
  have b: "b = earned_by db n - paid_out db n" using NodeBalance_Inr [OF assms] .
  have job: "NodeBalance d db' n = Inr (b + (if j_node_id j = n then j_earned_msats j else 0))"
    if "RecordJob d' db j t t' = (db', None)" "j_status j = ''complete''" "money_ok db'" for j t t' db'
    using that(1,2) NodeBalance_eq [OF that(3), of d n] d
    by (auto simp: b earned_by_def paid_out_def RecordJob_def completed_by_def split: if_splits)
  have pay: "NodeBalance d db' n = Inr (b - (if m = n then a else 0))"
    if "RecordPayout d' db m a h ''confirmed'' now = (db', None)" "money_ok db'" for m a h now db'
    using that(1) NodeBalance_eq [OF that(2), of d n] d
    by (auto simp: b earned_by_def paid_out_def RecordPayout_def paid_to_def split: if_splits)
  show ?thesis using b job pay by blast
qed

theorem NodeBalance_tracks_witness:
  "NodeBalance no_faults (fst (RecordPayout no_faults empty_db ''n'' 0 ''h'' ''confirmed'' 0)) ''n'' = Inr 0"
proof -
  have m: "money_ok empty_db" by (simp add: money_ok_def empty_db_def)
  have b: "NodeBalance no_faults empty_db ''n'' = Inr 0"
    using m by (simp add: NodeBalance_eq no_faults_def earned_by_def paid_out_def empty_db_def)
  have "\<exists>db'. RecordPayout no_faults empty_db ''n'' 0 ''h'' ''confirmed'' 0 = (db', None) \<and> money_ok db'"
    by (simp add: money_ok_def RecordPayout_def empty_db_def no_faults_def)
  then show ?thesis using NodeBalance_tracks [OF m b, of no_faults] by fastforce
qed

text \<open>
  The payout query returns only nodes with a Lightning address whose unpaid balance reaches
  their threshold, and, when the driver delivers every row, all of them.
\<close>

theorem PendingPayouts_correct:
  assumes "money_ok db" "PendingPayouts d db = Inr out"
  shows "(\<forall>r\<in>set out. \<exists>n\<in>set (tbl_nodes db). r = payout_row n \<and> n_lightning_addr n \<noteq> '''' \<and>
      n_redeem_threshold n * 1000 \<le> earned_by db (n_node_id n) - paid_out db (n_node_id n)) \<and>
    (rows_read d = None \<longrightarrow> (\<forall>n\<in>set (tbl_nodes db). n_lightning_addr n \<noteq> '''' \<and>
      n_redeem_threshold n * 1000 \<le> earned_by db (n_node_id n) - paid_out db (n_node_id n) \<longrightarrow>
      payout_row n \<in> set out))"
proof -
  let ?c = "filter (\<lambda>n. n_lightning_addr n \<noteq> '''') (tbl_nodes db)"
  have out: "out = deliver d (map payout_row (filter (due db) ?c))"
    using assms(2) by (simp add: PendingPayouts_def unpaid_eq [OF assms(1)] takeWhile_eq_all_conv [THEN iffD2]
        split: if_splits)
  have sub: "set (deliver d xs) \<subseteq> set xs" for xs :: "Node list"
    by (auto simp: deliver_def dest: in_set_takeD split: option.split)
  show ?thesis
    using assms(1) sub [of "map payout_row (filter (due db) ?c)"] unfolding out
    by (auto simp: due_def unpaid_eq deliver_def)
qed

theorem PendingPayouts_correct_witness:
  "\<exists>db n out. PendingPayouts no_faults db = Inr out \<and> tbl_nodes db = [n] \<and> n_redeem_threshold n = 100 \<and>
     earned_by db (n_node_id n) = 100000 \<and> payout_row n \<in> set out"
proof -
  define n where "n = \<lparr>n_node_id = ''n'', n_api_key = ''k'', n_gpu = ''g'', n_gpu_vendor = ''v'', n_vram_total_mb = 1,
    n_models = ''[]'', n_region = ''eu'', n_lightning_addr = ''a@b.cd'', n_redeem_threshold = 100,
    n_free_tier_pct = 0, n_version = ''1'', n_last_seen = 0\<rparr>"
  define j where "j = \<lparr>j_job_id = ''j'', j_node_id = ''n'', j_user_key = ''u'', j_model = ''m'', j_tokens_in = 1,
    j_tokens_out = 1, j_earned_msats = 100000, j_fee_msats = 0, j_free_tier = False, j_status = ''complete'',
    j_started_at = 0, j_completed_at = None\<rparr>"
  let ?db = "empty_db\<lparr>tbl_nodes := [n], tbl_jobs := [j]\<rparr>"
  have m: "money_ok ?db" by (simp add: money_ok_def empty_db_def j_def)
  have e: "earned_by ?db ''n'' = 100000" "paid_out ?db ''n'' = 0"
    by (simp_all add: earned_by_def paid_out_def completed_by_def empty_db_def j_def)
  have n: "n_lightning_addr n \<noteq> []" "n_node_id n = ''n''" "n_redeem_threshold n = 100" by (simp_all add: n_def)
  have u: "unpaid ?db ''n'' = Some 100000" using unpaid_eq [OF m] e by simp
  have q: "PendingPayouts no_faults ?db = Inr [payout_row n]"
    by (simp add: PendingPayouts_def Let_def due_def u n no_faults_def deliver_def)
  then show ?thesis
    using PendingPayouts_correct [OF m q] e n
    by (intro exI [of _ ?db] exI [of _ n] exI [of _ "[payout_row n]"]) (simp add: no_faults_def)
qed

end
