(* ===== verification/Gateway.thy ===== *)
theory Gateway
  imports Usage Router Ledger
begin

text \<open>
  \<open>internal/gateway/gateway.go\<close> and \<open>types.go\<close>: the nodes connected over WebSocket, the jobs they work on,
  and the handlers of their messages and requests. Pointers that the code compares or shares are
  references: a connection is a number into \<open>conns\<close>, a channel a number into \<open>chans\<close>; the maps
  \<open>nodes\<close>, \<open>pendingJobs\<close> and \<open>userJobs\<close> are the code's. The gateway's database and billing engine are part
  of its state. A handler is one step here; the theory \<open>Interleave\<close> takes its critical sections one
  at a time.

  What a handler gets from outside is its \<open>env\<close>: the time it reads, how the database driver behaves
  in each call, whether a WebSocket write succeeds, the order a map is ranged over in. A handler
  returns the new state and whether it panicked (a slice out of range, the close of a closed channel).
\<close>

section \<open>Messages\<close>

record Broadcast =
  bc_ID :: string
  bc_Title :: string
  bc_Message :: string
  bc_Severity :: string
  bc_Timestamp :: string

text \<open>\<open>Withdraw.Timestamp\<close> is kept as the seconds it formats.\<close>

record Withdraw =
  wd_AmountSats :: int64
  wd_PaymentHash :: string
  wd_Timestamp :: int

record WSMsg =
  msg_Type :: string
  msg_NodeID :: string
  msg_JobID :: string
  msg_Model :: string
  msg_VRAMRequiredMB :: int
  msg_BuyerRegion :: string
  msg_FreeTier :: bool
  msg_GPUUtilPct :: int
  msg_VRAMFreeMB :: int
  msg_TempC :: int
  msg_PowerW :: f64
  msg_QueueDepth :: int
  msg_EarningState :: string
  msg_Status :: string
  msg_JobsToday :: int
  msg_TokensToday :: int
  msg_EarnedTodayUSD :: f64
  msg_EarnedTodaySats :: int64
  msg_EarnedTotalSats :: int64
  msg_QueueDepthGlobal :: int
  msg_BalanceSats :: int64
  msg_KarmaScore :: int64
  msg_KarmaTier :: string
  msg_FreeTierJobs :: int
  msg_Broadcasts :: "Broadcast list"
  msg_WithdrawHistory :: "Withdraw list"
  msg_BtcLiveUsd :: f64
  msg_BtcYesterdayFix :: f64
  msg_BtcDailyAvg :: f64
  msg_BtcWeeklyAvg :: f64
  msg_BtcPriceStatus :: string
  msg_Tokens :: int
  msg_EarnedUSD :: f64
  msg_Reason :: string
  msg_Data :: string

definition zero_msg :: WSMsg where
  "zero_msg = \<lparr>msg_Type = '''', msg_NodeID = '''', msg_JobID = '''', msg_Model = '''', msg_VRAMRequiredMB = 0,
     msg_BuyerRegion = '''', msg_FreeTier = False, msg_GPUUtilPct = 0, msg_VRAMFreeMB = 0, msg_TempC = 0,
     msg_PowerW = Fin 0, msg_QueueDepth = 0, msg_EarningState = '''', msg_Status = '''', msg_JobsToday = 0,
     msg_TokensToday = 0, msg_EarnedTodayUSD = Fin 0, msg_EarnedTodaySats = 0, msg_EarnedTotalSats = 0,
     msg_QueueDepthGlobal = 0, msg_BalanceSats = 0, msg_KarmaScore = 0, msg_KarmaTier = '''',
     msg_FreeTierJobs = 0, msg_Broadcasts = [], msg_WithdrawHistory = [], msg_BtcLiveUsd = Fin 0,
     msg_BtcYesterdayFix = Fin 0, msg_BtcDailyAvg = Fin 0, msg_BtcWeeklyAvg = Fin 0,
     msg_BtcPriceStatus = '''', msg_Tokens = 0, msg_EarnedUSD = Fin 0, msg_Reason = '''', msg_Data = ''''\<rparr>"

section \<open>State\<close>

record chan =
  buffer :: "string list"
  capacity :: nat
  closed :: bool

record PendingJob =
  pj_JobID :: string
  pj_NodeID :: string
  pj_UserKey :: string
  pj_Model :: string
  pj_BuyerBody :: string
  pj_ResponseCh :: nat
  pj_DoneCh :: nat
  pj_FreeTier :: bool
  pj_StartedAt :: time
  pj_LastChunk :: string

text \<open>A connection: its live state, whether its context is cancelled, and what was written to it.\<close>

record NodeConn =
  nc_NodeID :: string
  nc_APIKey :: string
  nc_Models :: "string list"
  nc_VRAMTotalMB :: int
  nc_VRAMFreeMB :: int
  nc_GPUUtilPct :: int
  nc_TempC :: int
  nc_PowerW :: f64
  nc_Region :: string
  nc_QueueDepth :: int
  nc_cancelled :: bool
  nc_sent :: "WSMsg list"

record Gateway =
  nodes :: "string \<rightharpoonup> nat"
  conns :: "nat \<rightharpoonup> NodeConn"
  next_conn :: nat
  pendingJobs :: "string \<rightharpoonup> PendingJob"
  chans :: "nat \<rightharpoonup> chan"
  next_chan :: nat
  userJobs :: "string \<rightharpoonup> int"
  db :: DB
  bill :: Engine

definition New_gateway :: "DB \<Rightarrow> Engine \<Rightarrow> Gateway" where
  "New_gateway d b = \<lparr>nodes = Map.empty, conns = Map.empty, next_conn = 0, pendingJobs = Map.empty,
     chans = Map.empty, next_chan = 0, userJobs = Map.empty, db = d, bill = b\<rparr>"

datatype db_call =
  DbNodeByAPIKey | DbRegisterNode | DbNodeBalance | DbNodeEarningsToday | DbNodeEarningsTotal
| DbNodeJobsToday | DbNodeWithdrawHistory | DbNodeKarma | DbRecordJob string | DbDeductBalance

record env =
  e_now :: time
  e_db :: "db_call \<Rightarrow> driver"
  e_send :: bool
  e_order :: "string list"

definition maxConcurrentPerUser :: int where "maxConcurrentPerUser = 3"
definition minRedeemThresholdSats :: int where "minRedeemThresholdSats = 100"

section \<open>Connections and channels\<close>

definition update_conn :: "Gateway \<Rightarrow> nat \<Rightarrow> (NodeConn \<Rightarrow> NodeConn) \<Rightarrow> Gateway" where
  "update_conn g c f = g\<lparr>conns := (conns g)(c := map_option f (conns g c))\<rparr>"

text \<open>\<open>Send\<close> fails when the connection's context is cancelled, or when the write fails.\<close>

definition Send :: "Gateway \<Rightarrow> nat \<Rightarrow> WSMsg \<Rightarrow> bool \<Rightarrow> Gateway \<times> bool" where
  "Send g c msg write_ok =
     (case conns g c of
        None \<Rightarrow> (g, False)
      | Some nc \<Rightarrow>
          if nc_cancelled nc \<or> \<not> write_ok then (g, False)
          else (update_conn g c (\<lambda>nc. nc\<lparr>nc_sent := nc_sent nc @ [msg]\<rparr>), True))"

definition make_chan :: "Gateway \<Rightarrow> nat \<Rightarrow> Gateway \<times> nat" where
  "make_chan g cap =
     (g\<lparr>chans := (chans g)(next_chan g \<mapsto> \<lparr>buffer = [], capacity = cap, closed = False\<rparr>),
        next_chan := Suc (next_chan g)\<rparr>, next_chan g)"

text \<open>\<open>close\<close> panics on a closed channel.\<close>

definition close_chan :: "Gateway \<Rightarrow> nat \<Rightarrow> Gateway \<times> bool" where
  "close_chan g ch =
     (case chans g ch of
        None \<Rightarrow> (g, True)
      | Some c \<Rightarrow>
          if closed c then (g, True)
          else (g\<lparr>chans := (chans g)(ch \<mapsto> c\<lparr>closed := True\<rparr>)\<rparr>, False))"

text \<open>A \<open>select\<close> with a send and a \<open>default\<close>: the value is dropped when the buffer is full.\<close>

definition try_send :: "Gateway \<Rightarrow> nat \<Rightarrow> string \<Rightarrow> Gateway" where
  "try_send g ch x =
     (case chans g ch of
        None \<Rightarrow> g
      | Some c \<Rightarrow>
          if length (buffer c) < capacity c
          then g\<lparr>chans := (chans g)(ch \<mapsto> c\<lparr>buffer := buffer c @ [x]\<rparr>)\<rparr> else g)"

section \<open>Concurrent jobs per user\<close>

definition user_jobs :: "Gateway \<Rightarrow> string \<Rightarrow> int" where
  "user_jobs g key = (case userJobs g key of None \<Rightarrow> 0 | Some n \<Rightarrow> n)"

definition incrUserJobs :: "Gateway \<Rightarrow> string \<Rightarrow> Gateway \<times> bool" where
  "incrUserJobs g key =
     (if user_jobs g key \<ge> maxConcurrentPerUser then (g, False)
      else (g\<lparr>userJobs := (userJobs g)(key \<mapsto> user_jobs g key + 1)\<rparr>, True))"

definition decrUserJobs :: "Gateway \<Rightarrow> string \<Rightarrow> Gateway" where
  "decrUserJobs g key =
     (let n = (if user_jobs g key > 0 then user_jobs g key - 1 else user_jobs g key)
      in g\<lparr>userJobs := (userJobs g)(key := if n = 0 then None else Some n)\<rparr>)"

section \<open>Assigning a job\<close>

datatype assign_error = ErrTooManyConcurrent | ErrNodeGone | ErrSend

definition AssignJob ::
  "Gateway \<Rightarrow> env \<Rightarrow> string \<Rightarrow> string \<Rightarrow> string \<Rightarrow> string \<Rightarrow> string \<Rightarrow> bool
    \<Rightarrow> Gateway \<times> (assign_error + nat \<times> nat)" where
  "AssignJob g e nodeID jobID model userKey buyerBody freeTier =
     (let (g1, allowed) = incrUserJobs g userKey
      in if \<not> allowed then (g1, Inl ErrTooManyConcurrent)
         else (case nodes g1 nodeID of
             None \<Rightarrow> (decrUserJobs g1 userKey, Inl ErrNodeGone)
           | Some c \<Rightarrow>
               (let (g2, resp) = make_chan g1 64;
                    (g3, doneCh) = make_chan g2 0;
                    job = \<lparr>pj_JobID = jobID, pj_NodeID = nodeID, pj_UserKey = userKey, pj_Model = model,
                      pj_BuyerBody = buyerBody, pj_ResponseCh = resp, pj_DoneCh = doneCh,
                      pj_FreeTier = freeTier, pj_StartedAt = e_now e, pj_LastChunk = ''''\<rparr>;
                    g4 = g3\<lparr>pendingJobs := (pendingJobs g3)(jobID \<mapsto> job)\<rparr>;
                    (g5, ok) = Send g4 c (zero_msg\<lparr>msg_Type := ''job'', msg_JobID := jobID, msg_Model := model\<rparr>)
                      (e_send e)
                in if \<not> ok then
                     (decrUserJobs (g5\<lparr>pendingJobs := (pendingJobs g5)(jobID := None)\<rparr>) userKey, Inl ErrSend)
                   else (g5, Inr (resp, doneCh)))))"

section \<open>Messages from a node\<close>

definition globalQueueDepth :: "Gateway \<Rightarrow> string list \<Rightarrow> int" where
  "globalQueueDepth g ks =
     foldl (\<lambda>total c. case conns g c of None \<Rightarrow> total | Some nc \<Rightarrow> wrap64 (total + nc_QueueDepth nc))
       0 (range_map ks (nodes g))"

definition or_zeros :: "db_error + int \<times> int \<Rightarrow> int \<times> int" where
  "or_zeros r = (case r of Inl _ \<Rightarrow> (0, 0) | Inr v \<Rightarrow> v)"

definition heartbeat_ack :: "Gateway \<Rightarrow> env \<Rightarrow> string \<Rightarrow> WSMsg" where
  "heartbeat_ack g e nodeID =
     (let balance = or_zero (NodeBalance (e_db e DbNodeBalance) (db g) nodeID);
          earnedToday = or_zero (NodeEarningsToday (e_db e DbNodeEarningsToday) (db g) nodeID (e_now e));
          earnedTotal = or_zero (NodeEarningsTotal (e_db e DbNodeEarningsTotal) (db g) nodeID);
          (jobsToday, tokensToday) = or_zeros (NodeJobsToday (e_db e DbNodeJobsToday) (db g) nodeID (e_now e));
          withdraws = (case NodeWithdrawHistory (e_db e DbNodeWithdrawHistory) (db g) nodeID 5 of
             Inl _ \<Rightarrow> [] | Inr ps \<Rightarrow> ps);
          wdHist = map (\<lambda>w. \<lparr>wd_AmountSats = p_amount_msats w, wd_PaymentHash = p_payment_hash w,
             wd_Timestamp = p_created_at w\<rparr>) withdraws;
          (freeTierJobs, karmaScore) = or_zeros (NodeKarma (e_db e DbNodeKarma) (db g) nodeID (e_now e))
      in zero_msg\<lparr>msg_Type := ''heartbeat_ack'', msg_Status := ''registered'', msg_JobsToday := jobsToday,
           msg_TokensToday := tokensToday, msg_EarnedTodaySats := earnedToday,
           msg_EarnedTotalSats := earnedTotal, msg_BalanceSats := balance,
           msg_QueueDepthGlobal := globalQueueDepth g (e_order e), msg_BtcLiveUsd := BtcPrice (bill g),
           msg_BtcPriceStatus := ''normal'', msg_WithdrawHistory := wdHist, msg_KarmaScore := karmaScore,
           msg_KarmaTier := karmaLevel karmaScore, msg_FreeTierJobs := freeTierJobs\<rparr>)"

text \<open>The log line slices \<open>NodeID[:8]\<close>, which panics when the id is shorter, before the reply is sent.\<close>

definition handleHeartbeat :: "Gateway \<Rightarrow> env \<Rightarrow> nat \<Rightarrow> NodeConn \<Rightarrow> WSMsg \<Rightarrow> Gateway \<times> bool" where
  "handleHeartbeat g e c nc msg =
     (let g1 = update_conn g c (\<lambda>nc. nc\<lparr>nc_GPUUtilPct := msg_GPUUtilPct msg,
             nc_VRAMFreeMB := msg_VRAMFreeMB msg, nc_TempC := msg_TempC msg, nc_PowerW := msg_PowerW msg,
             nc_QueueDepth := msg_QueueDepth msg\<rparr>);
          ack = heartbeat_ack g1 e (nc_NodeID nc)
      in if length (nc_NodeID nc) < 8 then (g1, True)
         else (fst (Send g1 c ack (e_send e)), False))"

definition handleAccept :: "Gateway \<Rightarrow> NodeConn \<Rightarrow> WSMsg \<Rightarrow> Gateway \<times> bool" where
  "handleAccept g nc msg = (g, False)"

definition handleReject :: "Gateway \<Rightarrow> NodeConn \<Rightarrow> WSMsg \<Rightarrow> Gateway \<times> bool" where
  "handleReject g nc msg =
     (case pendingJobs g (msg_JobID msg) of
        None \<Rightarrow> (g, False)
      | Some job \<Rightarrow>
          (let (g1, panic) = close_chan g (pj_DoneCh job)
           in if panic then (g1, True)
              else (decrUserJobs (g1\<lparr>pendingJobs := (pendingJobs g1)(msg_JobID msg := None)\<rparr>)
                      (pj_UserKey job), False)))"

definition usage_mark :: string where
  "usage_mark = quote # ''usage'' @ [quote]"

text \<open>The chunk kept for billing: the first line that mentions the usage.\<close>

definition last_chunk :: "string \<Rightarrow> string \<Rightarrow> string" where
  "last_chunk data old =
     (if Contains data usage_mark
      then (case find (\<lambda>line. Contains line usage_mark) (Split data newline) of
              None \<Rightarrow> old | Some line \<Rightarrow> line)
      else old)"

definition handleProxyChunk :: "Gateway \<Rightarrow> NodeConn \<Rightarrow> WSMsg \<Rightarrow> Gateway \<times> bool" where
  "handleProxyChunk g nc msg =
     (case pendingJobs g (msg_JobID msg) of
        None \<Rightarrow> (g, False)
      | Some job \<Rightarrow>
          if pj_NodeID job \<noteq> nc_NodeID nc then (g, False)
          else (let job' = job\<lparr>pj_LastChunk := last_chunk (msg_Data msg) (pj_LastChunk job)\<rparr>;
                    g1 = g\<lparr>pendingJobs := (pendingJobs g)(msg_JobID msg \<mapsto> job')\<rparr>
                in (try_send g1 (pj_ResponseCh job) (msg_Data msg), False)))"

text \<open>The row both settling paths record.\<close>

definition job_row :: "PendingJob \<Rightarrow> int \<Rightarrow> int \<Rightarrow> int64 \<Rightarrow> int64 \<Rightarrow> Job" where
  "job_row job tokensIn tokensOut providerMsats feeMsats =
     \<lparr>j_job_id = pj_JobID job, j_node_id = pj_NodeID job, j_user_key = pj_UserKey job,
      j_model = pj_Model job, j_tokens_in = tokensIn, j_tokens_out = tokensOut,
      j_earned_msats = providerMsats, j_fee_msats = feeMsats, j_free_tier = pj_FreeTier job,
      j_status = ''complete'', j_started_at = 0, j_completed_at = None\<rparr>"

definition record_job :: "Gateway \<Rightarrow> env \<Rightarrow> PendingJob \<Rightarrow> int \<Rightarrow> int \<Rightarrow> int64 \<Rightarrow> int64 \<Rightarrow> Gateway \<times> bool" where
  "record_job g e job tokensIn tokensOut providerMsats feeMsats =
     (let (db', err) = RecordJob (e_db e (DbRecordJob (pj_JobID job))) (db g)
            (job_row job tokensIn tokensOut providerMsats feeMsats) (pj_StartedAt job) (Some (e_now e))
      in (g\<lparr>db := db'\<rparr>, err = None))"

text \<open>The log of a failed deduction slices \<open>UserKey[:6]\<close>.\<close>

definition charge_user :: "Gateway \<Rightarrow> env \<Rightarrow> PendingJob \<Rightarrow> int64 \<Rightarrow> Gateway \<times> bool" where
  "charge_user g e job totalCostMsats =
     (if totalCostMsats > 0 \<and> \<not> pj_FreeTier job then
        (let (db', err) = DeductBalance (e_db e DbDeductBalance) (db g) (pj_UserKey job) totalCostMsats
         in (g\<lparr>db := db'\<rparr>, err \<noteq> None \<and> length (pj_UserKey job) < 6))
      else (g, False))"

definition handleProxyDone :: "Gateway \<Rightarrow> env \<Rightarrow> nat \<Rightarrow> NodeConn \<Rightarrow> WSMsg \<Rightarrow> Gateway \<times> bool" where
  "handleProxyDone g e c nc msg =
     (case pendingJobs g (msg_JobID msg) of
        None \<Rightarrow> (g, False)
      | Some job \<Rightarrow>
          if pj_NodeID job \<noteq> nc_NodeID nc then (g, False)
          else
            (let g1 = g\<lparr>pendingJobs := (pendingJobs g)(msg_JobID msg := None)\<rparr>;
                 (g2, panic) = close_chan g1 (pj_DoneCh job)
             in if panic then (g2, True)
                else
                  (let g3 = decrUserJobs g2 (pj_UserKey job);
                       ((tokensIn, tokensOut), grossUSD, providerMsats, feeMsats) =
                         meter_job (bill g3) (pj_Model job) (pj_LastChunk job);
                       (g4, recorded) = record_job g3 e job tokensIn tokensOut providerMsats feeMsats
                   in if \<not> recorded then (g4, False)
                      else
                        (let (g5, panic5) = charge_user g4 e job (wrap64 (providerMsats + feeMsats))
                         in if panic5 then (g5, True)
                            else (fst (Send g5 c (zero_msg\<lparr>msg_Type := ''job_complete'', msg_Model := pj_Model job,
                                     msg_Tokens := wrap64 (tokensIn + tokensOut),
                                     msg_EarnedUSD := grossUSD * (Fin 1 - FeePct (bill g5) / Fin 100)\<rparr>)
                                   (e_send e)), False)))))"

text \<open>The body of \<open>readLoop\<close>, without the read: the message is what \<open>wsjson.Read\<close> decoded.\<close>

definition handle_msg :: "Gateway \<Rightarrow> env \<Rightarrow> nat \<Rightarrow> WSMsg \<Rightarrow> Gateway \<times> bool" where
  "handle_msg g e c msg =
     (case conns g c of
        None \<Rightarrow> (g, False)
      | Some nc \<Rightarrow>
          if msg_Type msg = ''heartbeat'' then handleHeartbeat g e c nc msg
          else if msg_Type msg = ''pong'' then (g, False)
          else if msg_Type msg = ''accept'' then handleAccept g nc msg
          else if msg_Type msg = ''reject'' then handleReject g nc msg
          else if msg_Type msg = ''proxy_chunk'' then handleProxyChunk g nc msg
          else if msg_Type msg = ''proxy_done'' then handleProxyDone g e c nc msg
          else (g, False))"

definition ping :: "Gateway \<Rightarrow> nat \<Rightarrow> bool \<Rightarrow> Gateway" where
  "ping g c write_ok = fst (Send g c (zero_msg\<lparr>msg_Type := ''ping''\<rparr>) write_ok)"

end
