(* ===== verification/Handlers.thy ===== *)
theory Handlers
  imports Gateway
begin

text \<open>
  \<open>internal/gateway/gateway.go\<close>, the rest: registration, connecting and disconnecting, the request
  proxy, the clean-up of old jobs, the snapshots the router and the API take; then every step the
  gateway can make (\<open>gw_step\<close>) and the states it can reach.
\<close>

section \<open>Registration\<close>

record RegisterPayload =
  reg_NodeID :: string
  reg_APIKey :: string
  reg_GPU :: string
  reg_GPUVendor :: string
  reg_VRAMTotalMB :: int
  reg_VRAMFreeMB :: int
  reg_VRAMExact :: bool
  reg_Models :: "string list option"
  reg_OllamaURL :: string
  reg_Region :: string
  reg_Wallet :: string
  reg_ReferralCode :: string
  reg_LightningAddress :: string
  reg_RedeemThreshold :: int
  reg_FreeTierPct :: int
  reg_Version :: string

definition zero_reg :: RegisterPayload where
  "zero_reg = \<lparr>reg_NodeID = '''', reg_APIKey = '''', reg_GPU = '''', reg_GPUVendor = '''',
     reg_VRAMTotalMB = 0, reg_VRAMFreeMB = 0, reg_VRAMExact = False, reg_Models = None,
     reg_OllamaURL = '''', reg_Region = '''', reg_Wallet = '''', reg_ReferralCode = '''',
     reg_LightningAddress = '''', reg_RedeemThreshold = 0, reg_FreeTierPct = 0, reg_Version = ''''\<rparr>"

definition dec_register :: "RegisterPayload decoder" where
  "dec_register = dec_struct
     [(''node_id'', dec_field reg_NodeID (\<lambda>x r. r\<lparr>reg_NodeID := x\<rparr>) dec_string),
      (''api_key'', dec_field reg_APIKey (\<lambda>x r. r\<lparr>reg_APIKey := x\<rparr>) dec_string),
      (''gpu'', dec_field reg_GPU (\<lambda>x r. r\<lparr>reg_GPU := x\<rparr>) dec_string),
      (''gpu_vendor'', dec_field reg_GPUVendor (\<lambda>x r. r\<lparr>reg_GPUVendor := x\<rparr>) dec_string),
      (''vram_total_mb'', dec_field reg_VRAMTotalMB (\<lambda>x r. r\<lparr>reg_VRAMTotalMB := x\<rparr>) dec_int),
      (''vram_free_mb'', dec_field reg_VRAMFreeMB (\<lambda>x r. r\<lparr>reg_VRAMFreeMB := x\<rparr>) dec_int),
      (''vram_exact'', dec_field reg_VRAMExact (\<lambda>x r. r\<lparr>reg_VRAMExact := x\<rparr>) dec_bool),
      (''models'', dec_field reg_Models (\<lambda>x r. r\<lparr>reg_Models := x\<rparr>) dec_strings),
      (''ollama_url'', dec_field reg_OllamaURL (\<lambda>x r. r\<lparr>reg_OllamaURL := x\<rparr>) dec_string),
      (''region'', dec_field reg_Region (\<lambda>x r. r\<lparr>reg_Region := x\<rparr>) dec_string),
      (''wallet'', dec_field reg_Wallet (\<lambda>x r. r\<lparr>reg_Wallet := x\<rparr>) dec_string),
      (''referral_code'', dec_field reg_ReferralCode (\<lambda>x r. r\<lparr>reg_ReferralCode := x\<rparr>) dec_string),
      (''lightning_address'',
         dec_field reg_LightningAddress (\<lambda>x r. r\<lparr>reg_LightningAddress := x\<rparr>) dec_string),
      (''redeem_threshold_sats'',
         dec_field reg_RedeemThreshold (\<lambda>x r. r\<lparr>reg_RedeemThreshold := x\<rparr>) dec_int),
      (''free_tier_pct'', dec_field reg_FreeTierPct (\<lambda>x r. r\<lparr>reg_FreeTierPct := x\<rparr>) dec_int),
      (''version'', dec_field reg_Version (\<lambda>x r. r\<lparr>reg_Version := x\<rparr>) dec_string)]"

text \<open>A request: the method, the \<open>Authorization\<close> header, the path, the query, the body when it can be read.\<close>

record request =
  r_Method :: string
  r_Authorization :: string
  r_Path :: string
  r_api_key :: string
  r_Body :: "string option"

text \<open>A response: status and body.\<close>

type_synonym response = "int \<times> string"

definition node_of_reg :: "RegisterPayload \<Rightarrow> Node" where
  "node_of_reg reg = \<lparr>n_node_id = reg_NodeID reg, n_api_key = reg_APIKey reg, n_gpu = reg_GPU reg,
     n_gpu_vendor = reg_GPUVendor reg, n_vram_total_mb = reg_VRAMTotalMB reg,
     n_models = enc_strings (reg_Models reg), n_region = reg_Region reg,
     n_lightning_addr = reg_LightningAddress reg, n_redeem_threshold = reg_RedeemThreshold reg,
     n_free_tier_pct = reg_FreeTierPct reg, n_version = reg_Version reg, n_last_seen = zero_time\<rparr>"

definition threshold_error :: string where
  "threshold_error = ''{\"error\":\"redeem_threshold must be at least '' @ show_int minRedeemThresholdSats @ '' sats '' @
     em_dash @ '' lower values generate excessive Lightning network fees that may exceed the payout itself. '' @
     ''Please update your owlrun.conf and restart.\"}''"

definition HandleRegister :: "Gateway \<Rightarrow> env \<Rightarrow> request \<Rightarrow> Gateway \<times> response" where
  "HandleRegister g e r =
     (if r_Method r \<noteq> ''POST'' then (g, (405, ''method not allowed''))
      else if \<not> HasPrefix (r_Authorization r) ''Bearer '' then (g, (401, ''unauthorized''))
      else (let apiKey = TrimPrefix (r_Authorization r) ''Bearer '' in
        case r_Body r of
          None \<Rightarrow> (g, (400, ''bad request''))
        | Some body \<Rightarrow>
            (let (reg, err) = unmarshal dec_register body zero_reg in
             if err then (g, (400, ''invalid JSON''))
             else if reg_APIKey reg \<noteq> apiKey then (g, (403, ''key mismatch''))
             else if reg_LightningAddress reg \<noteq> '''' \<and> \<not> isValidLightningAddress (reg_LightningAddress reg)
               then (g, (400, ''invalid lightning address''))
             else if reg_RedeemThreshold reg < minRedeemThresholdSats
               then (g, (400, threshold_error))
             else (let (db', dberr) = RegisterNode (e_db e DbRegisterNode) (db g) (node_of_reg reg) (e_now e)
                   in (g\<lparr>db := db'\<rparr>,
                       if dberr \<noteq> None then (500, ''internal error'') else (201, ''''))))))"

section \<open>Connecting and disconnecting\<close>

text \<open>
  \<open>HandleWS\<close> up to the read loop: the new connection, when there is one. \<open>e_send e\<close> says whether the
  upgrade succeeds. A replaced connection is cancelled.
\<close>

definition new_conn :: "Node \<Rightarrow> NodeConn" where
  "new_conn node = \<lparr>nc_NodeID = n_node_id node, nc_APIKey = n_api_key node,
     nc_Models = (case fst (unmarshal dec_strings (n_models node) None) of None \<Rightarrow> [] | Some ms \<Rightarrow> ms),
     nc_VRAMTotalMB = n_vram_total_mb node, nc_VRAMFreeMB = 0, nc_GPUUtilPct = 0, nc_TempC = 0,
     nc_PowerW = Fin 0, nc_Region = n_region node, nc_QueueDepth = 0, nc_cancelled = False, nc_sent = []\<rparr>"

definition HandleWS_connect :: "Gateway \<Rightarrow> env \<Rightarrow> string \<Rightarrow> Gateway \<times> (response + nat)" where
  "HandleWS_connect g e apiKey =
     (if apiKey = '''' then (g, Inl (401, ''missing api_key''))
      else (case NodeByAPIKey (e_db e DbNodeByAPIKey) (db g) apiKey of
          Inl _ \<Rightarrow> (g, Inl (403, ''unknown api_key''))
        | Inr node \<Rightarrow>
            if \<not> e_send e then (g, Inl (400, ''upgrade failed''))
            else
              (let c = next_conn g;
                   old = nodes g (n_node_id node);
                   g1 = g\<lparr>conns := (conns g)(c \<mapsto> new_conn node), next_conn := Suc c,
                     nodes := (nodes g)(n_node_id node \<mapsto> c)\<rparr>;
                   g2 = (case old of None \<Rightarrow> g1 | Some o' \<Rightarrow> update_conn g1 o' (\<lambda>nc. nc\<lparr>nc_cancelled := True\<rparr>))
               in (g2, Inr c))))"

text \<open>The rest of \<open>HandleWS\<close>, when the read loop returns.\<close>

definition HandleWS_disconnect :: "Gateway \<Rightarrow> nat \<Rightarrow> Gateway" where
  "HandleWS_disconnect g c =
     (case conns g c of
        None \<Rightarrow> g
      | Some nc \<Rightarrow>
          (let g1 = (if nodes g (nc_NodeID nc) = Some c then g\<lparr>nodes := (nodes g)(nc_NodeID nc := None)\<rparr> else g)
           in update_conn g1 c (\<lambda>nc. nc\<lparr>nc_cancelled := True\<rparr>)))"

text \<open>
  A panic in the read loop: the HTTP server recovers it and the request's context is cancelled, but the
  clean-up after the loop is not deferred, so the map keeps the dead connection.
\<close>

definition ws_panicked :: "Gateway \<Rightarrow> nat \<Rightarrow> Gateway" where
  "ws_panicked g c = update_conn g c (\<lambda>nc. nc\<lparr>nc_cancelled := True\<rparr>)"

section \<open>The request proxy\<close>

definition HandleJobProxy :: "Gateway \<Rightarrow> env \<Rightarrow> request \<Rightarrow> response" where
  "HandleJobProxy g e r =
     (let k1 = TrimPrefix (r_Authorization r) ''Bearer '';
          apiKey = (if k1 = '''' then r_api_key r else k1);
          parts = Split (r_Path r) CHR ''/''
      in if apiKey = '''' then (401, ''unauthorized'')
         else if length parts < 6 then (400, ''invalid path'')
         else (case pendingJobs g (parts ! 4) of
             None \<Rightarrow> (404, ''job not found'')
           | Some job \<Rightarrow>
               (case NodeByAPIKey (e_db e DbNodeByAPIKey) (db g) apiKey of
                  Inl _ \<Rightarrow> (403, ''forbidden'')
                | Inr node \<Rightarrow>
                    if n_node_id node \<noteq> pj_NodeID job then (403, ''forbidden'')
                    else (200, pj_BuyerBody job))))"

definition HandleWithdraw :: response where
  "HandleWithdraw = (501, ''not implemented'')"

section \<open>Cleaning up old jobs\<close>

text \<open>
  One tick of \<open>jobCleanupLoop\<close>. First, with the lock held, the expired jobs are closed and removed in
  the order \<open>ids\<close>; then each is settled. A panic here, on \<open>NodeID[:8]\<close>, ends the process.
\<close>

definition expired_at :: "time \<Rightarrow> PendingJob \<Rightarrow> bool" where
  "expired_at now job \<longleftrightarrow> pj_StartedAt job < now - 600000000000"

fun remove_expired :: "Gateway \<Rightarrow> time \<Rightarrow> string list \<Rightarrow> Gateway \<times> PendingJob list \<times> bool" where
  "remove_expired g now [] = (g, [], False)"
| "remove_expired g now (k # ids) =
     (case pendingJobs g k of
        None \<Rightarrow> remove_expired g now ids
      | Some job \<Rightarrow>
          if \<not> expired_at now job then remove_expired g now ids
          else
            (let (g1, panic) = close_chan g (pj_DoneCh job)
             in if panic then (g1, [], True)
                else (let (g2, js, p) = remove_expired (g1\<lparr>pendingJobs := (pendingJobs g1)(k := None)\<rparr>) now ids
                      in (g2, job # js, p))))"

definition settle_expired :: "Gateway \<Rightarrow> env \<Rightarrow> PendingJob \<Rightarrow> Gateway \<times> bool" where
  "settle_expired g e job =
     (let g1 = decrUserJobs g (pj_UserKey job);
          ((tokensIn, tokensOut), grossUSD, providerMsats, feeMsats) =
            meter_job (bill g1) (pj_Model job) (pj_LastChunk job);
          g2 = (if wrap64 (tokensIn + tokensOut) > 0
                then fst (record_job g1 e job tokensIn tokensOut providerMsats feeMsats) else g1)
      in (g2, length (pj_NodeID job) < 8))"

fun settle_all :: "Gateway \<Rightarrow> env \<Rightarrow> PendingJob list \<Rightarrow> Gateway \<times> bool" where
  "settle_all g e [] = (g, False)"
| "settle_all g e (job # js) =
     (let (g1, panic) = settle_expired g e job in if panic then (g1, True) else settle_all g1 e js)"

definition cleanup_tick :: "Gateway \<Rightarrow> env \<Rightarrow> Gateway \<times> bool" where
  "cleanup_tick g e =
     (let (g1, expired, panic) = remove_expired g (e_now e) (e_order e)
      in if panic then (g1, True) else settle_all g1 e expired)"

section \<open>Snapshots\<close>

definition GetNode :: "Gateway \<Rightarrow> string \<Rightarrow> nat option" where
  "GetNode g nodeID = nodes g nodeID"

definition ConnectedNodes :: "Gateway \<Rightarrow> int" where
  "ConnectedNodes g = int (card (dom (nodes g)))"

definition LiveNodes :: "Gateway \<Rightarrow> string list \<Rightarrow> nat list" where
  "LiveNodes g ks = range_map ks (nodes g)"

definition node_info :: "NodeConn \<Rightarrow> NodeInfo" where
  "node_info nc = \<lparr>NodeID = nc_NodeID nc, Models = nc_Models nc, VRAMFreeMB = nc_VRAMFreeMB nc,
     Region = nc_Region nc, QueueDepth = nc_QueueDepth nc\<rparr>"

definition LiveNodeInfos :: "Gateway \<Rightarrow> string list \<Rightarrow> NodeInfo list" where
  "LiveNodeInfos g ks = map node_info (List.map_filter (conns g) (range_map ks (nodes g)))"

section \<open>Steps\<close>

text \<open>
  Everything that happens to a gateway, a handler being one step, \<open>AssignJob\<close> with its write to the WebSocket
  included; \<open>Interleave\<close> and \<open>Charges\<close> look at what comes between the parts of a handler. A buyer takes a chunk from a response channel; the billing
  engine's price tracker fetches; the other users of the database (the API, the payout engine, the
  invoice watcher) make an operation on it.
\<close>

datatype gw_event =
  EvRegister env request
| EvConnect env string
| EvDisconnect nat
| EvMessage env nat WSMsg
| EvPing nat bool
| EvAssign env string string string string string bool
| EvCleanup env
| EvReceive nat
| EvFetchPrice "string option"
| EvDatabase db_op

definition receive :: "Gateway \<Rightarrow> nat \<Rightarrow> Gateway" where
  "receive g ch = (case chans g ch of None \<Rightarrow> g
     | Some c \<Rightarrow> g\<lparr>chans := (chans g)(ch \<mapsto> c\<lparr>buffer := tl (buffer c)\<rparr>)\<rparr>)"

fun gw_exec :: "Gateway \<Rightarrow> gw_event \<Rightarrow> Gateway \<times> bool" where
  "gw_exec g (EvRegister e r) = (fst (HandleRegister g e r), False)"
| "gw_exec g (EvConnect e k) = (fst (HandleWS_connect g e k), False)"
| "gw_exec g (EvDisconnect c) = (HandleWS_disconnect g c, False)"
| "gw_exec g (EvMessage e c m) =
     (let (g', panic) = handle_msg g e c m in (if panic then ws_panicked g' c else g', False))"
| "gw_exec g (EvPing c ok) = (ping g c ok, False)"
| "gw_exec g (EvAssign e n j m k b f) = (fst (AssignJob g e n j m k b f), False)"
| "gw_exec g (EvCleanup e) = cleanup_tick g e"
| "gw_exec g (EvReceive ch) = (receive g ch, False)"
| "gw_exec g (EvFetchPrice resp) = (g\<lparr>bill := (bill g)\<lparr>prices := fetch resp (prices (bill g))\<rparr>\<rparr>, False)"
| "gw_exec g (EvDatabase op) = (g\<lparr>db := db_step (db g) op\<rparr>, False)"

text \<open>
  What the surroundings see to: job ids are fresh (they are random UUIDs), a range over the pending
  jobs visits each once, the price service quotes a bitcoin at a dollar or more when it quotes it,
  and the other users of the database keep to its contract and do not record jobs or draw on
  balances, which only the gateway does. A step that ends the process is not followed by another.
\<close>

fun shared_op :: "db_op \<Rightarrow> bool" where
  "shared_op (OpRecordJob d j t t') = False"
| "shared_op (OpDeductBalance d k a) = False"
| "shared_op _ = True"

definition priced :: "Engine \<Rightarrow> bool" where
  "priced b \<longleftrightarrow> BtcPrice b \<le> Fin 0 \<or> good_btc (BtcPrice b)"

fun ev_ok :: "Gateway \<Rightarrow> gw_event \<Rightarrow> bool" where
  "ev_ok g (EvAssign e n j m k b f) = (pendingJobs g j = None)"
| "ev_ok g (EvCleanup e) = enumerates (e_order e) (pendingJobs g)"
| "ev_ok g (EvFetchPrice resp) = priced ((bill g)\<lparr>prices := fetch resp (prices (bill g))\<rparr>)"
| "ev_ok g (EvDatabase op) = (shared_op op \<and> op_ok (db g) op)"
| "ev_ok g _ = True"

inductive gw_step :: "Gateway \<Rightarrow> gw_event \<Rightarrow> Gateway \<Rightarrow> bool" where
  step: "ev_ok g ev \<Longrightarrow> gw_exec g ev = (g', False) \<Longrightarrow> gw_step g ev g'"

inductive_cases gw_stepE: "gw_step g ev g'"

inductive reachable :: "DB \<Rightarrow> Engine \<Rightarrow> Gateway \<Rightarrow> bool" for d0 b0 where
  start: "reachable d0 b0 (New_gateway d0 b0)"
| step: "reachable d0 b0 g \<Longrightarrow> gw_step g ev g' \<Longrightarrow> reachable d0 b0 g'"

end
