(* ===== verification/RateLimit.thy ===== *)
theory RateLimit
  imports Prelude
begin

text \<open>
  \<open>internal/gateway/middleware.go\<close>: the per-address rate limiter and the handler that applies it. The
  limiter keeps, for each address, the times of the accepted requests that may still count
  (\<open>requests\<close>); the same sliding window is written out again for registrations in
  \<open>internal/api/api.go\<close>, so its laws are the locale \<open>sliding_window\<close>, with the bound on accepted requests
  proved once inside it. The in-place filtering of \<open>reqs[:0]\<close> never shows: the old slice is dropped.
\<close>

section \<open>The limiter\<close>

record RateLimiter =
  requests :: "string \<rightharpoonup> time list"
  limit :: int
  window :: time

definition NewRateLimiter :: "int \<Rightarrow> time \<Rightarrow> RateLimiter" where
  "NewRateLimiter l w = \<lparr>requests = Map.empty, limit = l, window = w\<rparr>"

text \<open>The loop that keeps the entries after the cutoff; a missing map entry reads as no entries.\<close>

fun prune :: "time \<Rightarrow> time list \<Rightarrow> time list" where
  "prune cutoff [] = []"
| "prune cutoff (t # ts) = (if cutoff < t then t # prune cutoff ts else prune cutoff ts)"

definition entries_of :: "(string \<rightharpoonup> time list) \<Rightarrow> string \<Rightarrow> time list" where
  "entries_of m ip = (case m ip of None \<Rightarrow> [] | Some ts \<Rightarrow> ts)"

definition Allow :: "RateLimiter \<Rightarrow> string \<Rightarrow> time \<Rightarrow> RateLimiter \<times> bool" where
  "Allow rl ip now =
     (let cutoff = now - window rl;
          valid = prune cutoff (entries_of (requests rl) ip)
      in if int (length valid) \<ge> limit rl then (rl\<lparr>requests := (requests rl)(ip \<mapsto> valid)\<rparr>, False)
         else (rl\<lparr>requests := (requests rl)(ip \<mapsto> valid @ [now])\<rparr>, True))"

text \<open>The body of the loop over the addresses, in the order \<open>ips\<close> the map is visited in.\<close>

definition prune_entry :: "time \<Rightarrow> string \<Rightarrow> (string \<rightharpoonup> time list) \<Rightarrow> (string \<rightharpoonup> time list)" where
  "prune_entry cutoff ip m =
     (case m ip of
        None \<Rightarrow> m
      | Some reqs \<Rightarrow>
          (let valid = prune cutoff reqs in if valid = [] then m(ip := None) else m(ip \<mapsto> valid)))"

definition cleanup :: "RateLimiter \<Rightarrow> string list \<Rightarrow> time \<Rightarrow> RateLimiter" where
  "cleanup rl ips now =
     rl\<lparr>requests := fold (prune_entry (now - window rl)) ips (requests rl)\<rparr>"

section \<open>The middleware\<close>

record http_request =
  Path :: string
  RemoteAddr :: string
  XRealIp :: string
  HasBody :: bool

text \<open>
  What the wrapped handler gets: the limit put on the request body, when there is one, and the
  headers set before it runs.
\<close>

datatype served =
  Next (body_limit: "int option") (headers: "(string \<times> string) list")
| HttpError int string

definition exempt :: "string \<Rightarrow> bool" where
  "exempt path \<longleftrightarrow>
     path = ''/'' \<or> path = ''/v1/models'' \<or> path = ''/v1/stats'' \<or> path = ''/v1/audit'' \<or>
     HasPrefix path ''/docs/'' \<or> HasPrefix path ''/locales/'' \<or>
     HasSuffix path ''.svg'' \<or> HasSuffix path ''.png'' \<or> HasSuffix path ''.css'' \<or>
     HasSuffix path ''.js'' \<or> HasSuffix path ''.json''"

definition client_ip :: "http_request \<Rightarrow> string" where
  "client_ip r = (if XRealIp r \<noteq> '''' then XRealIp r else RemoteAddr r)"

definition SecurityMiddleware ::
  "RateLimiter \<Rightarrow> int \<Rightarrow> http_request \<Rightarrow> time \<Rightarrow> RateLimiter \<times> served" where
  "SecurityMiddleware rl maxBodyBytes r now =
     (if exempt (Path r) then (rl, Next None [])
      else
        (let (rl', allowed) = Allow rl (client_ip r) now
         in if \<not> allowed then (rl', HttpError 429 ''{\"error\":{\"message\":\"rate limit exceeded\"}}'')
            else (rl',
              Next (if HasBody r \<and> maxBodyBytes > 0 then Some maxBodyBytes else None)
                [(''X-Content-Type-Options'', ''nosniff''), (''X-Frame-Options'', ''DENY'')])))"

section \<open>The sliding window\<close>

lemma prune_filter: "prune c ts = filter (\<lambda>t. c < t) ts"
  by (induction ts) auto

lemma prune_append [simp]: "prune c (ts @ us) = prune c ts @ prune c us"
  by (simp add: prune_filter)

lemma prune_prune [simp]: "c' \<le> c \<Longrightarrow> prune c (prune c' ts) = prune c ts"
  unfolding prune_filter by (induction ts) auto

lemma prune_length_mono: "c' \<le> c \<Longrightarrow> length (prune c ts) \<le> length (prune c' ts)"
  unfolding prune_filter by (induction ts) auto

text \<open>
  A run of the limiter: calls, each with the time it reads for the cutoff and the time it stamps
  the request with, and sweeps. The log is the accepted requests, in order.
\<close>

datatype window_event = Call string time time | Sweep "string list" time

type_synonym 's allow_op = "'s \<Rightarrow> string \<Rightarrow> time \<Rightarrow> time \<Rightarrow> 's \<times> bool"
type_synonym 's sweep_op = "'s \<Rightarrow> string list \<Rightarrow> time \<Rightarrow> 's"

fun window_run ::
  "'s allow_op \<Rightarrow> 's sweep_op \<Rightarrow> 's \<Rightarrow> window_event list \<Rightarrow> 's \<times> (string \<times> time) list" where
  "window_run allow sweep s [] = (s, [])"
| "window_run allow sweep s (Call ip now stamp # es) =
     (let (s1, ok) = allow s ip now stamp; (s2, accepted) = window_run allow sweep s1 es
      in (s2, (if ok then [(ip, stamp)] else []) @ accepted))"
| "window_run allow sweep s (Sweep ips now # es) = window_run allow sweep (sweep s ips now) es"

fun event_times :: "window_event \<Rightarrow> time list" where
  "event_times (Call ip now stamp) = [now, stamp]"
| "event_times (Sweep ips now) = [now]"

text \<open>The clock is monotonic: calls and sweeps hold the limiter's lock, so they read it in order.\<close>

definition clocked :: "window_event list \<Rightarrow> bool" where
  "clocked es \<longleftrightarrow> sorted (concat (map event_times es))"

definition read_by :: "(time \<Rightarrow> time \<Rightarrow> bool) \<Rightarrow> window_event list \<Rightarrow> bool" where
  "read_by reads es \<longleftrightarrow> (\<forall>e\<in>set es. case e of Call ip now stamp \<Rightarrow> reads now stamp | Sweep ips now \<Rightarrow> True)"

lemma read_by_simps [simp]:
  "read_by reads []"
  "read_by reads (Call ip now stamp # es) \<longleftrightarrow> reads now stamp \<and> read_by reads es"
  "read_by reads (Sweep ips now # es) \<longleftrightarrow> read_by reads es"
  "read_by reads (es @ fs) \<longleftrightarrow> read_by reads es \<and> read_by reads fs"
  by (auto simp: read_by_def)

definition stamps :: "string \<Rightarrow> (string \<times> time) list \<Rightarrow> time list" where
  "stamps ip accepted = map snd (filter (\<lambda>a. fst a = ip) accepted)"

lemma stamps_simps [simp]:
  "stamps ip [] = []"
  "stamps ip ((i, t) # as) = (if i = ip then t # stamps ip as else stamps ip as)"
  "stamps ip (as @ bs) = stamps ip as @ stamps ip bs"
  by (simp_all add: stamps_def)

lemma window_run_append:
  "window_run allow sweep s (es @ fs) =
     (let (s1, as) = window_run allow sweep s es; (s2, bs) = window_run allow sweep s1 fs
      in (s2, as @ bs))"
proof (induction es arbitrary: s)
  case (Cons e es)
  then show ?case by (cases e) (simp_all add: split_beta Let_def)
qed (simp add: split_beta)

lemma window_run_Call:
  "window_run allow sweep s (Call ip now stamp # es) = (s', as) \<longleftrightarrow>
   (\<exists>bs. window_run allow sweep (fst (allow s ip now stamp)) es = (s', bs) \<and>
      as = (if snd (allow s ip now stamp) then [(ip, stamp)] else []) @ bs)"
  by (auto simp: split_beta Let_def prod_eq_iff)

lemma length_filter_mono: "(\<And>x. P x \<Longrightarrow> Q x) \<Longrightarrow> length (filter P xs) \<le> length (filter Q xs)"
  by (induction xs) (auto intro: le_SucI)

locale sliding_window =
  fixes lim :: "'s \<Rightarrow> int" and win :: "'s \<Rightarrow> time"
    and entries :: "'s \<Rightarrow> string \<Rightarrow> time list"
    and allow :: "'s allow_op" and sweep :: "'s sweep_op"
    and reads :: "time \<Rightarrow> time \<Rightarrow> bool"
  assumes allow_decides:
      "snd (allow s ip now stamp) \<longleftrightarrow> int (length (prune (now - win s) (entries s ip))) < lim s"
    and allow_entries:
      "reads now stamp \<Longrightarrow> now - win s \<le> c \<Longrightarrow>
       prune c (entries (fst (allow s ip now stamp)) ip') =
       prune c (entries s ip' @ (if ip' = ip \<and> snd (allow s ip now stamp) then [stamp] else []))"
    and sweep_entries:
      "now - win s \<le> c \<Longrightarrow> prune c (entries (sweep s ips now) ip) = prune c (entries s ip)"
    and allow_config: "lim (fst (allow s ip now stamp)) = lim s" "win (fst (allow s ip now stamp)) = win s"
    and sweep_config: "lim (sweep s ips now) = lim s" "win (sweep s ips now) = win s"
begin

lemma run_config:
  "window_run allow sweep s es = (s', as) \<Longrightarrow> lim s' = lim s \<and> win s' = win s"
proof (induction es arbitrary: s as)
  case (Cons e es)
  then show ?case
    by (cases e) (auto simp: split_beta Let_def allow_config sweep_config split: prod.splits,
      (metis allow_config fst_conv prod.collapse)+)
qed simp

text \<open>The entries an address still has, against the log of what was accepted.\<close>

lemma run_entries:
  assumes "window_run allow sweep s es = (s', as)"
    and "\<forall>t\<in>set (concat (map event_times es)). t - win s \<le> c" "read_by reads es"
  shows "prune c (entries s' ip) = prune c (entries s ip @ stamps ip as)"
  using assms
proof (induction es arbitrary: s as)
  case (Cons e es)
  show ?case
  proof (cases e)
    case (Call i now stamp)
    obtain bs where r: "window_run allow sweep (fst (allow s i now stamp)) es = (s', bs)"
      and as: "as = (if snd (allow s i now stamp) then [(i, stamp)] else []) @ bs"
      using Cons.prems(1) unfolding Call window_run_Call by blast
    have "prune c (entries s' ip) = prune c (entries (fst (allow s i now stamp)) ip @ stamps ip bs)"
      using Cons.IH [OF r] Cons.prems(2,3) Call by (simp add: allow_config)
    then show ?thesis using allow_entries [of now stamp s c i ip] Cons.prems(2,3) Call as by auto
  next
    case (Sweep ips now)
    then show ?thesis
      using Cons.IH [of "sweep s ips now" as] Cons.prems sweep_entries [of now s c ips ip]
      by (simp add: sweep_config)
  qed
qed simp

text \<open>The decision on the next request is a function of the requests accepted so far.\<close>

lemma decision:
  assumes "window_run allow sweep s es = (s', as)" "entries s ip = []"
    and "clocked (es @ [Call ip now stamp])" "read_by reads es"
  shows "snd (allow s' ip now stamp) \<longleftrightarrow>
    int (length (filter (\<lambda>t. now - win s < t) (stamps ip as))) < lim s"
proof -
  have "\<forall>t\<in>set (concat (map event_times es)). t \<le> now"
    using assms(3) by (auto simp: clocked_def sorted_append)
  then have "prune (now - win s) (entries s' ip) = prune (now - win s) (stamps ip as)"
    using run_entries [OF assms(1), of "now - win s" ip] assms(2,4) by auto
  then show ?thesis using run_config [OF assms(1)] by (simp add: allow_decides prune_filter)
qed

text \<open>At most \<open>lim\<close> requests of an address are accepted in any window of length \<open>win\<close>.\<close>

lemma window_bound:
  assumes "window_run allow sweep s es = (s', as)" "entries s ip = []" "clocked es" "read_by reads es"
  shows "int (length (filter (\<lambda>t. u - win s < t \<and> t \<le> u) (stamps ip as))) \<le> max 0 (lim s)"
  using assms
proof (induction es arbitrary: s' as rule: rev_induct)
  case (snoc e es)
  obtain s1 bs where r: "window_run allow sweep s es = (s1, bs)" by force
  have c: "clocked es" using snoc.prems by (simp add: clocked_def sorted_append)
  have b: "read_by reads es" using snoc.prems by simp
  note IH = snoc.IH [OF r snoc.prems(2) c b]
  show ?case
  proof (cases "stamps ip as = stamps ip bs")
    case True
    then show ?thesis using IH by simp
  next
    case False
    then obtain now stamp where e: "e = Call ip now stamp" "snd (allow s1 ip now stamp)"
      and as: "stamps ip as = stamps ip bs @ [stamp]"
      using snoc.prems(1) r
      by (cases e) (auto simp: window_run_append split_beta Let_def split: if_splits)
    show ?thesis
    proof (cases "stamp \<le> u")
      case True
      have "now \<le> stamp" using snoc.prems(3) e by (simp add: clocked_def sorted_append)
      have "length (filter (\<lambda>t. u - win s < t \<and> t \<le> u) (stamps ip bs)) \<le>
          length (filter (\<lambda>t. u - win s < t) (stamps ip bs))"
        by (rule length_filter_mono) simp
      moreover have "length (filter (\<lambda>t. u - win s < t) (stamps ip bs)) \<le>
          length (filter (\<lambda>t. now - win s < t) (stamps ip bs))"
        by (rule length_filter_mono) (use True \<open>now \<le> stamp\<close> in simp)
      moreover have "int (length (filter (\<lambda>t. now - win s < t) (stamps ip bs))) < lim s"
        using decision [OF r snoc.prems(2) _ b] snoc.prems(3) e by simp
      ultimately have "int (length (filter (\<lambda>t. u - win s < t \<and> t \<le> u) (stamps ip bs))) < lim s"
        by linarith
      then show ?thesis unfolding as by simp
    next
      case False
      then show ?thesis using IH as by simp
    qed
  qed
qed simp

end


section \<open>The limiter is a sliding window\<close>

lemma prune_empty: "prune cutoff ts = [] \<Longrightarrow> cutoff \<le> c \<Longrightarrow> prune c ts = []"
  by (auto simp: prune_filter filter_empty_conv)

lemma entries_of_prune_entry:
  assumes "cutoff \<le> c"
  shows "prune c (entries_of (prune_entry cutoff ip' m) ip) = prune c (entries_of m ip)"
proof (cases "ip = ip'")
  case True
  then show ?thesis
    using assms prune_empty [OF _ assms]
    by (auto simp: prune_entry_def entries_of_def Let_def split: option.splits)
next
  case False
  then show ?thesis by (simp add: prune_entry_def entries_of_def Let_def split: option.split)
qed

lemma entries_of_sweep:
  "cutoff \<le> c \<Longrightarrow>
    prune c (entries_of (fold (prune_entry cutoff) ips m) ip) = prune c (entries_of m ip)"
  by (induction ips arbitrary: m) (simp_all add: entries_of_prune_entry)

lemma entries_of_upd [simp]: "entries_of (m(ip \<mapsto> ts)) ip' = (if ip' = ip then ts else entries_of m ip')"
  by (simp add: entries_of_def)

abbreviation limiter_allow :: "RateLimiter allow_op" where
  "limiter_allow rl ip now stamp \<equiv> Allow rl ip now"

interpretation limiter: sliding_window limit window "\<lambda>rl. entries_of (requests rl)"
  limiter_allow cleanup "(=)"
proof unfold_locales
  fix s ip now c stamp ips ip'
  show "snd (Allow s ip now) \<longleftrightarrow> int (length (prune (now - window s) (entries_of (requests s) ip))) < limit s"
    by (auto simp: Allow_def Let_def)
  show "prune c (entries_of (requests (fst (Allow s ip now))) ip') =
      prune c (entries_of (requests s) ip' @ (if ip' = ip \<and> snd (Allow s ip now) then [stamp] else []))"
    if "now = stamp" "now - window s \<le> c"
    using that by (auto simp: Allow_def Let_def)
  show "prune c (entries_of (requests (cleanup s ips now)) ip) = prune c (entries_of (requests s) ip)"
    if "now - window s \<le> c"
    using that by (simp add: cleanup_def entries_of_sweep)
qed (auto simp: Allow_def cleanup_def Let_def)

section \<open>Properties of the limiter and the middleware\<close>

text \<open>
  C15: whatever the requests before it and whenever the clean-up ran, a request is let through exactly
  when fewer than \<open>l\<close> requests from its address were let through in the window before it. Refused
  requests, other addresses and the clean-up have no influence.
\<close>

theorem Allow_exact:
  assumes "window_run limiter_allow cleanup (NewRateLimiter l w) es = (rl, accepted)"
    and "clocked (es @ [Call ip now now])" "read_by (=) es"
  shows "snd (Allow rl ip now) \<longleftrightarrow>
    int (length (filter (\<lambda>t. now - w < t) (stamps ip accepted))) < l"
  using limiter.decision [OF assms(1) _ assms(2,3)] by (simp add: NewRateLimiter_def entries_of_def)

theorem Allow_exact_witness:
  "\<exists>rl. \<not> snd (Allow rl ''a'' 25) \<and>
     fst (window_run limiter_allow cleanup (NewRateLimiter 2 20)
       [Call ''a'' 1 1, Call ''a'' 10 10, Call ''b'' 11 11, Sweep [''b'', ''a''] 22, Call ''a'' 24 24]) = rl"
proof -
  let ?es = "[Call ''a'' 1 1, Call ''a'' 10 10, Call ''b'' 11 11, Sweep [''b'', ''a''] 22, Call ''a'' 24 24]"
  obtain rl where rl: "window_run limiter_allow cleanup (NewRateLimiter 2 20) ?es =
      (rl, [(''a'', 1), (''a'', 10), (''b'', 11), (''a'', 24)])"
    by (simp add: Allow_def NewRateLimiter_def entries_of_def cleanup_def prune_entry_def Let_def)
  have "\<not> snd (Allow rl ''a'' 25)"
    using Allow_exact [OF rl, of "''a''" 25] by (simp add: clocked_def)
  then show ?thesis using rl by auto
qed

text \<open>Requests served by the middleware, other than the exempt paths, and by whom.\<close>

fun serve_all ::
  "RateLimiter \<Rightarrow> int \<Rightarrow> (http_request \<times> time) list \<Rightarrow> RateLimiter \<times> (string \<times> time) list" where
  "serve_all rl maxBodyBytes [] = (rl, [])"
| "serve_all rl maxBodyBytes ((r, now) # rs) =
     (let (rl1, out) = SecurityMiddleware rl maxBodyBytes r now;
          (rl2, log) = serve_all rl1 maxBodyBytes rs
      in (rl2, (case out of
                  Next b h \<Rightarrow> if exempt (Path r) then [] else [(client_ip r, now)]
                | HttpError c m \<Rightarrow> []) @ log))"

lemma serve_all_run:
  "serve_all rl n rs =
     window_run limiter_allow cleanup rl
       (map (\<lambda>(r, now). Call (client_ip r) now now) (filter (\<lambda>(r, now). \<not> exempt (Path r)) rs))"
  by (induction rl n rs rule: serve_all.induct)
     (auto simp: SecurityMiddleware_def split_beta Let_def)

text \<open>
  In any window of length \<open>w\<close>, at most \<open>l\<close> requests of one client address reach the handlers behind
  the middleware, the exempt paths apart.
\<close>

theorem middleware_bound:
  assumes "serve_all (NewRateLimiter l w) n rs = (rl, log)" "sorted (map snd rs)"
  shows "int (length (filter (\<lambda>t. u - w < t \<and> t \<le> u) (stamps ip log))) \<le> max 0 l"
proof -
  let ?es = "map (\<lambda>(r, now). Call (client_ip r) now now) (filter (\<lambda>(r, now). \<not> exempt (Path r)) rs)"
  have "clocked ?es"
    using assms(2) by (induction rs) (fastforce simp: clocked_def)+
  moreover have "read_by (=) ?es" by (auto simp: read_by_def)
  ultimately show ?thesis
    using limiter.window_bound [OF assms(1) [unfolded serve_all_run], of ip u]
    by (simp add: NewRateLimiter_def entries_of_def)
qed

theorem middleware_bound_witness:
  "length (filter (\<lambda>t. 0 < t \<and> t \<le> 20) (stamps ''a''
     (snd (serve_all (NewRateLimiter 1 20) 100
       [(\<lparr>Path = ''/v1/x'', RemoteAddr = ''a'', XRealIp = '''', HasBody = True\<rparr>, 1),
        (\<lparr>Path = ''/v1/x'', RemoteAddr = ''a'', XRealIp = '''', HasBody = True\<rparr>, 2)])))) \<le> 1"
  using middleware_bound [OF prod.collapse [symmetric], where l = 1 and w = 20 and n = 100 and rs =
    "[(\<lparr>Path = ''/v1/x'', RemoteAddr = ''a'', XRealIp = '''', HasBody = True\<rparr>, 1),
      (\<lparr>Path = ''/v1/x'', RemoteAddr = ''a'', XRealIp = '''', HasBody = True\<rparr>, 2)]" and u = 20 and ip = "''a''"]
  by simp

text \<open>
  What reaches the handlers either is on an exempt path, with nothing added, or carries the
  security headers and, when it has a body, the limit on its length; nothing else is served, and a
  refusal is always status 429.
\<close>

theorem SecurityMiddleware_served:
  assumes "0 < n" "SecurityMiddleware rl n r now = (rl', out)"
  shows "(exempt (Path r) \<and> out = Next None [] \<and> rl' = rl) \<or>
    (\<not> exempt (Path r) \<and> (rl', (\<exists>b h. out = Next b h)) = Allow rl (client_ip r) now \<and>
      (case out of
         Next b h \<Rightarrow> (HasBody r \<longrightarrow> b = Some n) \<and>
           set h = {(''X-Content-Type-Options'', ''nosniff''), (''X-Frame-Options'', ''DENY'')}
       | HttpError c m \<Rightarrow> c = 429))"
  using assms by (auto simp: SecurityMiddleware_def split_beta prod_eq_iff split: if_splits)

theorem SecurityMiddleware_served_witness:
  "body_limit (snd (SecurityMiddleware (NewRateLimiter 1 20) 100
      \<lparr>Path = ''/v1/x'', RemoteAddr = ''a'', XRealIp = '''', HasBody = True\<rparr> 1)) = Some 100"
  using SecurityMiddleware_served [OF _ prod.collapse [symmetric], where n = 100 and
      rl = "NewRateLimiter 1 20" and r =
      "\<lparr>Path = ''/v1/x'', RemoteAddr = ''a'', XRealIp = '''', HasBody = True\<rparr>" and now = 1]
  by (auto simp: exempt_def HasPrefix_def HasSuffix_def client_ip_def Allow_def NewRateLimiter_def
      entries_of_def Let_def split: served.splits)

end
