(* ===== verification/Encoding.thy ===== *)
theory Encoding
  imports Json
begin

text \<open>
  The encodings of \<open>internal/lightning/lightning.go\<close>: \<open>b64ToHex\<close> and \<open>hexToB64URL\<close>, with the functions of
  Go's packages \<open>encoding/hex\<close>, \<open>encoding/base64\<close> and \<open>fmt\<close> they and the LND client use. A decoder returns
  the bytes it decoded before it failed and whether it failed. The base64 decoders skip \<open>\r\<close> and \<open>\n\<close>, as
  Go's do, and ignore the unused bits of the last character.
\<close>

section \<open>Hexadecimal\<close>

fun hex_encode :: "string \<Rightarrow> string" where
  "hex_encode [] = []"
| "hex_encode (c # s) = hex_digit (code c div 16) # hex_digit (code c mod 16) # hex_encode s"

fun hex_decode :: "string \<Rightarrow> string \<times> bool" where
  "hex_decode [] = ([], False)"
| "hex_decode [a] = ([], True)"
| "hex_decode (a # b # s) =
     (case hex_val a of
        None \<Rightarrow> ([], True)
      | Some x \<Rightarrow>
          (case hex_val b of
             None \<Rightarrow> ([], True)
           | Some y \<Rightarrow> apfst ((#) (byte (16 * x + y))) (hex_decode s)))"

section \<open>Base64\<close>

text \<open>The alphabets: standard, and the URL-safe one (\<open>url\<close>).\<close>

definition b64_char :: "bool \<Rightarrow> nat \<Rightarrow> char" where
  "b64_char url n =
     (if n < 26 then byte (65 + n) else if n < 52 then byte (71 + n) else if n < 62 then byte (n - 4)
      else if n = 62 then (if url then CHR ''-'' else CHR ''+'') else (if url then CHR ''_'' else CHR ''/''))"

definition b64_val :: "bool \<Rightarrow> char \<Rightarrow> nat option" where
  "b64_val url c =
     (let n = code c
      in if 65 \<le> n \<and> n \<le> 90 then Some (n - 65) else if 97 \<le> n \<and> n \<le> 122 then Some (n - 71)
         else if 48 \<le> n \<and> n \<le> 57 then Some (n + 4)
         else if c = (if url then CHR ''-'' else CHR ''+'') then Some 62
         else if c = (if url then CHR ''_'' else CHR ''/'') then Some 63 else None)"

text \<open>\<open>StdEncoding\<close> is \<open>url = False\<close>, \<open>pad = True\<close>; \<open>RawURLEncoding\<close> is \<open>url = True\<close>, \<open>pad = False\<close>.\<close>

fun b64_encode :: "bool \<Rightarrow> bool \<Rightarrow> string \<Rightarrow> string" where
  "b64_encode url pad [] = []"
| "b64_encode url pad [a] =
     [b64_char url (code a div 4), b64_char url (code a mod 4 * 16)] @ (if pad then ''=='' else [])"
| "b64_encode url pad [a, b] =
     [b64_char url (code a div 4), b64_char url (code a mod 4 * 16 + code b div 16),
      b64_char url (code b mod 16 * 4)] @ (if pad then ''='' else [])"
| "b64_encode url pad (a # b # c # s) =
     [b64_char url (code a div 4), b64_char url (code a mod 4 * 16 + code b div 16),
      b64_char url (code b mod 16 * 4 + code c div 64), b64_char url (code c mod 64)]
     @ b64_encode url pad s"

definition byte1 :: "nat \<Rightarrow> nat \<Rightarrow> char" where "byte1 w x = byte (w * 4 + x div 16)"
definition byte2 :: "nat \<Rightarrow> nat \<Rightarrow> char" where "byte2 x y = byte (x mod 16 * 16 + y div 4)"
definition byte3 :: "nat \<Rightarrow> nat \<Rightarrow> char" where "byte3 y z = byte (y mod 4 * 64 + z)"

text \<open>One quantum at a time; padding or the end of the text ends the last one.\<close>

fun b64_quanta :: "bool \<Rightarrow> bool \<Rightarrow> string \<Rightarrow> string \<times> bool" where
  "b64_quanta url pad [] = ([], False)"
| "b64_quanta url pad [a] = ([], True)"
| "b64_quanta url pad [a, b] =
     (case (b64_val url a, b64_val url b) of
        (Some w, Some x) \<Rightarrow> if pad then ([], True) else ([byte1 w x], False)
      | _ \<Rightarrow> ([], True))"
| "b64_quanta url pad [a, b, c] =
     (case (b64_val url a, b64_val url b, b64_val url c) of
        (Some w, Some x, Some y) \<Rightarrow> if pad then ([], True) else ([byte1 w x, byte2 x y], False)
      | _ \<Rightarrow> ([], True))"
| "b64_quanta url pad (a # b # c # d # s) =
     (case (b64_val url a, b64_val url b) of
        (Some w, Some x) \<Rightarrow>
          (case b64_val url c of
             None \<Rightarrow> if pad \<and> c = CHR ''='' \<and> d = CHR ''='' then ([byte1 w x], s \<noteq> []) else ([], True)
           | Some y \<Rightarrow>
               (case b64_val url d of
                  None \<Rightarrow> if pad \<and> d = CHR ''='' then ([byte1 w x, byte2 x y], s \<noteq> []) else ([], True)
                | Some z \<Rightarrow> apfst ((@) [byte1 w x, byte2 x y, byte3 y z]) (b64_quanta url pad s)))
      | _ \<Rightarrow> ([], True))"

definition b64_decode :: "bool \<Rightarrow> bool \<Rightarrow> string \<Rightarrow> string \<times> bool" where
  "b64_decode url pad s = b64_quanta url pad (filter (\<lambda>c. code c \<noteq> 10 \<and> code c \<noteq> 13) s)"

section \<open>Conversions\<close>

definition b64ToHex :: "string \<Rightarrow> string" where
  "b64ToHex s =
     (let (b, err) = b64_decode True False s;
          b' = (if err then fst (b64_decode False True s) else b)
      in hex_encode b')"

definition hexToB64URL :: "string \<Rightarrow> string" where
  "hexToB64URL s = b64_encode True False (fst (hex_decode s))"

section \<open>Decimal numbers\<close>

text \<open>The verb \<open>%d\<close> of \<open>fmt\<close>, scanning. A scan that fails leaves the variable at 0.\<close>

definition Sscanf_d :: "string \<Rightarrow> int64" where
  "Sscanf_d s =
     (let t = strip_front (length s) (removeAll [newline] space_runes) s;
          (neg, u) = (case t of c # r \<Rightarrow> if c = CHR ''-'' then (True, r)
                                         else if c = CHR ''+'' then (False, r) else (False, t)
                      | [] \<Rightarrow> (False, t));
          ds = takeWhile is_digit u;
          n = (if neg then - digits_val ds else digits_val ds)
      in if ds \<noteq> [] \<and> in_int64 n then n else 0)"

section \<open>Decoding what was encoded\<close>

lemma code_less [simp]: "code c < 256"
  by (cases c) (simp add: of_char_def)

lemma code_parts [simp]:
  "code c div 16 < 16" "code c div 4 < 64" "code c div 64 < 4"
  by (rule less_mult_imp_div_less, simp)+

lemma byte_code [simp]: "byte (code c) = c"
  by simp

lemma hex_decode_encode: "hex_decode (hex_encode s) = (s, False)"
proof (induction s)
  case (Cons c s)
  have "16 * (code c div 16) + code c mod 16 = code c" by simp
  then show ?case using Cons by (simp add: hex_digit_val del: mult_div_mod_eq)
qed simp

lemma b64_val_char: "n < 64 \<Longrightarrow> b64_val url (b64_char url n) = Some n"
  by (auto simp: b64_val_def b64_char_def Let_def char_of_eq_iff_code)

lemma b64_char_plain:
  assumes "n < 64"
  shows "code (b64_char url n) \<noteq> 10" "code (b64_char url n) \<noteq> 13" "b64_char url n \<noteq> CHR ''=''"
proof -
  have "b64_val url c = None" if "code c = 10 \<or> code c = 13 \<or> c = CHR ''=''" for c
    using that by (cases url) (auto simp: b64_val_def Let_def)
  then show "code (b64_char url n) \<noteq> 10" "code (b64_char url n) \<noteq> 13" "b64_char url n \<noteq> CHR ''=''"
    using b64_val_char [OF assms, of url] by fastforce+
qed

text \<open>Three bytes are four characters of six bits.\<close>

lemma bits_less:
  fixes a b :: nat
  assumes "a < 256" "b < 256"
  shows "a mod 4 * 16 + b div 16 < 64" "b mod 16 * 4 + a div 64 < 64" "a mod 4 * 16 < 64" "b mod 16 * 4 < 64"
proof -
  have "a mod 4 \<le> 3" "b div 16 \<le> 15" "b mod 16 \<le> 15" "a div 64 \<le> 3"
    using assms by (simp_all add: less_Suc_eq_le [symmetric])
  then show "a mod 4 * 16 + b div 16 < 64" "b mod 16 * 4 + a div 64 < 64" "a mod 4 * 16 < 64" "b mod 16 * 4 < 64"
    by linarith+
qed

lemma split_six:
  fixes m n k l :: nat
  assumes "n < 16" "l < 4"
  shows "(m * 16 + n) div 16 = m" "(m * 16 + n) mod 16 = n" "(k * 4 + l) div 4 = k" "(k * 4 + l) mod 4 = l"
  using assms by simp_all

lemma join_nats:
  fixes a b c :: nat
  assumes "b div 16 < 16" "c div 64 < 4"
  shows "a div 4 * 4 + a mod 4 * 16 div 16 = a"
    "a div 4 * 4 + (a mod 4 * 16 + b div 16) div 16 = a"
    "(a mod 4 * 16 + b div 16) mod 16 * 16 + b mod 16 * 4 div 4 = b"
    "(a mod 4 * 16 + b div 16) mod 16 * 16 + (b mod 16 * 4 + c div 64) div 4 = b"
    "(b mod 16 * 4 + c div 64) mod 4 * 64 + c mod 64 = c"
proof -
  have z: "a mod 4 * 16 div 16 = a mod 4" "b mod 16 * 4 div 4 = b mod 16" by simp_all
  show "a div 4 * 4 + a mod 4 * 16 div 16 = a" unfolding z by (rule div_mult_mod_eq)
  show "a div 4 * 4 + (a mod 4 * 16 + b div 16) div 16 = a"
    unfolding split_six(1) [OF assms] by (rule div_mult_mod_eq)
  show "(a mod 4 * 16 + b div 16) mod 16 * 16 + b mod 16 * 4 div 4 = b"
    unfolding split_six(2) [OF assms] z by (rule div_mult_mod_eq)
  show "(a mod 4 * 16 + b div 16) mod 16 * 16 + (b mod 16 * 4 + c div 64) div 4 = b"
    unfolding split_six(2) [OF assms] split_six(3) [OF assms] by (rule div_mult_mod_eq)
  show "(b mod 16 * 4 + c div 64) mod 4 * 64 + c mod 64 = c"
    unfolding split_six(4) [OF assms] by (rule div_mult_mod_eq)
qed

lemma join_bytes:
  "byte1 (code a div 4) (code a mod 4 * 16) = a"
  "byte1 (code a div 4) (code a mod 4 * 16 + code b div 16) = a"
  "byte2 (code a mod 4 * 16 + code b div 16) (code b mod 16 * 4) = b"
  "byte2 (code a mod 4 * 16 + code b div 16) (code b mod 16 * 4 + code c div 64) = b"
  "byte3 (code b mod 16 * 4 + code c div 64) (code c mod 64) = c"
  unfolding byte1_def byte2_def byte3_def by (simp_all only: join_nats [OF code_parts(1) code_parts(3)] byte_code)

lemma b64_val_pad [simp]: "b64_val url CHR ''='' = None"
  by (cases url) (simp_all add: b64_val_def Let_def)

lemma sextets [simp]:
  "code a mod 4 * 16 + code b div 16 < 64" "code b mod 16 * 4 + code c div 64 < 64"
  "code a mod 4 * 16 < 64" "code b mod 16 * 4 < 64" "code c mod 64 < 64"
  using bits_less by simp_all

lemma b64_quanta_encode: "b64_quanta url pad (b64_encode url pad s) = (s, False)"
proof (induction url pad s rule: b64_encode.induct)
  case (2 url pad a)
  show ?case by (cases pad) (simp_all add: b64_val_char join_bytes)
next
  case (3 url pad a b)
  show ?case by (cases pad) (simp_all add: b64_val_char join_bytes)
qed (simp_all add: b64_val_char join_bytes)

lemma b64_encode_plain:
  "filter (\<lambda>c. code c \<noteq> 10 \<and> code c \<noteq> 13) (b64_encode url pad s) = b64_encode url pad s"
  by (induction url pad s rule: b64_encode.induct) (simp_all add: b64_char_plain)

lemma b64_decode_encode: "b64_decode url pad (b64_encode url pad s) = (s, False)"
  by (simp add: b64_decode_def b64_encode_plain b64_quanta_encode)


section \<open>Payment hashes\<close>

lemma b64_val_other: "n < 64 \<Longrightarrow> b64_val True (b64_char False n) = (if n < 62 then Some n else None)"
  by (auto simp: b64_val_def b64_char_def Let_def char_of_eq_iff_code)

lemma raw_of_std: "\<not> url \<Longrightarrow> pad \<Longrightarrow> b64_quanta True False (b64_encode url pad s) = (t, False) \<Longrightarrow> t = s"
proof (induction url pad s arbitrary: t rule: b64_encode.induct)
  case (4 url pad a b c s)
  then show ?case
    by (auto simp: b64_val_other join_bytes apfst_def map_prod_def split: if_splits prod.splits)
qed (auto simp: b64_val_other join_bytes split: if_splits)

lemma b64ToHex_std: "b64ToHex (b64_encode False True s) = hex_encode s"
proof (cases "b64_decode True False (b64_encode False True s)")
  case (Pair t err)
  then have "\<not> err \<Longrightarrow> t = s"
    using raw_of_std [of False True s t] by (simp add: b64_decode_def b64_encode_plain)
  then show ?thesis by (simp add: b64ToHex_def Pair b64_decode_encode)
qed

lemma b64ToHex_raw: "b64ToHex (b64_encode True False s) = hex_encode s"
  by (simp add: b64ToHex_def b64_decode_encode)

text \<open>
  C25: the hexadecimal payment hash is the hash LND sent: whichever of the two base64 alphabets the bytes of a
  hash are written in, \<open>b64ToHex\<close> gives their hexadecimal form, from which they can be read back, and
  \<open>hexToB64URL\<close> undoes it.
\<close>

theorem payment_hash_roundtrip:
  "b64ToHex (b64_encode False True h) = hex_encode h \<and>
   b64ToHex (b64_encode True False h) = hex_encode h \<and>
   hexToB64URL (b64ToHex (b64_encode False True h)) = b64_encode True False h \<and>
   hex_decode (hex_encode h) = (h, False)"
  by (simp add: b64ToHex_std b64ToHex_raw hexToB64URL_def hex_decode_encode)

lemma length_hex_encode [simp]: "length (hex_encode s) = 2 * length s"
  by (induction s) simp_all

end
