(* ===== verification/Lightning.thy ===== *)
theory Lightning
  imports Encoding
begin

text \<open>
  \<open>internal/lightning/lightning.go\<close>: the client of an LND node's REST interface, and the Lightning-address
  payment protocol. The network is a parameter, \<open>net\<close>: what comes back for a call, given every call made
  before. The calls made are the client's trace, \<open>wire\<close>; every operation returns the longer trace. A
  call without an answer (a refused connection, a timeout, a request that cannot be built) is
  \<open>NetError\<close>; otherwise the answer is its status and the bytes of its body that arrived.
\<close>

section \<open>The network\<close>

record http_call =
  c_method :: string
  c_url :: string
  c_macaroon :: "string option"
  c_body :: "string option"

datatype http_reply = NetError | Reply int string

type_synonym wire = "http_call list"
type_synonym net = "wire \<Rightarrow> http_call \<Rightarrow> http_reply"

definition send_http :: "net \<Rightarrow> wire \<Rightarrow> http_call \<Rightarrow> wire \<times> http_reply" where
  "send_http net w call = (w @ [call], net w call)"

definition http_get :: "string \<Rightarrow> http_call" where
  "http_get url = \<lparr>c_method = ''GET'', c_url = url, c_macaroon = None, c_body = None\<rparr>"

section \<open>The client\<close>

record LNDClient =
  baseURL :: string
  macaroon :: string

datatype lnd_error =
  ErrMacaroon | ErrAddress string | ErrNet | ErrParse | ErrRange int int int | ErrNoInvoice string
| ErrStatus int string | ErrPayment string

text \<open>The macaroon file is given as its bytes, or \<open>None\<close> when it cannot be read.\<close>

definition NewLND :: "string \<Rightarrow> string option \<Rightarrow> string \<Rightarrow> lnd_error + LNDClient" where
  "NewLND addr macaroonFile tlsPath =
     (case macaroonFile of
        None \<Rightarrow> Inl ErrMacaroon
      | Some macBytes \<Rightarrow>
          (let macHex = hex_encode macBytes;
               addr' = (if \<not> Contains addr '':'' then addr @ '':8080'' else addr)
           in Inr \<lparr>baseURL = ''https'' @ ''://'' @ addr', macaroon = macHex\<rparr>))"

definition lnd_call :: "LNDClient \<Rightarrow> string \<Rightarrow> string \<Rightarrow> string option \<Rightarrow> http_call" where
  "lnd_call c method path body =
     \<lparr>c_method = method, c_url = baseURL c @ path, c_macaroon = Some (macaroon c), c_body = body\<rparr>"

definition min_go :: "nat \<Rightarrow> nat \<Rightarrow> nat" where
  "min_go a b = (if a < b then a else b)"

definition dec_local_balance :: "string decoder" where
  "dec_local_balance = dec_struct [(''local_balance'', dec_struct [(''sat'', dec_string)])]"

definition GetBalance :: "LNDClient \<Rightarrow> net \<Rightarrow> wire \<Rightarrow> wire \<times> (lnd_error + int64)" where
  "GetBalance c net w =
     (let (w1, resp) = send_http net w (lnd_call c ''GET'' ''/v1/balance/channels'' None)
      in case resp of
           NetError \<Rightarrow> (w1, Inl ErrNet)
         | Reply status body \<Rightarrow>
             (let (sat, err) = decode_first dec_local_balance body ''''
              in if err then (w1, Inl ErrParse) else (w1, Inr (Sscanf_d sat))))"

section \<open>Paying an invoice\<close>

record pay_result =
  pr_hash :: string
  pr_error :: string

definition dec_pay_result :: "pay_result decoder" where
  "dec_pay_result = dec_struct
     [(''payment_hash'', dec_field pr_hash (\<lambda>x r. r\<lparr>pr_hash := x\<rparr>) dec_string),
      (''payment_error'', dec_field pr_error (\<lambda>x r. r\<lparr>pr_error := x\<rparr>) dec_string)]"

definition pay_payload :: "string \<Rightarrow> string" where
  \<open>pay_payload bolt11 = ''{"payment_request":"'' @ bolt11 @ ''","fee_limit":{"fixed":"50"}}''\<close>

definition pay_call :: "LNDClient \<Rightarrow> string \<Rightarrow> http_call" where
  "pay_call c bolt11 = lnd_call c ''POST'' ''/v1/channels/transactions'' (Some (pay_payload bolt11))"

definition payInvoice :: "LNDClient \<Rightarrow> net \<Rightarrow> wire \<Rightarrow> string \<Rightarrow> wire \<times> (lnd_error + string)" where
  "payInvoice c net w bolt11 =
     (let (w1, resp) = send_http net w (pay_call c bolt11)
      in case resp of
           NetError \<Rightarrow> (w1, Inl ErrNet)
         | Reply status body \<Rightarrow>
             if status \<noteq> 200 then (w1, Inl (ErrStatus status (take (min_go (length body) 200) body)))
             else
               (let (result, err) = unmarshal dec_pay_result body \<lparr>pr_hash = '''', pr_error = ''''\<rparr>
                in if err then (w1, Inl ErrParse)
                   else if pr_error result \<noteq> '''' then (w1, Inl (ErrPayment (pr_error result)))
                   else if pr_hash result \<noteq> '''' then (w1, Inr (b64ToHex (pr_hash result)))
                   else (w1, Inr '''')))"

section \<open>Paying a Lightning address\<close>

record lnurl =
  lu_callback :: string
  lu_min :: int
  lu_max :: int

definition dec_lnurl :: "lnurl decoder" where
  "dec_lnurl = dec_struct
     [(''callback'', dec_field lu_callback (\<lambda>x r. r\<lparr>lu_callback := x\<rparr>) dec_string),
      (''minSendable'', dec_field lu_min (\<lambda>x r. r\<lparr>lu_min := x\<rparr>) dec_int),
      (''maxSendable'', dec_field lu_max (\<lambda>x r. r\<lparr>lu_max := x\<rparr>) dec_int)]"

definition dec_invoice :: "string decoder" where
  "dec_invoice = dec_struct [(''pr'', dec_string)]"

definition lnurl_url :: "string \<Rightarrow> string \<Rightarrow> string" where
  "lnurl_url user domain = ''https://'' @ domain @ ''/.well-known/lnurlp/'' @ user"

definition invoice_url :: "string \<Rightarrow> int64 \<Rightarrow> string" where
  "invoice_url callback amountMsats =
     (let sep = (if Contains callback ''?'' then ''&'' else ''?'')
      in callback @ sep @ ''amount='' @ show_int amountMsats)"

text \<open>Step 1: resolve the address.\<close>

definition resolve :: "net \<Rightarrow> wire \<Rightarrow> string \<Rightarrow> wire \<times> (lnd_error + lnurl)" where
  "resolve net w address =
     (case SplitN2 address CHR ''@'' of
        [user, domain] \<Rightarrow>
          (let (w1, resp) = send_http net w (http_get (lnurl_url user domain))
           in case resp of
                NetError \<Rightarrow> (w1, Inl ErrNet)
              | Reply status body \<Rightarrow>
                  (let (l, err) = decode_first dec_lnurl body \<lparr>lu_callback = '''', lu_min = 0, lu_max = 0\<rparr>
                   in if err then (w1, Inl ErrParse) else (w1, Inr l)))
      | _ \<Rightarrow> (w, Inl (ErrAddress address)))"

text \<open>Step 2: fetch an invoice.\<close>

definition fetch_invoice :: "net \<Rightarrow> wire \<Rightarrow> string \<Rightarrow> string \<Rightarrow> int64 \<Rightarrow> wire \<times> (lnd_error + string)" where
  "fetch_invoice net w address callback amountMsats =
     (let (w1, resp) = send_http net w (http_get (invoice_url callback amountMsats))
      in case resp of
           NetError \<Rightarrow> (w1, Inl ErrNet)
         | Reply status body \<Rightarrow>
             (let (pr, err) = decode_first dec_invoice body ''''
              in if err then (w1, Inl ErrParse)
                 else if pr = '''' then (w1, Inl (ErrNoInvoice address)) else (w1, Inr pr)))"

text \<open>Step 3 pays it.\<close>

definition PayAddress ::
  "LNDClient \<Rightarrow> net \<Rightarrow> wire \<Rightarrow> string \<Rightarrow> int64 \<Rightarrow> wire \<times> (lnd_error + string)" where
  "PayAddress c net w address amountSats =
     (let (w1, r1) = resolve net w address
      in case r1 of
           Inl e \<Rightarrow> (w1, Inl e)
         | Inr l \<Rightarrow>
             (let amountMsats = wrap64 (amountSats * 1000)
              in if amountMsats < lu_min l \<or> amountMsats > lu_max l
                 then (w1, Inl (ErrRange amountSats (lu_min l) (lu_max l)))
                 else
                   (let (w2, r2) = fetch_invoice net w1 address (lu_callback l) amountMsats
                    in case r2 of Inl e \<Rightarrow> (w2, Inl e) | Inr pr \<Rightarrow> payInvoice c net w2 pr)))"

section \<open>Invoices of the gateway\<close>

record add_invoice =
  ai_request :: string
  ai_r_hash :: string

definition dec_add_invoice :: "add_invoice decoder" where
  "dec_add_invoice = dec_struct
     [(''payment_request'', dec_field ai_request (\<lambda>x r. r\<lparr>ai_request := x\<rparr>) dec_string),
      (''r_hash'', dec_field ai_r_hash (\<lambda>x r. r\<lparr>ai_r_hash := x\<rparr>) dec_string)]"

definition invoice_payload :: "int64 \<Rightarrow> string \<Rightarrow> string" where
  \<open>invoice_payload amountSats memo =
     ''{"value":"'' @ show_int amountSats @ ''","memo":"'' @ memo @ ''","expiry":"600"}''\<close>

text \<open>The status of the answer is not looked at.\<close>

definition CreateInvoice_lnd ::
  "LNDClient \<Rightarrow> net \<Rightarrow> wire \<Rightarrow> int64 \<Rightarrow> string \<Rightarrow> wire \<times> (lnd_error + string \<times> string)" where
  "CreateInvoice_lnd c net w amountSats memo =
     (let (w1, resp) = send_http net w (lnd_call c ''POST'' ''/v1/invoices'' (Some (invoice_payload amountSats memo)))
      in case resp of
           NetError \<Rightarrow> (w1, Inl ErrNet)
         | Reply status body \<Rightarrow>
             (let (result, err) = decode_first dec_add_invoice body \<lparr>ai_request = '''', ai_r_hash = ''''\<rparr>
              in if err then (w1, Inl ErrParse)
                 else (w1, Inr (ai_request result, b64ToHex (ai_r_hash result)))))"

record lookup_result =
  lr_settled :: bool
  lr_state :: string

definition dec_lookup :: "lookup_result decoder" where
  "dec_lookup = dec_struct
     [(''settled'', dec_field lr_settled (\<lambda>x r. r\<lparr>lr_settled := x\<rparr>) dec_bool),
      (''state'', dec_field lr_state (\<lambda>x r. r\<lparr>lr_state := x\<rparr>) dec_string)]"

definition CheckInvoice :: "LNDClient \<Rightarrow> net \<Rightarrow> wire \<Rightarrow> string \<Rightarrow> wire \<times> (lnd_error + bool)" where
  "CheckInvoice c net w paymentHash =
     (let (w1, resp) = send_http net w (lnd_call c ''GET'' (''/v1/invoice/'' @ paymentHash) None)
      in case resp of
           NetError \<Rightarrow> (w1, Inl ErrNet)
         | Reply status body \<Rightarrow>
             if status \<noteq> 200 then (w1, Inl (ErrStatus status (take (min_go (length body) 100) body)))
             else
               (let (result, err) = unmarshal dec_lookup body \<lparr>lr_settled = False, lr_state = ''''\<rparr>
                in if err then (w1, Inl ErrParse)
                   else (w1, Inr (lr_settled result \<or> lr_state result = ''SETTLED''))))"

section \<open>Payment orders\<close>

text \<open>A payment order is what makes LND pay: a POST to its payment endpoint.\<close>

definition is_order :: "http_call \<Rightarrow> bool" where
  "is_order call \<longleftrightarrow> c_method call = ''POST'' \<and> HasSuffix (c_url call) ''/v1/channels/transactions''"

definition orders :: "wire \<Rightarrow> nat" where
  "orders w = length (filter is_order w)"

lemma orders_append [simp]: "orders (w @ w') = orders w + orders w'"
  by (simp add: orders_def)

lemma orders_get [simp]:
  "orders [http_get url] = 0" "orders [lnd_call c ''GET'' path body] = 0"
  "orders [lnd_call c ''POST'' ''/v1/invoices'' body] = 0"
  by (simp_all add: orders_def is_order_def http_get_def lnd_call_def HasSuffix_def HasPrefix_def)

lemma orders_pay [simp]: "orders [pay_call c pr] = 1"
  by (simp add: orders_def is_order_def pay_call_def lnd_call_def HasSuffix_iff suffix_def)

lemma payInvoice_trace: "fst (payInvoice c net w pr) = w @ [pay_call c pr]"
  by (simp add: payInvoice_def send_http_def Let_def split_beta split: http_reply.split)

lemma payInvoice_paid:
  assumes "snd (payInvoice c net w pr) = Inr h"
  obtains body result where "net w (pay_call c pr) = Reply 200 body"
    "unmarshal dec_pay_result body \<lparr>pr_hash = '''', pr_error = ''''\<rparr> = (result, False)"
    "pr_error result = ''''" "h = (if pr_hash result = '''' then '''' else b64ToHex (pr_hash result))"
  using assms
  by (auto simp: payInvoice_def send_http_def Let_def split_beta split: http_reply.splits if_splits)
     (metis prod.collapse)+

lemma resolve_orders: "orders (fst (resolve net w a)) = orders w"
proof -
  have "orders (w @ [http_get url]) = orders w" for url by simp
  then show ?thesis
    by (auto simp: resolve_def send_http_def split_beta Let_def simp del: orders_append
      split: list.split http_reply.split)
qed

lemma fetch_orders: "orders (fst (fetch_invoice net w a cb n)) = orders w"
  by (simp add: fetch_invoice_def send_http_def split_beta Let_def split: http_reply.split)

lemma fetch_nonempty: "snd (fetch_invoice net w a cb n) = Inr pr \<Longrightarrow> pr \<noteq> ''''"
  by (auto simp: fetch_invoice_def send_http_def split_beta Let_def split: http_reply.splits if_splits)

text \<open>Either a payment fails before the order, or the order is its last call and decides.\<close>

lemma PayAddress_cases [case_names none ordered]:
  obtains (none) e where "snd (PayAddress c net w a n) = Inl e" "orders (fst (PayAddress c net w a n)) = orders w"
  | (ordered) w2 pr where "PayAddress c net w a n = payInvoice c net w2 pr" "orders w2 = orders w" "pr \<noteq> ''''"
proof (cases "snd (resolve net w a)")
  case (Inl e)
  then show ?thesis
    using none [of e] resolve_orders [of net w a] by (simp add: PayAddress_def split_beta)
next
  case (Inr l)
  let ?w1 = "fst (resolve net w a)" and ?m = "wrap64 (n * 1000)"
  show ?thesis
  proof (cases "?m < lu_min l \<or> lu_max l < ?m")
    case True
    then show ?thesis
      using none resolve_orders [of net w a] Inr by (simp add: PayAddress_def split_beta Let_def)
  next
    case False
    let ?f = "fetch_invoice net ?w1 a (lu_callback l) ?m"
    have o: "orders (fst ?f) = orders w" by (simp add: fetch_orders resolve_orders)
    show ?thesis
    proof (cases "snd ?f")
      case (Inl e)
      then show ?thesis
        using none [of e] Inr False o by (simp add: PayAddress_def split_beta Let_def)
    next
      case (Inr pr)
      then show ?thesis
        using ordered [of "fst ?f" pr] \<open>snd (resolve net w a) = Inr l\<close> False o fetch_nonempty [OF Inr]
        by (simp add: PayAddress_def split_beta Let_def)
    qed
  qed
qed

text \<open>
  One call of \<open>PayAddress\<close> makes LND pay at most once. It returns a payment hash only after exactly one
  order, its last call, which LND answered with status 200 and no payment error.
\<close>

theorem PayAddress_one_order:
  "orders (fst (PayAddress c net w a n)) \<le> orders w + 1 \<and>
   (case snd (PayAddress c net w a n) of
      Inl e \<Rightarrow> True
    | Inr h \<Rightarrow> \<exists>w1 pr body result.
        fst (PayAddress c net w a n) = w1 @ [pay_call c pr] \<and> orders w1 = orders w \<and> pr \<noteq> '''' \<and>
        net w1 (pay_call c pr) = Reply 200 body \<and>
        unmarshal dec_pay_result body \<lparr>pr_hash = '''', pr_error = ''''\<rparr> = (result, False) \<and> pr_error result = '''')"
proof (cases rule: PayAddress_cases [of c net w a n])
  case (none e)
  then show ?thesis by simp
next
  case (ordered w2 pr)
  show ?thesis
  proof (cases "snd (payInvoice c net w2 pr)")
    case (Inl e)
    then show ?thesis using ordered by (simp add: payInvoice_trace)
  next
    case (Inr h)
    obtain body result where "net w2 (pay_call c pr) = Reply 200 body"
      "unmarshal dec_pay_result body \<lparr>pr_hash = '''', pr_error = ''''\<rparr> = (result, False)" "pr_error result = ''''"
      using payInvoice_paid [OF Inr] by metis
    then show ?thesis using ordered Inr by (simp add: payInvoice_trace) blast
  qed
qed

text \<open>
  A payment that gets through pays whatever invoice the recipient's server hands out: the order sent to
  LND is a function of that text alone, the requested amount does not enter it, and the text is not
  escaped.
\<close>

theorem PayAddress_trusts_server:
  assumes "SplitN2 a CHR ''@'' = [user, domain]"
    and "net w (http_get (lnurl_url user domain)) = Reply s1 b1"
    and "decode_first dec_lnurl b1 \<lparr>lu_callback = '''', lu_min = 0, lu_max = 0\<rparr> = (l, False)"
    and "lu_min l \<le> wrap64 (n * 1000)" "wrap64 (n * 1000) \<le> lu_max l"
    and "net (w @ [http_get (lnurl_url user domain)]) (http_get (invoice_url (lu_callback l) (wrap64 (n * 1000)))) = Reply s2 b2"
    and "decode_first dec_invoice b2 '''' = (pr, False)" "pr \<noteq> ''''"
  shows "fst (PayAddress c net w a n) =
    w @ [http_get (lnurl_url user domain), http_get (invoice_url (lu_callback l) (wrap64 (n * 1000))), pay_call c pr]"
  using assms by (simp add: PayAddress_def resolve_def fetch_invoice_def send_http_def payInvoice_trace)

text \<open>A server that asks for a higher routing fee through the text of its invoice.\<close>

definition greedy_pr :: string where
  \<open>greedy_pr = ''lnbc1","fee_limit_msat":"900000000''\<close>

definition greedy_net :: net where
  \<open>greedy_net w call =
     (if w = [] then Reply 200 ''{"callback":"https://x.y/cb","minSendable":1,"maxSendable":100000000000}''
      else if length w = 1 then Reply 200 (''{"pr":'' @ enc_string greedy_pr @ ''}'')
      else NetError)\<close>

theorem PayAddress_trusts_server_witness:
  \<open>map c_body (fst (PayAddress \<lparr>baseURL = ''https://lnd:8080'', macaroon = ''00''\<rparr> greedy_net [] ''bob@x.y'' 100)) =
     [None, None, Some ''{"payment_request":"lnbc1","fee_limit_msat":"900000000","fee_limit":{"fixed":"50"}}'']\<close>
proof -
  let ?l = \<open>\<lparr>lu_callback = ''https://x.y/cb'', lu_min = 1, lu_max = 100000000000\<rparr>\<close>
  have \<open>decode_first dec_lnurl ''{"callback":"https://x.y/cb","minSendable":1,"maxSendable":100000000000}''
      \<lparr>lu_callback = '''', lu_min = 0, lu_max = 0\<rparr> = (?l, False)\<close> by code_simp
  moreover have \<open>decode_first dec_invoice (''{"pr":'' @ enc_string greedy_pr @ ''}'') '''' = (greedy_pr, False)\<close>
    by code_simp
  ultimately have "fst (PayAddress \<lparr>baseURL = ''https://lnd:8080'', macaroon = ''00''\<rparr> greedy_net [] ''bob@x.y'' 100) =
      [http_get (lnurl_url ''bob'' ''x.y''), http_get (invoice_url (lu_callback ?l) (wrap64 (100 * 1000))),
       pay_call \<lparr>baseURL = ''https://lnd:8080'', macaroon = ''00''\<rparr> greedy_pr]"
    using PayAddress_trusts_server [of "''bob@x.y''" "''bob''" "''x.y''" greedy_net "[]"]
    by (simp add: greedy_net_def greedy_pr_def in_int64_def)
  then show ?thesis
    by (simp add: http_get_def pay_call_def lnd_call_def pay_payload_def greedy_pr_def)
qed

section \<open>The interface of the payout engine and the invoice watcher\<close>

text \<open>
  The part of the interface \<open>Client\<close> its users rely on: a payment places at most one order, a hash means that
  one was placed, and looking an invoice up places none.
\<close>

locale lightning_client =
  fixes pay :: "'w \<Rightarrow> string \<Rightarrow> int64 \<Rightarrow> 'w \<times> (lnd_error + string)"
    and check :: "'w \<Rightarrow> string \<Rightarrow> 'w \<times> (lnd_error + bool)"
    and placed :: "'w \<Rightarrow> nat"
  assumes pay_bounds: "placed w \<le> placed (fst (pay w a n))" "placed (fst (pay w a n)) \<le> Suc (placed w)"
    and pay_hash: "snd (pay w a n) = Inr h \<Longrightarrow> placed (fst (pay w a n)) = Suc (placed w)"
    and check_quiet: "placed (fst (check w h)) = placed w"

interpretation lnd: lightning_client "PayAddress c net" "CheckInvoice c net" orders for c net
proof unfold_locales
  fix w a n h
  show "orders w \<le> orders (fst (PayAddress c net w a n))"
    "orders (fst (PayAddress c net w a n)) \<le> Suc (orders w)"
    by (cases rule: PayAddress_cases [of c net w a n]; simp add: payInvoice_trace)+
  show "orders (fst (PayAddress c net w a n)) = Suc (orders w)" if "snd (PayAddress c net w a n) = Inr h"
    using that by (cases rule: PayAddress_cases [of c net w a n]) (simp_all add: payInvoice_trace)
  show "orders (fst (CheckInvoice c net w h)) = orders w"
    by (simp add: CheckInvoice_def send_http_def split_beta Let_def split: http_reply.split)
qed

end
