(* ===== verification/Api.thy ===== *)
theory Api
  imports Handlers RateLimit Lightning
begin

text \<open>
  \<open>internal/api/api.go\<close>: the public API. The router, the billing engine, the database and the job assigner it
  is wired to are the gateway's, so a handler takes and returns the gateway's state beside the API's own
  (\<open>regLimit\<close>). The Lightning invoice generator is an argument, \<open>None\<close> when it is not wired. What a
  handler reads from outside, times, random bytes, UUIDs, drivers, is its \<open>api_env\<close>.

  A response is a status and a body; a JSON body is the value that is encoded, an error its text. Headers are
  left out. The
  body of a request is the bytes that arrive and whether reading ended with an error, as it does beyond
  the limit of the middleware.
\<close>

section \<open>State, requests and responses\<close>

record BuildInfo =
  bi_Version :: string
  bi_Commit :: string

record API =
  regLimit :: "string \<rightharpoonup> time list"
  rt_wired :: bool
  assign_wired :: bool
  counter_wired :: bool
  build :: BuildInfo

definition New_api :: "BuildInfo \<Rightarrow> API" where
  "New_api b = \<lparr>regLimit = Map.empty, rt_wired = False, assign_wired = False, counter_wired = False, build = b\<rparr>"

definition SetAssigner :: "API \<Rightarrow> API" where
  "SetAssigner a = a\<lparr>assign_wired := True\<rparr>"

definition SetNodeCounter :: "API \<Rightarrow> API" where
  "SetNodeCounter a = a\<lparr>counter_wired := True\<rparr>"

text \<open>\<open>SetInvoicer\<close>: the invoice generator handlers get from then on.\<close>

type_synonym 'w invoicer = "'w \<Rightarrow> int64 \<Rightarrow> string \<Rightarrow> 'w \<times> (lnd_error + string \<times> string)"

definition SetInvoicer :: "'w invoicer \<Rightarrow> 'w invoicer option" where
  "SetInvoicer ic = Some ic"

record api_request =
  q_Method :: string
  q_RemoteAddr :: string
  q_XRealIp :: string
  q_Authorization :: string
  q_XPlayground :: string
  q_Body :: string
  q_BodyErr :: bool

datatype jval = VNull | VStr string | VInt int | VNum f64 | VArr "jval list" | VObj "(string \<times> jval) list"

datatype body = Text string | Json jval

text \<open>
  The bodies of errors as they are written in the source (\<open>http.Error\<close> adds a newline): of the account
  endpoints, and of the chat endpoint without and with a type.
\<close>

definition api_error :: "string \<Rightarrow> body" where
  "api_error m = Text (''{\"error\":\"'' @ m @ ''\"}'')"

definition chat_error :: "string \<Rightarrow> body" where
  "chat_error m = Text (''{\"error\":{\"message\":\"'' @ m @ ''\"}}'')"

definition typed_error :: "string \<Rightarrow> string \<Rightarrow> body" where
  "typed_error m t = Text (''{\"error\":{\"message\":\"'' @ m @ ''\",\"type\":\"'' @ t @ ''\"}}'')"

type_synonym api_response = "int \<times> body"

datatype api_call = ApiCreateUserKey | ApiValidate | ApiBalance | ApiCreateInvoice | ApiStats | ApiRecent

record api_env =
  ae_now :: time
  ae_stamp :: time
  ae_random :: "string option"
  ae_uuid :: string
  ae_db :: "api_call \<Rightarrow> driver"

section \<open>Registration\<close>

definition RegAllow :: "(string \<rightharpoonup> time list) \<Rightarrow> string \<Rightarrow> time \<Rightarrow> time \<Rightarrow> (string \<rightharpoonup> time list) \<times> bool" where
  "RegAllow m ip now stamp =
     (let cutoff = now - 3600000000000;
          valid = prune cutoff (entries_of m ip)
      in if length valid \<ge> 3 then (m(ip \<mapsto> valid), False) else (m(ip \<mapsto> valid @ [stamp]), True))"

definition cleanupRegLimit :: "API \<Rightarrow> string list \<Rightarrow> time \<Rightarrow> API" where
  "cleanupRegLimit a ips now = a\<lparr>regLimit := fold (prune_entry (now - 3600000000000)) ips (regLimit a)\<rparr>"

definition reg_ip :: "api_request \<Rightarrow> string" where
  "reg_ip r = (if q_XRealIp r \<noteq> '''' then q_XRealIp r else q_RemoteAddr r)"

definition dec_name :: "string decoder" where
  "dec_name = dec_struct [(''name'', dec_string)]"

definition HandleRegisterUser :: "API \<Rightarrow> Gateway \<Rightarrow> api_env \<Rightarrow> api_request \<Rightarrow> API \<times> Gateway \<times> api_response" where
  "HandleRegisterUser a g e r =
     (if q_Method r \<noteq> ''POST'' then (a, g, (405, Text ''method not allowed''))
      else
        (let (m, allowed) = RegAllow (regLimit a) (reg_ip r) (ae_now e) (ae_stamp e); a1 = a\<lparr>regLimit := m\<rparr>
         in if \<not> allowed then (a1, g, (429, api_error (''too many registrations '' @ em_dash @ '' try again later'')))
            else
              (let (name, err) = decode_first dec_name (q_Body r) '''';
                   name' = (if name = '''' then ''default'' else name)
               in if err then (a1, g, (400, api_error ''invalid JSON''))
                  else
                    (case ae_random e of
                       None \<Rightarrow> (a1, g, (500, api_error ''key generation failed''))
                     | Some b \<Rightarrow>
                         (let key = ''rc_'' @ hex_encode b;
                              (db', dberr) = CreateUserKey (ae_db e ApiCreateUserKey) (db g) key (ae_uuid e) name' 10
                          in if dberr \<noteq> None then (a1, g\<lparr>db := db'\<rparr>, (500, api_error ''failed to create key''))
                             else (a1, g\<lparr>db := db'\<rparr>,
                               (200, Json (VObj [(''api_key'', VStr key), (''name'', VStr name'),
                                  (''quota_daily'', VInt 10), (''user_id'', VStr (ae_uuid e))]))))))))"

section \<open>Topping up and balances\<close>

definition bearer :: "api_request \<Rightarrow> string option" where
  "bearer r = (if HasPrefix (q_Authorization r) ''Bearer '' then Some (TrimPrefix (q_Authorization r) ''Bearer '') else None)"

definition dec_amount :: "int64 decoder" where
  "dec_amount = dec_struct [(''amount_sats'', dec_int)]"

definition topup_memo :: string where "topup_memo = ''RouteCat top-up''"

definition HandleTopUp ::
  "'w invoicer option \<Rightarrow> API \<Rightarrow> Gateway \<Rightarrow> 'w \<Rightarrow> api_env \<Rightarrow> api_request \<Rightarrow> Gateway \<times> 'w \<times> api_response" where
  "HandleTopUp invoicer a g w e r =
     (if q_Method r \<noteq> ''POST'' then (g, w, (405, Text ''method not allowed''))
      else case bearer r of
        None \<Rightarrow> (g, w, (401, api_error ''missing API key''))
      | Some userKey \<Rightarrow>
          (case ValidateUserKey (ae_db e ApiValidate) (db g) userKey (ae_now e) of
             Inl _ \<Rightarrow> (g, w, (401, api_error ''invalid API key''))
           | Inr _ \<Rightarrow>
               (let (sats, err) = decode_first dec_amount (q_Body r) 0
                in if err \<or> sats \<le> 0 then (g, w, (400, api_error ''amount_sats must be positive''))
                   else if sats < 10 \<or> sats > 100000 then (g, w, (400, api_error ''amount must be between 10 and 100,000 sats''))
                   else
                     (case invoicer of
                        None \<Rightarrow> (g, w, (503, api_error ''payments not available''))
                      | Some create \<Rightarrow>
                          (let (w1, res) = create w sats topup_memo
                           in case res of
                                Inl _ \<Rightarrow> (g, w1, (500, api_error ''failed to create invoice''))
                              | Inr (bolt11, payHash) \<Rightarrow>
                                  (let (db', dberr) = CreateInvoice (ae_db e ApiCreateInvoice) (db g) payHash userKey
                                         (wrap64 (sats * 1000)) bolt11 (ae_stamp e)
                                   in if dberr \<noteq> None then (g\<lparr>db := db'\<rparr>, w1, (500, api_error ''failed to store invoice''))
                                      else (g\<lparr>db := db'\<rparr>, w1,
                                        (200, Json (VObj [(''amount_sats'', VInt sats), (''expires_in'', VInt 600),
                                           (''invoice'', VStr bolt11), (''payment_hash'', VStr payHash)])))))))))"

definition HandleBalance :: "Gateway \<Rightarrow> api_env \<Rightarrow> api_request \<Rightarrow> api_response" where
  "HandleBalance g e r =
     (case bearer r of
        None \<Rightarrow> (401, api_error ''missing API key'')
      | Some userKey \<Rightarrow>
          (case UserBalance (ae_db e ApiBalance) (db g) userKey of
             Inl _ \<Rightarrow> (401, api_error ''invalid API key'')
           | Inr balance \<Rightarrow>
               (let remaining = (case ValidateUserKey (ae_db e ApiValidate) (db g) userKey (ae_now e) of
                      Inl _ \<Rightarrow> 0 | Inr (u, n) \<Rightarrow> n)
                in (200, Json (VObj [(''balance_msats'', VInt balance), (''balance_sats'', VInt (quo balance 1000)),
                     (''free_remaining'', VInt remaining)])))))"

section \<open>Chat completions\<close>

text \<open>
  Who pays for a request: the user's free quota, from the playground only, or the balance. A failed read of
  the balance counts as none.
\<close>

datatype admission = FreeTier | Paid | Refused string

definition admit :: "int \<Rightarrow> int \<Rightarrow> bool \<Rightarrow> admission" where
  "admit remaining balance isPlayground =
     (if isPlayground \<and> remaining > 0 then FreeTier
      else if balance > 0 then Paid
      else if remaining > 0 \<and> \<not> isPlayground then Refused 
        (''free tier is playground-only '' @ em_dash @ '' top up at /v1/auth/topup for API access'')
      else Refused (''no balance '' @ em_dash @ '' top up at /v1/auth/topup''))"

record chat_req =
  cr_model :: string
  cr_stream :: "bool option"

definition dec_chat :: "chat_req decoder" where
  "dec_chat = dec_struct
     [(''model'', dec_field cr_model (\<lambda>x r. r\<lparr>cr_model := x\<rparr>) dec_string),
      (''stream'', dec_field cr_stream (\<lambda>x r. r\<lparr>cr_stream := x\<rparr>) (dec_ptr False dec_bool))]"

text \<open>Either an error response, or the channels of the job whose chunks are then streamed.\<close>

datatype chat_result = ChatError api_response | Streaming nat nat

text \<open>
  The body of \<open>HandleChatCompletions\<close> once the key is known to be valid. \<open>ge\<close> is what the gateway reads in
  the call of \<open>AssignJob\<close>. An error of \<open>Send\<close> does not mention the word \<open>concurrent\<close>.
\<close>

definition route_chat ::
  "API \<Rightarrow> Gateway \<Rightarrow> api_env \<Rightarrow> env \<Rightarrow> string \<Rightarrow> bool \<Rightarrow> string \<Rightarrow> string \<Rightarrow> Gateway \<times> chat_result" where
  "route_chat a g e ge userKey isFreeTier model body =
     (let rt = (if rt_wired a then SetSource New_router (LiveNodeInfos g (e_order ge)) else New_router)
      in case RouteRequest rt model of
           Inl _ \<Rightarrow> (g, ChatError (503, typed_error (''no available node for model '' @ model) ''server_error''))
         | Inr nodeID \<Rightarrow>
             if \<not> assign_wired a then (g, ChatError (503, chat_error ''gateway not ready''))
             else
               (let (g1, res) = AssignJob g ge nodeID (ae_uuid e) model userKey body isFreeTier
                in case res of
                     Inl err \<Rightarrow>
                       (g1, ChatError
                         (if err = ErrTooManyConcurrent
                          then (429, typed_error (''too many concurrent requests '' @ em_dash @
                                        '' wait for current requests to finish'') ''rate_limit_error'')
                          else (502, typed_error ''node unavailable'' ''server_error'')))
                   | Inr (responseCh, doneCh) \<Rightarrow> (g1, Streaming responseCh doneCh)))"

definition HandleChatCompletions ::
  "API \<Rightarrow> Gateway \<Rightarrow> api_env \<Rightarrow> env \<Rightarrow> api_request \<Rightarrow> Gateway \<times> chat_result" where
  "HandleChatCompletions a g e ge r =
     (if q_Method r \<noteq> ''POST'' then (g, ChatError (405, chat_error ''method not allowed''))
      else case bearer r of
        None \<Rightarrow> (g, ChatError (401, typed_error ''missing API key'' ''invalid_request_error''))
      | Some userKey \<Rightarrow>
          (case ValidateUserKey (ae_db e ApiValidate) (db g) userKey (ae_now e) of
             Inl _ \<Rightarrow> (g, ChatError (401, typed_error ''invalid API key'' ''invalid_request_error''))
           | Inr (u, remaining) \<Rightarrow>
               (let balance = or_zero (UserBalance (ae_db e ApiBalance) (db g) userKey)
                in case admit remaining balance (q_XPlayground r = ''true'') of
                     Refused msg \<Rightarrow> (g, ChatError (429, typed_error msg ''rate_limit_error''))
                   | adm \<Rightarrow>
                       if q_BodyErr r then (g, ChatError (400, chat_error ''bad request''))
                       else
                         (let (req, err) = unmarshal dec_chat (q_Body r) \<lparr>cr_model = '''', cr_stream = None\<rparr>
                          in if err then (g, ChatError (400, chat_error ''invalid JSON''))
                             else if cr_model req = '''' then (g, ChatError (400, chat_error ''model is required''))
                             else route_chat a g e ge userKey (adm = FreeTier) (cr_model req) (q_Body r)))))"

section \<open>Statistics, audit log, models\<close>

definition HandleStats :: "API \<Rightarrow> Gateway \<Rightarrow> api_env \<Rightarrow> api_response" where
  "HandleStats a g e =
     (let nodes = (if counter_wired a then ConnectedNodes g else 0);
          (jobs24h, tokens24h) = or_zeros (GlobalStats24h (ae_db e ApiStats) (db g) (ae_now e))
      in (200, Json (VObj [(''commit'', VStr (bi_Commit (build a))), (''fee_pct'', VNum (FeePct (bill g))),
           (''jobs_24h'', VInt jobs24h), (''nodes_online'', VInt nodes), (''tokens_24h'', VInt tokens24h),
           (''version'', VStr (bi_Version (build a)))])))"

text \<open>A nil slice is encoded as \<open>null\<close>.\<close>

definition slice :: "jval list \<Rightarrow> jval" where
  "slice vs = (if vs = [] then VNull else VArr vs)"

text \<open>\<open>AuditJob\<close> as its struct tags encode it; the time is kept as the seconds it formats.\<close>

definition audit_json :: "AuditJob \<Rightarrow> jval" where
  "audit_json j = VObj [(''model'', VStr (a_model j)), (''tokens_in'', VInt (a_tokens_in j)),
     (''tokens_out'', VInt (a_tokens_out j)), (''earned_msats'', VInt (a_earned_msats j)),
     (''fee_msats'', VInt (a_fee_msats j)), (''timestamp'', VInt (a_timestamp j))]"

definition HandleAudit :: "API \<Rightarrow> Gateway \<Rightarrow> api_env \<Rightarrow> api_response" where
  "HandleAudit a g e =
     (case RecentJobs (ae_db e ApiRecent) (db g) 100 of
        Inl _ \<Rightarrow> (200, Json (VObj [(''error'', VStr ''query failed''), (''jobs'', VArr [])]))
      | Inr jobs \<Rightarrow>
          (200, Json (VObj [(''commit'', VStr (bi_Commit (build a))), (''fee_pct'', VNum (FeePct (bill g))),
             (''jobs'', slice (map audit_json jobs)), (''version'', VStr (bi_Version (build a)))])))"

definition pricing_json :: "ModelPricing \<Rightarrow> jval" where
  "pricing_json p = VObj [(''per_m_input_usd'', VNum (PerMInputUSD p)), (''per_m_output_usd'', VNum (PerMOutputUSD p))]"

definition model_entry :: "Engine \<Rightarrow> string \<Rightarrow> jval" where
  "model_entry b tag =
     (let p = (case GetPricing b tag of Some p \<Rightarrow> p | None \<Rightarrow> FallbackPricing)
      in VObj [(''id'', VStr tag), (''object'', VStr ''model''), (''routecat_pricing'', pricing_json p)])"

definition HandleModels :: "API \<Rightarrow> Gateway \<Rightarrow> string list \<Rightarrow> api_response" where
  "HandleModels a g ks =
     (let rt = (if rt_wired a then SetSource New_router (LiveNodeInfos g ks) else New_router);
          available = AvailableModels rt
      in (200, Json (VObj [(''data'', slice (map (model_entry (bill g)) available)), (''object'', VStr ''list'')])))"

section \<open>The registration limit is a sliding window\<close>

abbreviation reg_sweep :: "(string \<rightharpoonup> time list) sweep_op" where
  "reg_sweep m ips now \<equiv> fold (prune_entry (now - 3600000000000)) ips m"

interpretation registrations: sliding_window "\<lambda>_. 3" "\<lambda>_. 3600000000000" entries_of RegAllow reg_sweep "(\<le>)"
proof unfold_locales
  fix s :: "string \<rightharpoonup> time list" and ip now c stamp ips ip'
  show "snd (RegAllow s ip now stamp) \<longleftrightarrow> int (length (prune (now - 3600000000000) (entries_of s ip))) < 3"
    by (auto simp: RegAllow_def Let_def)
  show "prune c (entries_of (fst (RegAllow s ip now stamp)) ip') =
      prune c (entries_of s ip' @ (if ip' = ip \<and> snd (RegAllow s ip now stamp) then [stamp] else []))"
    if "now \<le> stamp" "now - 3600000000000 \<le> c"
    using that by (auto simp: RegAllow_def Let_def)
  show "prune c (entries_of (reg_sweep s ips now) ip) = prune c (entries_of s ip)" if "now - 3600000000000 \<le> c"
    using that by (simp add: entries_of_sweep)
qed auto

text \<open>
  A run of registrations and clean-ups. The log is the address and time of those that were given a key.
\<close>

datatype reg_event = Registration api_env api_request | RegCleanup "string list" time

fun reg_run :: "API \<Rightarrow> Gateway \<Rightarrow> reg_event list \<Rightarrow> API \<times> Gateway \<times> (string \<times> time) list" where
  "reg_run a g [] = (a, g, [])"
| "reg_run a g (Registration e r # es) =
     (let (a1, g1, resp) = HandleRegisterUser a g e r; (a2, g2, keys) = reg_run a1 g1 es
      in (a2, g2, (if fst resp = 200 then [(reg_ip r, ae_stamp e)] else []) @ keys))"
| "reg_run a g (RegCleanup ips now # es) = reg_run (cleanupRegLimit a ips now) g es"

fun reg_windows :: "reg_event list \<Rightarrow> window_event list" where
  "reg_windows [] = []"
| "reg_windows (Registration e r # es) =
     (if q_Method r = ''POST'' then [Call (reg_ip r) (ae_now e) (ae_stamp e)] else []) @ reg_windows es"
| "reg_windows (RegCleanup ips now # es) = Sweep ips now # reg_windows es"

lemma HandleRegisterUser_limit:
  assumes "HandleRegisterUser a g e r = (a1, g1, resp)"
  shows "q_Method r \<noteq> ''POST'' \<Longrightarrow> a1 = a \<and> fst resp = 405"
    and "q_Method r = ''POST'' \<Longrightarrow> regLimit a1 = fst (RegAllow (regLimit a) (reg_ip r) (ae_now e) (ae_stamp e)) \<and>
      (fst resp = 200 \<longrightarrow> snd (RegAllow (regLimit a) (reg_ip r) (ae_now e) (ae_stamp e)))"
  using assms by (auto simp: HandleRegisterUser_def Let_def split_beta split: if_splits option.splits)

text \<open>The registrations given a key are among those the limit let through.\<close>

lemma reg_run_window:
  assumes "reg_run a g es = (a', g', keys)"
  shows "\<exists>m lg. window_run RegAllow reg_sweep (regLimit a) (reg_windows es) = (m, lg) \<and> subseq keys lg"
  using assms
proof (induction es arbitrary: a g keys)
  case (Cons ev es)
  show ?case
  proof (cases ev)
    case (Registration e r)
    obtain a1 g1 resp where h: "HandleRegisterUser a g e r = (a1, g1, resp)" by (metis prod.collapse)
    obtain ks where ks: "reg_run a1 g1 es = (a', g', ks)" "keys = (if fst resp = 200 then [(reg_ip r, ae_stamp e)] else []) @ ks"
      using Cons.prems by (auto simp: Registration h split: prod.splits)
    obtain m lg where w: "window_run RegAllow reg_sweep (regLimit a1) (reg_windows es) = (m, lg)" "subseq ks lg"
      using Cons.IH [OF ks(1)] by blast
    show ?thesis
      using HandleRegisterUser_limit [OF h] w ks(2)
      by (cases "q_Method r = ''POST''") (auto simp: Registration split_beta intro: subseq_Cons2 list_emb.list_emb_Cons)
  next
    case (RegCleanup ips now)
    then show ?thesis using Cons.IH [of "cleanupRegLimit a ips now" g keys] Cons.prems by (simp add: cleanupRegLimit_def)
  qed
qed simp

lemma subseq_filter_length: "subseq xs ys \<Longrightarrow> length (filter P (map f xs)) \<le> length (filter P (map f ys))"
  by (rule list_emb_length [of "(=)"]) (intro subseq_filter subseq_map)

text \<open>
  C23: at most three API keys are created for one client address in any hour, whatever the requests and
  whenever the clean-up runs.
\<close>

theorem registrations_per_hour:
  assumes "reg_run (New_api b) g es = (a', g', keys)" "clocked (reg_windows es)"
    and "\<And>e r. Registration e r \<in> set es \<Longrightarrow> ae_now e \<le> ae_stamp e"
  shows "length (filter (\<lambda>t. u - 3600000000000 < t \<and> t \<le> u) (stamps ip keys)) \<le> 3"
proof -
  obtain m lg where w: "window_run RegAllow reg_sweep Map.empty (reg_windows es) = (m, lg)" "subseq keys lg"
    using reg_run_window [OF assms(1)] by (auto simp: New_api_def)
  have "read_by (\<le>) (reg_windows es)"
    using assms(3) by (induction es rule: reg_windows.induct) auto
  then have "int (length (filter (\<lambda>t. u - 3600000000000 < t \<and> t \<le> u) (stamps ip lg))) \<le> max 0 3"
    using registrations.window_bound [OF w(1) _ assms(2)] by (simp add: entries_of_def)
  moreover have "length (filter P (stamps ip keys)) \<le> length (filter P (stamps ip lg))" for P
    unfolding stamps_def by (rule subseq_filter_length) (rule subseq_filter [OF w(2)])
  ultimately show ?thesis by (metis (no_types, lifting) max_def of_nat_le_iff of_nat_numeral order_trans zero_le_numeral)
qed

definition reg_request :: api_request where
  \<open>reg_request = \<lparr>q_Method = ''POST'', q_RemoteAddr = ''a'', q_XRealIp = '''', q_Authorization = '''',
     q_XPlayground = '''', q_Body = ''{"name":"x"}'', q_BodyErr = False\<rparr>\<close>

definition reg_env :: "time \<Rightarrow> string \<Rightarrow> api_env" where
  "reg_env t b = \<lparr>ae_now = t, ae_stamp = t + 1, ae_random = Some b, ae_uuid = ''id'', ae_db = (\<lambda>_. no_faults)\<rparr>"

theorem registrations_per_hour_witness:
  "length (filter (\<lambda>t. 0 < t \<and> t \<le> 3600000000000) (stamps ''a'' (snd (snd
     (reg_run (New_api \<lparr>bi_Version = ''0.2.0'', bi_Commit = ''dev''\<rparr>) (New_gateway empty_db (New (Fin 5) None))
       [Registration (reg_env 1 ''k1'') reg_request, Registration (reg_env 3 ''k2'') reg_request,
        Registration (reg_env 5 ''k3'') reg_request, RegCleanup [''a''] 7,
        Registration (reg_env 8 ''k4'') reg_request]))))) \<le> 3"
proof -
  let ?es = "[Registration (reg_env 1 ''k1'') reg_request, Registration (reg_env 3 ''k2'') reg_request,
        Registration (reg_env 5 ''k3'') reg_request, RegCleanup [''a''] 7,
        Registration (reg_env 8 ''k4'') reg_request]"
  obtain a' g' keys where r: "reg_run (New_api \<lparr>bi_Version = ''0.2.0'', bi_Commit = ''dev''\<rparr>)
      (New_gateway empty_db (New (Fin 5) None)) ?es = (a', g', keys)" by (metis prod.collapse)
  have "length (filter (\<lambda>t. 3600000000000 - 3600000000000 < t \<and> t \<le> 3600000000000) (stamps ''a'' keys)) \<le> 3"
    by (rule registrations_per_hour [OF r]) (auto simp: clocked_def reg_env_def reg_request_def)
  then show ?thesis unfolding r by simp
qed

end
