(* ===== verification/Payout.thy ===== *)
theory Payout
  imports Lightning Ledger
begin

text \<open>
  \<open>internal/lightning/payout.go\<close>: the payout engine. Its state is what it spent in the current hour; the
  database and the Lightning client are passed through. The client is any implementation of the
  interface (\<open>pay\<close>, on a state of its own), \<open>PayAddress\<close> of the LND client in particular. What a tick gets
  from outside, the times it reads and the drivers of its statements, is its \<open>payout_env\<close>.
\<close>

section \<open>The engine\<close>

record PayoutEngine =
  maxPerHour :: int64
  spentThisHour :: int64
  hourStart :: time

definition NewPayoutEngine :: "int64 \<Rightarrow> time \<Rightarrow> PayoutEngine" where
  "NewPayoutEngine m now = \<lparr>maxPerHour = m, spentThisHour = 0, hourStart = now\<rparr>"

record payout_env =
  pe_since :: time
  pe_reset :: time
  pe_query :: driver
  pe_balance :: "string \<Rightarrow> driver"
  pe_record :: "string \<Rightarrow> driver"
  pe_paid_at :: "string \<Rightarrow> time"

type_synonym 'w payer = "'w \<Rightarrow> string \<Rightarrow> int64 \<Rightarrow> 'w \<times> (lnd_error + string)"

abbreviation hour :: time where "hour \<equiv> 3600000000000"

text \<open>The loop body for one node; \<open>spent\<close> is the local variable of that name.\<close>

definition pay_node ::
  "'w payer \<Rightarrow> payout_env \<Rightarrow> Node \<Rightarrow> PayoutEngine \<times> int64 \<times> DB \<times> 'w \<Rightarrow> PayoutEngine \<times> int64 \<times> DB \<times> 'w" where
  "pay_node pay e n s =
     (let (pe, spent, db, w) = s
      in case NodeBalance (pe_balance e (n_node_id n)) db (n_node_id n) of
           Inl _ \<Rightarrow> s
         | Inr balance \<Rightarrow>
             if balance \<le> 0 then s
             else
               (let payoutSats = quo balance 1000
                in if payoutSats < n_redeem_threshold n then s
                   else if maxPerHour pe > 0 \<and> wrap64 (spent + payoutSats) > maxPerHour pe then s
                   else if n_lightning_addr n = '''' then s
                   else
                     (let (w1, r) = pay w (n_lightning_addr n) payoutSats
                      in case r of
                           Inl _ \<Rightarrow> (pe, spent, db, w1)
                         | Inr payHash \<Rightarrow>
                             if payHash = '''' then (pe, spent, db, w1)
                             else
                               (let (db1, dbErr) = RecordPayout (pe_record e (n_node_id n)) db (n_node_id n)
                                      (wrap64 (payoutSats * 1000)) payHash ''confirmed'' (pe_paid_at e (n_node_id n))
                                in (pe\<lparr>spentThisHour := wrap64 (spentThisHour pe + payoutSats)\<rparr>,
                                    wrap64 (spent + payoutSats), db1, w1)))))"

definition start_tick :: "payout_env \<Rightarrow> PayoutEngine \<Rightarrow> PayoutEngine" where
  "start_tick e pe =
     (if pe_since e - hourStart pe > hour then pe\<lparr>spentThisHour := 0, hourStart := pe_reset e\<rparr> else pe)"

definition processPayouts ::
  "'w payer \<Rightarrow> payout_env \<Rightarrow> PayoutEngine \<times> DB \<times> 'w \<Rightarrow> PayoutEngine \<times> DB \<times> 'w" where
  "processPayouts pay e s =
     (let (pe, db, w) = s; pe1 = start_tick e pe
      in case PendingPayouts (pe_query e) db of
           Inl _ \<Rightarrow> (pe1, db, w)
         | Inr nodes \<Rightarrow>
             (let (pe2, spent, db2, w2) = fold (pay_node pay e) nodes (pe1, spentThisHour pe1, db, w)
              in (pe2, db2, w2)))"

text \<open>One tick of \<open>loop\<close>; without a client nothing happens.\<close>

definition payout_tick ::
  "'w payer option \<Rightarrow> payout_env \<Rightarrow> PayoutEngine \<times> DB \<times> 'w \<Rightarrow> PayoutEngine \<times> DB \<times> 'w" where
  "payout_tick client e s = (case client of None \<Rightarrow> s | Some pay \<Rightarrow> processPayouts pay e s)"

section \<open>One node\<close>

definition confirmed :: "lnd_error + string \<Rightarrow> bool" where
  "confirmed r \<longleftrightarrow> (\<exists>h. r = Inr h \<and> h \<noteq> '''')"

text \<open>The state of a node that is paid: what is owed, in whole sats.\<close>

definition payable :: "payout_env \<Rightarrow> Node \<Rightarrow> int64 \<Rightarrow> int64 \<Rightarrow> DB \<Rightarrow> int \<Rightarrow> bool" where
  "payable e n m spent db sats \<longleftrightarrow>
     (\<exists>b. NodeBalance (pe_balance e (n_node_id n)) db (n_node_id n) = Inr b \<and> 0 < b \<and> sats = b div 1000) \<and>
     n_redeem_threshold n \<le> sats \<and> (0 < m \<longrightarrow> wrap64 (spent + sats) \<le> m) \<and> n_lightning_addr n \<noteq> ''''"

lemma pay_node_skip:
  assumes "\<nexists>sats. payable e n (maxPerHour pe) spent db sats"
  shows "pay_node pay e n (pe, spent, db, w) = (pe, spent, db, w)"
proof (cases "NodeBalance (pe_balance e (n_node_id n)) db (n_node_id n)")
  case (Inr b)
  have "\<not> payable e n (maxPerHour pe) spent db (b div 1000)" using assms by blast
  then show ?thesis by (auto simp: pay_node_def payable_def Inr Let_def)
qed (simp add: pay_node_def)

lemma pay_node_pays:
  assumes "payable e n (maxPerHour pe) spent db sats"
  shows "pay_node pay e n (pe, spent, db, w) =
    (let (w1, r) = pay w (n_lightning_addr n) sats
     in if confirmed r then
          (pe\<lparr>spentThisHour := wrap64 (spentThisHour pe + sats)\<rparr>, wrap64 (spent + sats),
           fst (RecordPayout (pe_record e (n_node_id n)) db (n_node_id n) (wrap64 (sats * 1000)) (projr r)
             ''confirmed'' (pe_paid_at e (n_node_id n))), w1)
        else (pe, spent, db, w1))"
proof -
  obtain b where b: "NodeBalance (pe_balance e (n_node_id n)) db (n_node_id n) = Inr b" "0 < b" "sats = b div 1000"
    and ok: "\<not> sats < n_redeem_threshold n" "\<not> (0 < maxPerHour pe \<and> maxPerHour pe < wrap64 (spent + sats))"
      "n_lightning_addr n \<noteq> ''''"
    using assms by (fastforce simp: payable_def)
  obtain w1 r where r: "pay w (n_lightning_addr n) sats = (w1, r)" by force
  have "quo b 1000 = sats" "\<not> 0 < maxPerHour pe \<or> \<not> maxPerHour pe < wrap64 (spent + sats)"
    using b ok(2) by simp_all
  then show ?thesis
    using b(1,2) ok(1,3) by (elim disjE; cases r; simp add: pay_node_def confirmed_def r split_beta)
qed

lemma pay_node_cases [consumes 1, case_names skip refused paid]:
  assumes "pay_node pay e n (pe, spent, db, w) = s"
  obtains "s = (pe, spent, db, w)"
  | sats where "payable e n (maxPerHour pe) spent db sats" "\<not> confirmed (snd (pay w (n_lightning_addr n) sats))"
      "s = (pe, spent, db, fst (pay w (n_lightning_addr n) sats))"
  | sats h where "payable e n (maxPerHour pe) spent db sats" "snd (pay w (n_lightning_addr n) sats) = Inr h" "h \<noteq> ''''"
      "s = (pe\<lparr>spentThisHour := wrap64 (spentThisHour pe + sats)\<rparr>, wrap64 (spent + sats),
        fst (RecordPayout (pe_record e (n_node_id n)) db (n_node_id n) (wrap64 (sats * 1000)) h ''confirmed''
          (pe_paid_at e (n_node_id n))), fst (pay w (n_lightning_addr n) sats))"
proof (cases "\<exists>sats. payable e n (maxPerHour pe) spent db sats")
  case True
  then obtain sats where p: "payable e n (maxPerHour pe) spent db sats" ..
  show ?thesis
  proof (cases "confirmed (snd (pay w (n_lightning_addr n) sats))")
    case True
    then obtain h where h: "snd (pay w (n_lightning_addr n) sats) = Inr h" "h \<noteq> ''''" by (auto simp: confirmed_def)
    then show ?thesis
      using that(3) [OF p h] pay_node_pays [OF p, of pay w] assms True by (simp add: split_beta Let_def)
  next
    case False
    then show ?thesis using that(2) [OF p False] pay_node_pays [OF p, of pay w] assms by (simp add: split_beta Let_def)
  qed
qed (use that(1) pay_node_skip assms in metis)


section \<open>The hourly cap\<close>

lemma payable_bounds:
  assumes "payable e n m spent db sats" "0 \<le> spent" "spent \<le> 2 ^ 62"
  shows "0 \<le> sats" "sats \<le> max_int64 div 1000" "wrap64 (spent + sats) = spent + sats" "0 < m \<longrightarrow> spent + sats \<le> m"
proof -
  obtain b where b: "NodeBalance (pe_balance e (n_node_id n)) db (n_node_id n) = Inr b" "0 < b" "sats = b div 1000"
    using assms(1) by (auto simp: payable_def)
  have "b \<le> max_int64"
    using b(1) wrap64_range by (auto simp: NodeBalance_def in_int64_def split: if_splits sum.splits)
  then show s: "0 \<le> sats" "sats \<le> max_int64 div 1000" using b by (auto intro: zdiv_mono1)
  then show w: "wrap64 (spent + sats) = spent + sats"
    using assms(2,3) by (simp add: in_int64_def)
  show "0 < m \<longrightarrow> spent + sats \<le> m" using assms(1) unfolding payable_def w by blast
qed

text \<open>A client that keeps a log of what it confirmed, whatever it is.\<close>

definition logged :: "'w payer \<Rightarrow> ('w \<times> (string \<times> int) list) payer" where
  "logged pay s a n = (let (w1, r) = pay (fst s) a n in ((w1, snd s @ (if confirmed r then [(a, n)] else [])), r))"

definition paid_total :: "(string \<times> int) list \<Rightarrow> int" where
  "paid_total lg = sum_list (map snd lg)"

lemma paid_total_simps [simp]: "paid_total [] = 0" "paid_total (xs @ ys) = paid_total xs + paid_total ys" "paid_total [x] = snd x"
  by (simp_all add: paid_total_def)

definition within_cap :: "int64 \<Rightarrow> PayoutEngine \<Rightarrow> bool" where
  "within_cap m pe \<longleftrightarrow> maxPerHour pe = m \<and> 0 \<le> spentThisHour pe \<and> spentThisHour pe \<le> m"

lemma pay_node_within:
  assumes "0 < m" "m \<le> 2 ^ 62" "within_cap m pe" "spent = spentThisHour pe"
    and "pay_node pay e n (pe, spent, db, w) = (pe', spent', db', w')"
  shows "within_cap m pe' \<and> spent' = spentThisHour pe' \<and> hourStart pe' = hourStart pe"
  using assms(5)
proof (cases rule: pay_node_cases)
  case (paid sats h)
  have "0 \<le> sats" "wrap64 (spent + sats) = spent + sats" "spent + sats \<le> m"
    using payable_bounds [OF paid(1)] assms by (auto simp: within_cap_def)
  then show ?thesis using paid assms by (auto simp: within_cap_def)
qed (use assms in auto)

lemma pay_node_cap:
  assumes "0 < m" "m \<le> 2 ^ 62" "within_cap m pe" "spent = spentThisHour pe"
    and "pay_node (logged pay) e n (pe, spent, db, w, lg) = (pe', spent', db', w', lg')"
  shows "paid_total lg' - spentThisHour pe' = paid_total lg - spentThisHour pe"
  using assms(5)
proof (cases rule: pay_node_cases)
  case (paid sats h)
  have "wrap64 (spent + sats) = spent + sats"
    using payable_bounds [OF paid(1)] assms by (auto simp: within_cap_def)
  then show ?thesis using paid assms(4) by (auto simp: logged_def confirmed_def split_beta Let_def)
qed (auto simp: logged_def split_beta Let_def)

lemma pay_nodes_cap:
  assumes "0 < m" "m \<le> 2 ^ 62" "within_cap m pe" "spent = spentThisHour pe"
    and "fold (pay_node (logged pay) e) ns (pe, spent, db, w, lg) = (pe', spent', db', w', lg')"
  shows "within_cap m pe' \<and> hourStart pe' = hourStart pe \<and> paid_total lg' - spentThisHour pe' = paid_total lg - spentThisHour pe"
  using assms(3-5)
proof (induction ns arbitrary: pe spent db w lg)
  case (Cons n ns)
  obtain pe1 s1 db1 w1 log1 where s: "pay_node (logged pay) e n (pe, spent, db, w, lg) = (pe1, s1, db1, w1, log1)"
    by (metis prod.collapse)
  note one = pay_node_within [OF assms(1,2) Cons.prems(1,2) s] pay_node_cap [OF assms(1,2) Cons.prems(1,2) s]
  have "within_cap m pe' \<and> hourStart pe' = hourStart pe1 \<and> paid_total lg' - spentThisHour pe' = paid_total log1 - spentThisHour pe1"
    by (rule Cons.IH [of pe1 s1 db1 w1 log1]) (use one Cons.prems(3) s in auto)
  then show ?case using one by simp
qed simp

text \<open>
  A run of the engine: the ticks with the database each finds, which others change in between.
\<close>

fun payout_run :: "'w payer \<Rightarrow> (payout_env \<times> DB) list \<Rightarrow> PayoutEngine \<times> 'w \<Rightarrow> PayoutEngine \<times> 'w" where
  "payout_run pay [] s = s"
| "payout_run pay ((e, db) # ts) s =
     (let (pe, db', w) = processPayouts pay e (fst s, db, snd s) in payout_run pay ts (pe, w))"

definition tick_times :: "(payout_env \<times> DB) list \<Rightarrow> time list" where
  "tick_times ts = concat (map (\<lambda>(e, db). [pe_since e, pe_reset e]) ts)"

lemma tick_times_simps [simp]:
  "tick_times [] = []" "tick_times ((e, db) # ts) = pe_since e # pe_reset e # tick_times ts"
  by (simp_all add: tick_times_def)

lemma tick_cap:
  assumes "0 < m" "m \<le> 2 ^ 62" "within_cap m pe"
    and "processPayouts (logged pay) e (pe, db, w, lg) = (pe', db', w', lg')"
  shows "within_cap m pe' \<and>
    ((hourStart pe' = hourStart pe \<and> paid_total lg' - spentThisHour pe' = paid_total lg - spentThisHour pe) \<or>
     (hour < pe_since e - hourStart pe \<and> hourStart pe' = pe_reset e \<and> paid_total lg' - spentThisHour pe' = paid_total lg))"
proof -
  define pe1 where "pe1 = start_tick e pe"
  have pe1: "within_cap m pe1" "pe1 = pe \<or> hour < pe_since e - hourStart pe \<and> hourStart pe1 = pe_reset e \<and> spentThisHour pe1 = 0"
    using assms(1,3) by (auto simp: pe1_def start_tick_def within_cap_def)
  show ?thesis
  proof (cases "PendingPayouts (pe_query e) db")
    case (Inl e')
    then show ?thesis using assms(4) pe1 by (auto simp: processPayouts_def pe1_def [symmetric] Let_def)
  next
    case (Inr ns)
    obtain pe2 s2 db2 w2 log2 where f:
      "fold (pay_node (logged pay) e) ns (pe1, spentThisHour pe1, db, w, lg) = (pe2, s2, db2, w2, log2)"
      by (metis prod.collapse)
    show ?thesis
      using pay_nodes_cap [OF assms(1,2) pe1(1) refl f] pe1 assms(4)
      by (auto simp: processPayouts_def pe1_def [symmetric] Inr f Let_def)
  qed
qed

lemma payout_run_cap:
  assumes "0 < m" "m \<le> 2 ^ 62"
    and "payout_run (logged pay) ts (pe, w, lg) = (pe', w', lg')"
    and "within_cap m pe" "paid_total lg - spentThisHour pe \<le> m * k" "t0 + k * hour \<le> hourStart pe"
    and "hourStart pe \<le> u" "sorted (tick_times ts)" "\<forall>t\<in>set (tick_times ts). t \<le> u"
  shows "\<exists>k'. within_cap m pe' \<and> paid_total lg' - spentThisHour pe' \<le> m * k' \<and> t0 + k' * hour \<le> u"
  using assms(3-9)
proof (induction ts arbitrary: pe w lg k)
  case (Cons t ts)
  obtain e db where t: "t = (e, db)" by force
  obtain pe1 db1 w1 lg1 where p: "processPayouts (logged pay) e (pe, db, w, lg) = (pe1, db1, w1, lg1)"
    by (metis prod.collapse)
  have run: "payout_run (logged pay) ts (pe1, w1, lg1) = (pe', w', lg')" using Cons.prems(1) by (simp add: t p)
  have clock: "pe_since e \<le> pe_reset e" "pe_reset e \<le> u" "sorted (tick_times ts)" "\<forall>t\<in>set (tick_times ts). t \<le> u"
    using Cons.prems(6,7) by (auto simp: t)
  note tick = tick_cap [OF assms(1,2) Cons.prems(2) p]
  then have w1: "within_cap m pe1" by blast
  from tick consider (same) "hourStart pe1 = hourStart pe" "paid_total lg1 - spentThisHour pe1 = paid_total lg - spentThisHour pe"
    | (reset) "hour < pe_since e - hourStart pe" "hourStart pe1 = pe_reset e" "paid_total lg1 - spentThisHour pe1 = paid_total lg"
    by blast
  then show ?case
  proof cases
    case same
    then show ?thesis using Cons.IH [OF run w1 _ _ _ clock(3,4), of k] Cons.prems by simp
  next
    case reset
    have "spentThisHour pe \<le> m" using Cons.prems(2) by (simp add: within_cap_def)
    then have "paid_total lg1 - spentThisHour pe1 \<le> m * (k + 1)"
      using Cons.prems(3) reset(3) by (simp add: distrib_left)
    moreover have "t0 + (k + 1) * hour \<le> hourStart pe1"
      using Cons.prems(4) reset(1,2) clock(1) by simp
    ultimately show ?thesis using Cons.IH [OF run w1, of "k + 1"] clock reset(2) by simp
  qed
qed auto

text \<open>
  C8: whatever the database holds at each tick and whatever the Lightning client does, the payments it
  confirmed in the first \<open>t\<close> of a run add up to at most the cap once per hour begun.
\<close>

theorem hourly_cap:
  assumes "0 < m" "m \<le> 2 ^ 62" "0 \<le> t" "sorted (t0 # tick_times ts)" "\<forall>u\<in>set (tick_times ts). u \<le> t0 + t"
    and "payout_run (logged pay) ts (NewPayoutEngine m t0, w, []) = (pe, w', lg)"
  shows "paid_total lg \<le> m * (1 + t div hour)"
proof -
  obtain k where k: "within_cap m pe" "paid_total lg - spentThisHour pe \<le> m * k" "t0 + k * hour \<le> t0 + t"
    using payout_run_cap [OF assms(1,2,6), of 0 t0 "t0 + t"] assms(1,3,4,5)
    by (auto simp: NewPayoutEngine_def within_cap_def)
  have "k \<le> t div hour" using k(3) by (simp add: zdiv_mono1 [of "k * hour" t hour, simplified])
  then have "m * k \<le> m * (t div hour)" using assms(1) by simp
  then show ?thesis using k(1,2) by (simp add: within_cap_def distrib_left)
qed

definition calm_env :: payout_env where
  "calm_env = \<lparr>pe_since = 5, pe_reset = 6, pe_query = no_faults, pe_balance = (\<lambda>_. no_faults),
     pe_record = (\<lambda>_. no_faults), pe_paid_at = (\<lambda>_. 7)\<rparr>"

section \<open>What nodes are owed\<close>

definition owed :: "DB \<Rightarrow> string \<Rightarrow> int" where
  "owed db n = earned_by db n - paid_out db n"

text \<open>No node was paid more than it earned, and sums stay within 64 bits.\<close>

definition solvent :: "DB \<Rightarrow> bool" where
  "solvent db \<longleftrightarrow>
     (\<forall>j\<in>set (tbl_jobs db). 0 \<le> j_earned_msats j) \<and> (\<forall>p\<in>set (tbl_payouts db). 0 \<le> p_amount_msats p) \<and>
     sum_list (map j_earned_msats (tbl_jobs db)) \<le> max_int64 \<and> (\<forall>n. 0 \<le> owed db n)"

lemma solvent_bounds:
  assumes "solvent db"
  shows "0 \<le> earned_by db n" "earned_by db n \<le> max_int64" "0 \<le> paid_out db n" "paid_out db n \<le> earned_by db n"
    "0 \<le> owed db n" "owed db n \<le> max_int64"
proof -
  show e: "0 \<le> earned_by db n" "earned_by db n \<le> max_int64" "0 \<le> paid_out db n"
    using assms sum_list_filter_le [of "tbl_jobs db" j_earned_msats "completed_by n"]
      sum_list_filter_le [of "tbl_payouts db" p_amount_msats "paid_to n"]
    by (auto simp: solvent_def earned_by_def paid_out_def)
  show o: "0 \<le> owed db n" using assms by (simp add: solvent_def)
  then show "paid_out db n \<le> earned_by db n" "owed db n \<le> max_int64" using e by (simp_all add: owed_def)
qed

lemma solvent_sums:
  assumes "solvent db"
  shows "sql_sum (map j_earned_msats (filter (completed_by n) (tbl_jobs db))) = Inr (earned_by db n)"
    and "sql_sum (map p_amount_msats (filter (paid_to n) (tbl_payouts db))) = Inr (paid_out db n)"
  using solvent_bounds [OF assms, of n] assms
  by (auto simp: sql_sum_nonneg earned_by_def paid_out_def solvent_def)

lemma solvent_balance:
  "solvent db \<Longrightarrow> NodeBalance d db n = (if fails d 0 \<or> fails d 1 then Inl ErrDriver else Inr (owed db n))"
  using solvent_bounds [of db n] by (simp add: NodeBalance_def solvent_sums owed_def in_int64_def)

lemma solvent_unpaid: "solvent db \<Longrightarrow> unpaid db n = Some (owed db n)"
  by (simp add: unpaid_def solvent_sums owed_def)

lemma RecordPayout_owed:
  "owed (fst (RecordPayout d db n a h ''confirmed'' t)) m = owed db m - (if m = n \<and> \<not> fails d 0 then a else 0)"
  by (simp add: RecordPayout_def owed_def earned_by_def paid_out_def paid_to_def)

lemma RecordPayout_solvent:
  assumes "solvent db" "0 \<le> a" "a \<le> owed db n"
  shows "solvent (fst (RecordPayout d db n a h ''confirmed'' t))"
proof -
  have "0 \<le> owed (fst (RecordPayout d db n a h ''confirmed'' t)) m" for m
    using solvent_bounds(5) [OF assms(1)] assms(2,3) by (simp add: RecordPayout_owed)
  then show ?thesis using assms(1,2) by (auto simp: solvent_def RecordPayout_def)
qed

lemma payable_solvent:
  assumes "solvent db"
  shows "payable e n m spent db sats \<longleftrightarrow>
    \<not> fails (pe_balance e (n_node_id n)) 0 \<and> \<not> fails (pe_balance e (n_node_id n)) 1 \<and>
    0 < owed db (n_node_id n) \<and> sats = owed db (n_node_id n) div 1000 \<and> n_redeem_threshold n \<le> sats \<and>
    (0 < m \<longrightarrow> wrap64 (spent + sats) \<le> m) \<and> n_lightning_addr n \<noteq> ''''"
  using assms by (auto simp: payable_def solvent_balance)

text \<open>What one node's turn does to the database: nothing, or a payout of the whole sats it is owed.\<close>

definition pays_out :: "string \<Rightarrow> DB \<Rightarrow> DB \<Rightarrow> bool" where
  "pays_out n db db' \<longleftrightarrow> db' = db \<or>
     (\<exists>d h t. h \<noteq> '''' \<and> 0 < owed db n \<and> db' = fst (RecordPayout d db n (owed db n div 1000 * 1000) h ''confirmed'' t))"

lemma pay_node_pays_out:
  assumes "solvent db" "pay_node pay e n (pe, spent, db, w) = (pe', spent', db', w')"
  shows "pays_out (n_node_id n) db db'"
  using assms(2)
proof (cases rule: pay_node_cases)
  case (paid sats h)
  have s: "sats = owed db (n_node_id n) div 1000" "0 < owed db (n_node_id n)"
    using paid(1) by (simp_all add: payable_solvent [OF assms(1)])
  have "sats * 1000 \<le> owed db (n_node_id n)" by (simp add: s(1))
  then have "wrap64 (sats * 1000) = sats * 1000"
    using solvent_bounds(6) [OF assms(1), of "n_node_id n"] s by (simp add: in_int64_def)
  then show ?thesis using paid s by (auto simp: pays_out_def)
qed (simp_all add: pays_out_def)

lemma pays_out_solvent: "solvent db \<Longrightarrow> pays_out n db db' \<Longrightarrow> solvent db'"
  by (auto simp: pays_out_def intro!: RecordPayout_solvent)

lemma pays_out_frame:
  assumes "pays_out n db db'"
  shows "tbl_nodes db' = tbl_nodes db" "tbl_api_keys db' = tbl_api_keys db" "tbl_invoices db' = tbl_invoices db"
    "tbl_jobs db' = tbl_jobs db" "m \<noteq> n \<Longrightarrow> owed db' m = owed db m"
  using assms by (auto simp: pays_out_def RecordPayout_owed) (auto simp: RecordPayout_def)

lemma pay_nodes_solvent:
  assumes "solvent db" "fold (pay_node pay e) ns (pe, spent, db, w) = (pe', spent', db', w')"
  shows "solvent db' \<and> tbl_nodes db' = tbl_nodes db \<and> tbl_api_keys db' = tbl_api_keys db \<and>
    tbl_invoices db' = tbl_invoices db \<and> tbl_jobs db' = tbl_jobs db \<and>
    (\<forall>m. m \<notin> n_node_id ` set ns \<longrightarrow> owed db' m = owed db m)"
  using assms
proof (induction ns arbitrary: pe spent db w)
  case (Cons n ns)
  obtain pe1 s1 db1 w1 where s: "pay_node pay e n (pe, spent, db, w) = (pe1, s1, db1, w1)"
    by (metis prod.collapse)
  note one = pay_node_pays_out [OF Cons.prems(1) s]
  show ?case
    using Cons.IH [OF pays_out_solvent [OF Cons.prems(1) one], of pe1 s1 w1] Cons.prems(2) s
      pays_out_frame [OF one] by auto
qed simp

lemma processPayouts_fold [consumes 1, case_names failed queried]:
  assumes "processPayouts pay e (pe, db, w) = (pe', db', w')"
  obtains x where "PendingPayouts (pe_query e) db = Inl x" "pe' = start_tick e pe" "db' = db" "w' = w"
  | ns spent' where "PendingPayouts (pe_query e) db = Inr ns"
    "fold (pay_node pay e) ns (start_tick e pe, spentThisHour (start_tick e pe), db, w) = (pe', spent', db', w')"
  using assms by (auto simp: processPayouts_def Let_def split: sum.splits prod.splits)

definition recorded :: "DB \<Rightarrow> nat" where
  "recorded db = length (tbl_payouts db)"

context lightning_client begin

lemma node_orders:
  assumes "pay_node pay e n (pe, spent, db, w) = (pe', spent', db', w')"
  shows "recorded db' + placed w \<le> recorded db + placed w'" "placed w \<le> placed w'" "placed w' \<le> placed w + 1"
  using assms by (cases rule: pay_node_cases;
      fastforce simp: recorded_def RecordPayout_def confirmed_def pay_hash intro: pay_bounds)+

lemma nodes_orders:
  "fold (pay_node pay e) ns (pe, spent, db, w) = (pe', spent', db', w') \<Longrightarrow>
   recorded db' + placed w \<le> recorded db + placed w' \<and> placed w' \<le> placed w + length ns"
proof (induction ns arbitrary: pe spent db w)
  case (Cons n ns)
  obtain pe1 s1 db1 w1 where s: "pay_node pay e n (pe, spent, db, w) = (pe1, s1, db1, w1)"
    by (metis prod.collapse)
  show ?case using Cons.IH [of pe1 s1 db1 w1] Cons.prems s node_orders [OF s] by simp
qed simp

lemma tick_orders:
  assumes "processPayouts pay e (pe, db, w) = (pe', db', w')"
  shows "recorded db' + placed w \<le> recorded db + placed w'"
    and "PendingPayouts (pe_query e) db = Inr ns \<Longrightarrow> placed w' \<le> placed w + length ns"
  using assms by (cases rule: processPayouts_fold; use nodes_orders in fastforce)+

end

text \<open>
  C13: a tick of the engine on an LND node, whatever the network does and whatever statements fail, records no
  more payouts than it placed payment orders, places at most one order for each node that is due, and
  never records more paid to a node than it earned.
\<close>

theorem payouts_backed:
  assumes "solvent db" "processPayouts (PayAddress c net) e (pe, db, w) = (pe', db', w')"
  shows "solvent db' \<and> recorded db' + orders w \<le> recorded db + orders w' \<and>
    (\<forall>ns. PendingPayouts (pe_query e) db = Inr ns \<longrightarrow> orders w' \<le> orders w + length ns) \<and>
    tbl_nodes db' = tbl_nodes db \<and> tbl_api_keys db' = tbl_api_keys db \<and>
    tbl_invoices db' = tbl_invoices db \<and> tbl_jobs db' = tbl_jobs db"
proof -
  have "solvent db' \<and> tbl_nodes db' = tbl_nodes db \<and> tbl_api_keys db' = tbl_api_keys db \<and>
      tbl_invoices db' = tbl_invoices db \<and> tbl_jobs db' = tbl_jobs db"
    using assms(2)
  proof (cases rule: processPayouts_fold)
    case (queried ns spent')
    then show ?thesis using pay_nodes_solvent [OF assms(1) queried(2)] by simp
  qed (use assms(1) in simp)
  then show ?thesis using lnd.tick_orders [OF assms(2)] by simp
qed

text \<open>A node that is owed 250.5 sats, and a network on which its address can be paid.\<close>

definition due_node :: Node where
  "due_node = \<lparr>n_node_id = ''node-0001'', n_api_key = ''k'', n_gpu = ''g'', n_gpu_vendor = ''v'', n_vram_total_mb = 1,
    n_models = ''[]'', n_region = ''eu'', n_lightning_addr = ''bob@x.y'', n_redeem_threshold = 100,
    n_free_tier_pct = 0, n_version = ''1'', n_last_seen = 0\<rparr>"

definition due_job :: Job where
  "due_job = \<lparr>j_job_id = ''j'', j_node_id = ''node-0001'', j_user_key = ''u'', j_model = ''m'', j_tokens_in = 1,
    j_tokens_out = 1, j_earned_msats = 250500, j_fee_msats = 0, j_free_tier = False, j_status = ''complete'',
    j_started_at = 0, j_completed_at = None\<rparr>"

definition due_db :: DB where
  "due_db = empty_db\<lparr>tbl_nodes := [due_node], tbl_jobs := [due_job]\<rparr>"

definition paying_net :: net where
  \<open>paying_net w call =
     (if c_method call = ''POST'' then Reply 200 ''{"payment_hash":"AQID"}''
      else if c_url call = ''https://x.y/.well-known/lnurlp/bob'' then
        Reply 200 ''{"callback":"https://x.y/cb","minSendable":1,"maxSendable":100000000}''
      else Reply 200 ''{"pr":"lnbc1"}'')\<close>

abbreviation test_lnd :: LNDClient where
  "test_lnd \<equiv> \<lparr>baseURL = ''https://lnd:8080'', macaroon = ''00''\<rparr>"

lemma due_db_facts: "solvent due_db" "owed due_db m = (if m = ''node-0001'' then 250500 else 0)"
proof -
  show o: "owed due_db m = (if m = ''node-0001'' then 250500 else 0)" for m
    by (simp add: owed_def earned_by_def paid_out_def due_db_def due_job_def completed_by_def empty_db_def)
  show "solvent due_db"
    unfolding solvent_def o by (simp add: due_db_def due_job_def empty_db_def)
qed

lemma example_answers:
  \<open>decode_first dec_lnurl ''{"callback":"https://x.y/cb","minSendable":1,"maxSendable":100000000}''
    \<lparr>lu_callback = '''', lu_min = 0, lu_max = 0\<rparr> =
    (\<lparr>lu_callback = ''https://x.y/cb'', lu_min = 1, lu_max = 100000000\<rparr>, False)\<close>
  \<open>decode_first dec_invoice ''{"pr":"lnbc1"}'' '''' = (''lnbc1'', False)\<close>
  \<open>unmarshal dec_pay_result ''{"payment_hash":"AQID"}'' \<lparr>pr_hash = '''', pr_error = ''''\<rparr> =
    (\<lparr>pr_hash = ''AQID'', pr_error = ''''\<rparr>, False)\<close>
  \<open>b64ToHex ''AQID'' = ''010203''\<close>
  by code_simp+

lemmas example_calls = PayAddress_def resolve_def fetch_invoice_def payInvoice_def send_http_def paying_net_def
  http_get_def pay_call_def lnd_call_def lnurl_url_def invoice_url_def HasPrefix_def example_answers

lemma paying_net_pays:
  assumes "1 \<le> n" "n \<le> 100000"
  shows "snd (PayAddress test_lnd paying_net w ''bob@x.y'' n) = Inr ''010203''"
    and "orders (fst (PayAddress test_lnd paying_net w ''bob@x.y'' n)) = Suc (orders w)"
proof -
  have "wrap64 (n * 1000) = n * 1000" using assms by (simp add: in_int64_def)
  then show r: "snd (PayAddress test_lnd paying_net w ''bob@x.y'' n) = Inr ''010203''"
    using assms by (simp add: example_calls)
  show "orders (fst (PayAddress test_lnd paying_net w ''bob@x.y'' n)) = Suc (orders w)"
    by (rule lnd.pay_hash [OF r])
qed

lemma due_query: "PendingPayouts no_faults due_db = Inr [payout_row due_node]"
  using due_db_facts
  by (simp add: PendingPayouts_def due_def solvent_unpaid Let_def no_faults_def deliver_def due_node_def due_db_def)

lemma calm_env_simps [simp]:
  "pe_query calm_env = no_faults" "pe_balance calm_env n = no_faults" "pe_record calm_env n = no_faults"
  "pe_since calm_env = 5" "pe_paid_at calm_env n = 7"
  by (simp_all add: calm_env_def)

lemma due_payable: "payable calm_env (payout_row due_node) 10000 0 due_db 250"
  by (simp add: payable_solvent due_db_facts payout_row_def due_node_def no_faults_def in_int64_def)

lemma due_tick:
  assumes "snd (pay w ''bob@x.y'' 250) = Inr h" "h \<noteq> ''''"
  shows "processPayouts pay calm_env (NewPayoutEngine 10000 0, due_db, w) =
    ((NewPayoutEngine 10000 0)\<lparr>spentThisHour := 250\<rparr>,
     fst (RecordPayout no_faults due_db ''node-0001'' 250000 h ''confirmed'' 7), fst (pay w ''bob@x.y'' 250))"
proof -
  have n: "n_node_id (payout_row due_node) = ''node-0001''" "n_lightning_addr (payout_row due_node) = ''bob@x.y''"
    by (simp_all add: payout_row_def due_node_def)
  have "pay_node pay calm_env (payout_row due_node) (NewPayoutEngine 10000 0, 0, due_db, w) =
    ((NewPayoutEngine 10000 0)\<lparr>spentThisHour := 250\<rparr>, 250,
     fst (RecordPayout no_faults due_db ''node-0001'' 250000 h ''confirmed'' 7), fst (pay w ''bob@x.y'' 250))"
    using assms due_payable
    by (simp add: pay_node_pays NewPayoutEngine_def n confirmed_def split_beta Let_def in_int64_def)
  then show ?thesis by (simp add: processPayouts_def due_query start_tick_def NewPayoutEngine_def)
qed

theorem payouts_backed_witness:
  "\<exists>pe' db' w'. processPayouts (PayAddress test_lnd paying_net) calm_env (NewPayoutEngine 10000 0, due_db, []) =
     (pe', db', w') \<and> orders w' = 1 \<and> solvent db' \<and> owed db' ''node-0001'' = 500"
proof -
  let ?pay = "PayAddress test_lnd paying_net"
  obtain pe' db' w' where r: "processPayouts ?pay calm_env (NewPayoutEngine 10000 0, due_db, []) = (pe', db', w')"
    by (metis prod.collapse)
  have "snd (?pay [] ''bob@x.y'' 250) = Inr ''010203''" "orders (fst (?pay [] ''bob@x.y'' 250)) = 1"
    using paying_net_pays [of 250 "[]"] by (simp_all add: orders_def)
  then have "orders w' = 1 \<and> owed db' ''node-0001'' = 500"
    using r by (auto simp: due_tick RecordPayout_owed due_db_facts no_faults_def)
  then show ?thesis using payouts_backed [OF due_db_facts(1) r] r by blast
qed

text \<open>The cap over a tick that pays 250 sats.\<close>

theorem hourly_cap_witness:
  "\<exists>pe w lg. payout_run (logged (PayAddress test_lnd paying_net)) [(calm_env, due_db)] (NewPayoutEngine 10000 0, [], []) =
     (pe, w, lg) \<and> lg = [(''bob@x.y'', 250)] \<and> paid_total lg \<le> 10000 * (1 + 10 div hour)"
proof -
  let ?pay = "PayAddress test_lnd paying_net"
  obtain w where pay: "?pay [] ''bob@x.y'' 250 = (w, Inr ''010203'')"
    using paying_net_pays(1) [of 250 "[]"] by (simp add: prod_eq_iff)
  then have l: "logged ?pay ([], []) ''bob@x.y'' 250 = ((w, [(''bob@x.y'', 250)]), Inr ''010203'')"
    by (simp add: logged_def confirmed_def)
  obtain pe db' where "processPayouts (logged ?pay) calm_env (NewPayoutEngine 10000 0, due_db, [], []) =
      (pe, db', w, [(''bob@x.y'', 250)])"
    using due_tick [of "logged ?pay" "([], [])" "''010203''"] unfolding l by simp
  then have run: "payout_run (logged ?pay) [(calm_env, due_db)] (NewPayoutEngine 10000 0, [], []) = (pe, w, [(''bob@x.y'', 250)])"
    by simp
  have "paid_total [(''bob@x.y'', 250)] \<le> 10000 * (1 + 10 div hour)"
    by (rule hourly_cap [OF _ _ _ _ _ run]) (simp_all add: calm_env_def)
  then show ?thesis using run by blast
qed

section \<open>Who is paid\<close>

definition due_sats :: "DB \<Rightarrow> Node list \<Rightarrow> int" where
  "due_sats db ns = sum_list (map (\<lambda>n. owed db (n_node_id n) div 1000) ns)"

lemma due_sats_simps [simp]:
  "due_sats db [] = 0" "due_sats db (n # ns) = owed db (n_node_id n) div 1000 + due_sats db ns"
  "due_sats db (ms @ ns) = due_sats db ms + due_sats db ns"
  by (simp_all add: due_sats_def)

lemma owed_div_nonneg: "solvent db \<Longrightarrow> 0 \<le> owed db n div 1000"
  by (simp add: solvent_bounds(5) pos_imp_zdiv_nonneg_iff)

lemma due_sats_nonneg: "solvent db \<Longrightarrow> 0 \<le> due_sats db ns"
  by (induction ns) (simp_all add: owed_div_nonneg add_nonneg_nonneg)

lemma due_sats_cong: "(\<And>n. n \<in> set ns \<Longrightarrow> owed db' (n_node_id n) = owed db (n_node_id n)) \<Longrightarrow> due_sats db' ns = due_sats db ns"
  unfolding due_sats_def by (intro arg_cong [where f = sum_list] map_cong) auto

lemma pay_nodes_spent:
  assumes "solvent db" "distinct (map n_node_id ns)" "0 \<le> spent" "spent + due_sats db ns \<le> 2 ^ 62"
    and "fold (pay_node pay e) ns (pe, spent, db, w) = (pe', spent', db', w')"
  shows "maxPerHour pe' = maxPerHour pe \<and> 0 \<le> spent' \<and> spent' \<le> spent + due_sats db ns"
  using assms
proof (induction ns arbitrary: pe spent db w)
  case (Cons n ns)
  obtain pe1 s1 db1 w1 where s: "pay_node pay e n (pe, spent, db, w) = (pe1, s1, db1, w1)"
    by (metis prod.collapse)
  note one = pay_node_pays_out [OF Cons.prems(1) s]
  have same: "due_sats db1 ns = due_sats db ns"
    using pays_out_frame(5) [OF one] Cons.prems(2) by (intro due_sats_cong) (metis image_eqI list.set_map list.simps(9) distinct.simps(2))
  have pos: "0 \<le> owed db (n_node_id n) div 1000" "0 \<le> due_sats db ns"
    using Cons.prems(1) by (simp_all only: due_sats_nonneg owed_div_nonneg)
  have "maxPerHour pe1 = maxPerHour pe \<and> 0 \<le> s1 \<and> s1 \<le> spent + owed db (n_node_id n) div 1000"
    using s
  proof (cases rule: pay_node_cases)
    case (paid sats h)
    then have "sats = owed db (n_node_id n) div 1000" by (simp add: payable_solvent [OF Cons.prems(1)])
    then show ?thesis using paid pos Cons.prems(3,4) by (simp add: in_int64_def)
  qed (use pos Cons.prems(3) in auto)
  then show ?case
    using Cons.IH [OF pays_out_solvent [OF Cons.prems(1) one], of s1 pe1 w1] Cons.prems s same by auto
qed simp

lemma pay_node_in_full:
  assumes "solvent db" "payable e n (maxPerHour pe) spent db (owed db (n_node_id n) div 1000)"
    and "\<not> fails (pe_record e (n_node_id n)) 0" "\<And>w. confirmed (snd (pay w (n_lightning_addr n) (owed db (n_node_id n) div 1000)))"
    and "pay_node pay e n (pe, spent, db, w) = (pe', spent', db', w')"
  shows "owed db' (n_node_id n) = owed db (n_node_id n) mod 1000"
proof -
  let ?o = "owed db (n_node_id n)"
  have "?o div 1000 * 1000 \<le> ?o" "0 \<le> ?o div 1000" by (simp_all add: owed_div_nonneg [OF assms(1)])
  then have "wrap64 (?o div 1000 * 1000) = ?o div 1000 * 1000"
    using solvent_bounds(6) [OF assms(1), of "n_node_id n"] by (simp add: in_int64_def)
  then have "owed db' (n_node_id n) = ?o - ?o div 1000 * 1000"
    using assms(3-5) pay_node_pays [OF assms(2), of pay w] by (auto simp: split_beta Let_def RecordPayout_owed)
  then show ?thesis by (simp add: minus_div_mult_eq_mod)
qed

lemma PendingPayouts_rows:
  assumes "solvent db" "wf_db db" "PendingPayouts d db = Inr ns"
  shows "distinct (map n_node_id ns)"
    and "n \<in> set ns \<Longrightarrow> n_lightning_addr n \<noteq> '''' \<and> n_redeem_threshold n * 1000 \<le> owed db (n_node_id n)"
proof -
  let ?due = "filter (due db) (filter (\<lambda>n. n_lightning_addr n \<noteq> '''') (tbl_nodes db))"
  have ns: "ns = deliver d (map payout_row ?due)"
    using assms(3) by (simp add: PendingPayouts_def solvent_unpaid [OF assms(1)] takeWhile_eq_all_conv [THEN iffD2]
        split: if_splits)
  have row: "n_node_id (payout_row n) = n_node_id n" "n_lightning_addr (payout_row n) = n_lightning_addr n"
    "n_redeem_threshold (payout_row n) = n_redeem_threshold n" for n by (simp_all add: payout_row_def)
  have "distinct (map n_node_id (map payout_row ?due))"
    using assms(2) by (simp add: wf_db_def o_def row distinct_map_filter)
  then show "distinct (map n_node_id ns)"
    unfolding ns deliver_def by (simp add: take_map [symmetric] split: option.split)
  have "set ns \<subseteq> payout_row ` set ?due"
    unfolding ns deliver_def by (auto dest: in_set_takeD split: option.splits)
  then show "n \<in> set ns \<Longrightarrow> n_lightning_addr n \<noteq> '''' \<and> n_redeem_threshold n * 1000 \<le> owed db (n_node_id n)"
    by (auto simp: due_def solvent_unpaid [OF assms(1)] row)
qed

lemma tick_pays_due:
  assumes "solvent db" "wf_db db" "PendingPayouts (pe_query e) db = Inr ns"
    and "n \<in> set ns" "0 < n_redeem_threshold n"
    and "\<not> fails (pe_balance e (n_node_id n)) 0" "\<not> fails (pe_balance e (n_node_id n)) 1"
      "\<not> fails (pe_record e (n_node_id n)) 0"
    and "\<And>w. confirmed (snd (pay w (n_lightning_addr n) (owed db (n_node_id n) div 1000)))"
    and "0 \<le> spentThisHour (start_tick e pe)"
      "spentThisHour (start_tick e pe) + due_sats db ns \<le> min (2 ^ 62) (maxPerHour pe)"
    and "processPayouts pay e (pe, db, w) = (pe', db', w')"
  shows "owed db' (n_node_id n) = owed db (n_node_id n) mod 1000"
proof -
  let ?k = "n_node_id n" and ?pe = "start_tick e pe"
  have m: "maxPerHour ?pe = maxPerHour pe" by (simp add: start_tick_def)
  note rows = PendingPayouts_rows [OF assms(1-3)]
  obtain ms ls where ns: "ns = ms @ n # ls" using assms(4) by (auto simp: in_set_conv_decomp)
  obtain pe1 s1 db1 w1 where f1: "fold (pay_node pay e) ms (?pe, spentThisHour ?pe, db, w) = (pe1, s1, db1, w1)"
    by (metis prod.collapse)
  obtain pe2 s2 db2 w2 where f2: "pay_node pay e n (pe1, s1, db1, w1) = (pe2, s2, db2, w2)"
    by (metis prod.collapse)
  obtain spent' where f3: "fold (pay_node pay e) ls (pe2, s2, db2, w2) = (pe', spent', db', w')"
    using assms(12) by (cases rule: processPayouts_fold) (use assms(3) in \<open>auto simp: ns f1 f2\<close>)
  have new: "?k \<notin> n_node_id ` set ms" "?k \<notin> n_node_id ` set ls" "distinct (map n_node_id ms)"
    using rows(1) by (auto simp: ns)
  note before = pay_nodes_solvent [OF assms(1) f1]
  then have db1: "solvent db1" "owed db1 ?k = owed db ?k" using new(1) by auto
  have pos: "0 \<le> due_sats db ms" "0 \<le> due_sats db ls" using assms(1) by (simp_all add: due_sats_nonneg)
  have due: "n_lightning_addr n \<noteq> ''''" "n_redeem_threshold n * 1000 \<le> owed db ?k" using rows(2) [OF assms(4)] by simp_all
  have sats: "0 \<le> owed db ?k div 1000" "n_redeem_threshold n \<le> owed db ?k div 1000" "0 < owed db ?k"
    using due(2) assms(5) by (simp_all add: owed_div_nonneg [OF assms(1)] zdiv_mono1 [OF due(2), of 1000, simplified])
  have total: "spentThisHour ?pe + due_sats db ms + owed db ?k div 1000 \<le> min (2 ^ 62) (maxPerHour pe)"
    using assms(11) pos by (simp add: ns)
  then have fits: "spentThisHour ?pe + due_sats db ms \<le> 2 ^ 62" using sats(1) by linarith
  have "maxPerHour pe1 = maxPerHour pe \<and> 0 \<le> s1 \<and> s1 \<le> spentThisHour ?pe + due_sats db ms"
    using pay_nodes_spent [OF assms(1) new(3) assms(10) fits f1] m by simp
  then have "payable e n (maxPerHour pe1) s1 db1 (owed db ?k div 1000)"
    using total sats due(1) assms(6,7) db1 by (simp add: payable_solvent in_int64_def)
  then have "owed db2 ?k = owed db ?k mod 1000"
    using pay_node_in_full [OF db1(1) _ assms(8) _ f2] assms(9) db1(2) by simp
  moreover have "owed db' ?k = owed db2 ?k"
    using pay_nodes_solvent [OF pays_out_solvent [OF db1(1) pay_node_pays_out [OF db1(1) f2]] f3] new(2) by simp
  ultimately show ?thesis by simp
qed

text \<open>
  C14: a tick pays every node that is due what it is owed, to the sat, when the query delivers the node, its
  statements succeed, the Lightning client confirms payments to it, and what all the due nodes are owed
  fits under the cap.
\<close>

theorem due_nodes_are_paid:
  assumes "solvent db" "wf_db db" "PendingPayouts (pe_query e) db = Inr ns"
    and "n \<in> set ns" "0 < n_redeem_threshold n"
    and "\<not> fails (pe_balance e (n_node_id n)) 0" "\<not> fails (pe_balance e (n_node_id n)) 1"
      "\<not> fails (pe_record e (n_node_id n)) 0"
    and "\<And>w. confirmed (snd (pay w (n_lightning_addr n) (owed db (n_node_id n) div 1000)))"
    and "0 \<le> spentThisHour (start_tick e pe)"
      "spentThisHour (start_tick e pe) + due_sats db ns \<le> min (2 ^ 62) (maxPerHour pe)"
    and "processPayouts pay e (pe, db, w) = (pe', db', w')"
  shows "owed db' (n_node_id n) = owed db (n_node_id n) mod 1000"
  by (rule tick_pays_due [OF assms])

theorem due_nodes_are_paid_witness:
  "owed (fst (snd (processPayouts (PayAddress test_lnd paying_net) calm_env (NewPayoutEngine 10000 0, due_db, []))))
     ''node-0001'' = 500"
proof -
  let ?n = "payout_row due_node"
  obtain pe' db' w' where r:
    "processPayouts (PayAddress test_lnd paying_net) calm_env (NewPayoutEngine 10000 0, due_db, []) = (pe', db', w')"
    by (metis prod.collapse)
  have wf: "wf_db due_db" by (simp add: wf_db_def due_db_def empty_db_def)
  have n: "n_node_id ?n = ''node-0001''" "n_lightning_addr ?n = ''bob@x.y''" "n_redeem_threshold ?n = 100"
    by (simp_all add: payout_row_def due_node_def)
  have "owed db' (n_node_id ?n) = owed due_db (n_node_id ?n) mod 1000"
    by (rule due_nodes_are_paid [OF due_db_facts(1) wf _ _ _ _ _ _ _ _ _ r, where ns = "[?n]"])
       (simp_all add: due_query n no_faults_def [THEN arg_cong [where f = fails]] confirmed_def due_db_facts
         paying_net_pays start_tick_def NewPayoutEngine_def due_sats_def)
  then show ?thesis by (simp add: r n due_db_facts)
qed

text \<open>
  C38: A node that is owed more whole sats than the hourly cap is never paid, however long it waits: no tick
  of the engine changes what it is owed.
\<close>

theorem oversized_never_paid:
  assumes "solvent db" "0 < maxPerHour pe" "maxPerHour pe \<le> 2 ^ 62"
    and "0 \<le> spentThisHour pe" "spentThisHour pe \<le> maxPerHour pe" "maxPerHour pe < owed db k div 1000"
    and "processPayouts pay e (pe, db, w) = (pe', db', w')"
  shows "owed db' k = owed db k"
proof -
  let ?m = "maxPerHour pe"
  have keep: "owed db2 k = owed db k"
    if "fold (pay_node pay e) ns (pe1, spentThisHour pe1, db1, w1) = (pe2, s2, db2, w2)"
      "within_cap ?m pe1" "solvent db1" "owed db1 k = owed db k" for ns pe1 db1 w1 pe2 s2 db2 w2
    using that
  proof (induction ns arbitrary: pe1 db1 w1)
    case (Cons n ns)
    obtain pe3 s3 db3 w3 where s: "pay_node pay e n (pe1, spentThisHour pe1, db1, w1) = (pe3, s3, db3, w3)"
      by (metis prod.collapse)
    note one = pay_node_within [OF assms(2,3) Cons.prems(2) refl s] pay_node_pays_out [OF Cons.prems(3) s]
    have "owed db3 k = owed db1 k"
    proof (cases "n_node_id n = k")
      case True
      have m: "maxPerHour pe1 = ?m" "0 \<le> spentThisHour pe1" "spentThisHour pe1 \<le> 2 ^ 62"
        using Cons.prems(2) assms(3) by (auto simp: within_cap_def)
      have "\<not> payable e n ?m (spentThisHour pe1) db1 sats" for sats
        using payable_bounds(4) [OF _ m(2,3), of e n ?m db1 sats] assms(2,6) Cons.prems(4) m(2) True
        by (auto simp: payable_solvent [OF Cons.prems(3)])
      then show ?thesis using pay_node_skip [of e n pe1 "spentThisHour pe1" db1 pay w1] s m(1) by simp
    qed (use pays_out_frame(5) [OF one(2)] in simp)
    then show ?case
      using Cons.IH [of pe3 db3 w3] Cons.prems s one pays_out_solvent [OF Cons.prems(3) one(2)] by simp
  qed simp
  have start: "within_cap ?m (start_tick e pe)"
    using assms(2,4,5) by (auto simp: within_cap_def start_tick_def)
  show ?thesis using assms(7) by (cases rule: processPayouts_fold) (use keep [OF _ start assms(1)] in auto)
qed

theorem oversized_never_paid_witness:
  "owed (fst (snd (processPayouts (PayAddress test_lnd paying_net) calm_env (NewPayoutEngine 200 0, due_db, []))))
     ''node-0001'' = 250500"
proof -
  obtain pe' db' w' where r:
    "processPayouts (PayAddress test_lnd paying_net) calm_env (NewPayoutEngine 200 0, due_db, []) = (pe', db', w')"
    by (metis prod.collapse)
  have "owed db' ''node-0001'' = owed due_db ''node-0001''"
    by (rule oversized_never_paid [OF due_db_facts(1) _ _ _ _ _ r]) (simp_all add: NewPayoutEngine_def due_db_facts)
  then show ?thesis by (simp add: r due_db_facts)
qed

section \<open>Lost answers\<close>

context lightning_client begin

lemma lost_answers:
  assumes "pe_since e - hourStart pe \<le> hour" "PendingPayouts (pe_query e) db = Inr [n]"
    and "payable e n (maxPerHour pe) (spentThisHour pe) db sats"
    and "\<And>w. \<not> confirmed (snd (pay w (n_lightning_addr n) sats)) \<and>
      placed (fst (pay w (n_lightning_addr n) sats)) = Suc (placed w)"
  shows "\<exists>w'. (processPayouts pay e ^^ k) (pe, db, w) = (pe, db, w') \<and> placed w' = placed w + k"
proof (induction k)
  case (Suc k)
  then obtain w' where w': "(processPayouts pay e ^^ k) (pe, db, w) = (pe, db, w')" "placed w' = placed w + k" by blast
  have "processPayouts pay e (pe, db, w') = (pe, db, fst (pay w' (n_lightning_addr n) sats))"
    using assms by (simp add: processPayouts_def start_tick_def pay_node_pays split_beta Let_def)
  then show ?case using w' assms(4) by simp
qed simp

end

text \<open>
  C34: when LND carries out a payment but its answer is lost, the engine takes the payment for one that never
  happened: the next tick orders it again, and so on, \<open>k\<close> payments in \<open>k\<close> ticks, none of them recorded or
  counted against the hourly cap.
\<close>

theorem lost_answer_pays_again:
  assumes "pe_since e - hourStart pe \<le> hour" "PendingPayouts (pe_query e) db = Inr [n]"
    and "payable e n (maxPerHour pe) (spentThisHour pe) db sats"
    and "\<And>w. \<not> confirmed (snd (PayAddress c net w (n_lightning_addr n) sats)) \<and>
      orders (fst (PayAddress c net w (n_lightning_addr n) sats)) = Suc (orders w)"
  shows "\<exists>w'. (processPayouts (PayAddress c net) e ^^ k) (pe, db, w) = (pe, db, w') \<and> orders w' = orders w + k"
  using lnd.lost_answers [OF assms] .

text \<open>The network of the example, except that LND's answers to payment orders are lost.\<close>

definition silent_net :: net where
  "silent_net w call = (if c_method call = ''POST'' then NetError else paying_net w call)"

theorem lost_answer_pays_again_witness:
  "\<exists>w'. snd (snd ((processPayouts (PayAddress test_lnd silent_net) calm_env ^^ 3) (NewPayoutEngine 10000 0, due_db, []))) = w' \<and>
     orders w' = 3"
proof -
  have n: "n_lightning_addr (payout_row due_node) = ''bob@x.y''" by (simp add: payout_row_def due_node_def)
  have lost: "\<not> confirmed (snd (PayAddress test_lnd silent_net w ''bob@x.y'' 250)) \<and>
      orders (fst (PayAddress test_lnd silent_net w ''bob@x.y'' 250)) = Suc (orders w)" for w
    by (simp add: example_calls silent_net_def confirmed_def in_int64_def)
       (simp add: orders_def is_order_def HasSuffix_iff suffix_def)
  have "\<exists>w'. (processPayouts (PayAddress test_lnd silent_net) calm_env ^^ 3) (NewPayoutEngine 10000 0, due_db, []) =
      (NewPayoutEngine 10000 0, due_db, w') \<and> orders w' = orders [] + 3"
    by (rule lost_answer_pays_again [where n = "payout_row due_node" and sats = 250])
       (use due_payable lost in \<open>simp_all add: due_query n NewPayoutEngine_def\<close>)
  then show ?thesis by (auto simp: orders_def)
qed

end
