(* ===== verification/Invoices.thy ===== *)
theory Invoices
  imports Lightning Ledger
begin

text \<open>
  \<open>internal/lightning/invoices.go\<close>: the loop that credits paid invoices. One tick is modelled, with the
  Lightning client a parameter (\<open>check\<close>, on a state of its own). The messages it logs slice the payment
  hash and the user key, which panics when they are too short; the loop is a goroutine of its own, so
  that ends the process.
\<close>

section \<open>A tick\<close>

record watch_env =
  we_now :: time
  we_expire :: driver
  we_query :: driver
  we_credit :: "string \<Rightarrow> driver"

type_synonym 'w checker = "'w \<Rightarrow> string \<Rightarrow> 'w \<times> (lnd_error + bool)"

definition watch_one ::
  "'w checker \<Rightarrow> watch_env \<Rightarrow> Invoice \<Rightarrow> DB \<Rightarrow> 'w \<Rightarrow> DB \<times> 'w \<times> bool" where
  "watch_one check e iv db w =
     (let (w1, r) = check w (i_payment_hash iv)
      in case r of
           Inl err \<Rightarrow> (db, w1, length (i_payment_hash iv) < 8)
         | Inr paid \<Rightarrow>
             if \<not> paid then (db, w1, False)
             else
               (let (db1, credited, cerr) = CreditInvoice (we_credit e (i_payment_hash iv)) db (i_payment_hash iv)
                in if cerr \<noteq> None then (db1, w1, length (i_payment_hash iv) < 8)
                   else (db1, w1, credited \<and> length (i_user_key iv) < 6)))"

fun watch_all :: "'w checker \<Rightarrow> watch_env \<Rightarrow> Invoice list \<Rightarrow> DB \<Rightarrow> 'w \<Rightarrow> DB \<times> 'w \<times> bool" where
  "watch_all check e [] db w = (db, w, False)"
| "watch_all check e (iv # ivs) db w =
     (let (db1, w1, panic) = watch_one check e iv db w
      in if panic then (db1, w1, True) else watch_all check e ivs db1 w1)"

definition watcher_tick :: "'w checker option \<Rightarrow> watch_env \<Rightarrow> DB \<Rightarrow> 'w \<Rightarrow> DB \<times> 'w \<times> bool" where
  "watcher_tick client e db w =
     (case client of
        None \<Rightarrow> (db, w, False)
      | Some check \<Rightarrow>
          (let db1 = fst (ExpireOldInvoices (we_expire e) db (we_now e))
           in case PendingInvoices (we_query e) db1 of
                Inl _ \<Rightarrow> (db1, w, False)
              | Inr invoices \<Rightarrow> watch_all check e invoices db1 w))"

section \<open>The status of an invoice\<close>

definition status_of :: "DB \<Rightarrow> string \<Rightarrow> string option" where
  "status_of db h = map_option i_status (find (\<lambda>i. i_payment_hash i = h) (tbl_invoices db))"

lemma find_map_status:
  "find (\<lambda>i. i_payment_hash i = h) (map (\<lambda>i. if P i then i\<lparr>i_status := st\<rparr> else i) is) =
   map_option (\<lambda>i. if P i then i\<lparr>i_status := st\<rparr> else i) (find (\<lambda>i. i_payment_hash i = h) is)"
  by (induction "is") auto

lemma status_add_balance [simp]: "status_of (add_balance db k a) h = status_of db h"
  by (simp add: status_of_def)

lemma status_set_credited:
  "status_of (set_credited db h) h' = (if h' = h \<and> status_of db h \<noteq> None then Some ''credited'' else status_of db h')"
proof (cases "find (\<lambda>i. i_payment_hash i = h') (tbl_invoices db)")
  case (Some i)
  moreover from this have "i_payment_hash i = h'" by (auto dest: find_Some_set)
  ultimately show ?thesis
    by (cases "h' = h") (simp_all add: status_of_def set_credited_def find_map_status)
qed (auto simp: status_of_def set_credited_def find_map_status)

lemma status_credit:
  "status_of (fst (CreditInvoice d db h)) h' =
     (if h' = h \<and> snd (CreditInvoice d db h) = (True, None) then Some ''credited'' else status_of db h')"
proof (cases rule: CreditInvoice_cases [of d db h])
  case (credit i)
  then have "status_of db h \<noteq> None" by (simp add: status_of_def)
  then show ?thesis using credit by (simp add: status_set_credited)
qed auto

lemma CreditInvoice_pending:
  assumes "status_of db h = Some ''pending''" "\<And>k. \<not> fails d k"
  shows "snd (CreditInvoice d db h) = (True, None)"
  using assms by (auto simp: status_of_def CreditInvoice_def)

lemma status_expire:
  assumes "find (\<lambda>i. i_payment_hash i = h) (tbl_invoices db) = Some i" "\<not> fails d 0"
  shows "status_of (fst (ExpireOldInvoices d db now)) h = Some (if overdue now i then ''expired'' else i_status i)"
  using assms by (simp add: ExpireOldInvoices_def status_of_def find_map_status)

section \<open>What a tick does\<close>

lemma watch_one_status:
  assumes "watch_one check e iv db w = (db', w', p)"
  shows "status_of db' h = status_of db h \<or>
    (h = i_payment_hash iv \<and> snd (check w h) = Inr True \<and> status_of db' h = Some ''credited'')"
  using assms by (auto simp: watch_one_def split_beta Let_def status_credit split: sum.splits if_splits)

lemma watch_all_status:
  assumes "watch_all check e ivs db w = (db', w', p)"
  shows "status_of db' h = status_of db h \<or>
    ((\<exists>u. snd (check u h) = Inr True) \<and> status_of db' h = Some ''credited'')"
  using assms
proof (induction ivs arbitrary: db w)
  case (Cons iv ivs)
  obtain db1 w1 p1 where s: "watch_one check e iv db w = (db1, w1, p1)" by (metis prod.collapse)
  then show ?case
    using Cons.IH [of db1 w1] Cons.prems watch_one_status [OF s, of h] by (auto split: if_splits)
qed simp

text \<open>No panic when hashes and keys have their usual lengths.\<close>

definition printable :: "Invoice \<Rightarrow> bool" where
  "printable i \<longleftrightarrow> 8 \<le> length (i_payment_hash i) \<and> 6 \<le> length (i_user_key i)"

lemma watch_one_quiet: "printable iv \<Longrightarrow> \<not> snd (snd (watch_one check e iv db w))"
  by (auto simp: watch_one_def printable_def split_beta Let_def split: sum.splits)

lemma watch_one_credits:
  assumes "snd (check w (i_payment_hash iv)) = Inr True" "\<And>k. \<not> fails (we_credit e (i_payment_hash iv)) k"
    and "status_of db (i_payment_hash iv) = Some ''pending''"
  shows "status_of (fst (watch_one check e iv db w)) (i_payment_hash iv) = Some ''credited''"
  using CreditInvoice_pending [OF assms(3,2)] assms(1)
  by (simp add: watch_one_def split_beta Let_def status_credit)

lemma watch_all_credits:
  assumes "\<forall>i\<in>set ivs. printable i" "\<And>u. snd (check u h) = Inr True" "\<And>k. \<not> fails (we_credit e h) k"
    and "status_of db h = Some ''credited'' \<or> (status_of db h = Some ''pending'' \<and> h \<in> i_payment_hash ` set ivs)"
  shows "\<not> snd (snd (watch_all check e ivs db w)) \<and> status_of (fst (watch_all check e ivs db w)) h = Some ''credited''"
  using assms(1,4)
proof (induction ivs arbitrary: db w)
  case (Cons iv ivs)
  obtain db1 w1 p1 where s: "watch_one check e iv db w = (db1, w1, p1)" by (metis prod.collapse)
  have quiet: "\<not> p1" using watch_one_quiet [of iv check e db w] Cons.prems(1) s by simp
  have "status_of db1 h = Some ''credited'' \<or> (status_of db1 h = Some ''pending'' \<and> h \<in> i_payment_hash ` set ivs)"
    using watch_one_status [OF s, of h] watch_one_credits [of check w iv e db] assms(2,3) Cons.prems(2) s by auto
  then show ?case using Cons.IH [of db1 w1] Cons.prems(1) s quiet by simp
qed simp

text \<open>A tick is a run of the database: expiring, then crediting.\<close>

lemma db_run_Cons: "db_run db (op # ops) = db_run (db_step db op) ops"
  by (simp add: db_run_def)

definition credits :: "db_op list \<Rightarrow> bool" where
  "credits ops \<longleftrightarrow> (\<forall>op\<in>set ops. \<exists>d h. op = OpCreditInvoice d h)"

lemma watch_all_run:
  assumes "watch_all check e ivs db w = (db', w', p)"
  shows "\<exists>ops. credits ops \<and> db' = db_run db ops"
  using assms
proof (induction ivs arbitrary: db w)
  case Nil
  then show ?case by (intro exI [of _ "[]"]) (simp add: credits_def)
next
  case (Cons iv ivs)
  obtain db1 w1 p1 where s: "watch_one check e iv db w = (db1, w1, p1)" by (metis prod.collapse)
  then have "db1 = db \<or> (\<exists>d h. db1 = db_step db (OpCreditInvoice d h))"
    by (auto simp: watch_one_def split_beta Let_def split: sum.splits if_splits)
  then obtain ops1 where ops1: "credits ops1" "db1 = db_run db ops1"
    by (metis credits_def db_run_Cons db_run_simps(1) list.set_cases set_ConsD empty_iff empty_set)
  show ?case
  proof (cases p1)
    case True
    then show ?thesis using Cons.prems s ops1 by auto
  next
    case False
    then obtain ops2 where "credits ops2" "db' = db_run db1 ops2" using Cons s by auto
    then show ?thesis
      using ops1 by (intro exI [of _ "ops1 @ ops2"]) (auto simp: credits_def db_run_def)
  qed
qed

lemma tick_run:
  assumes "watcher_tick (Some check) e db w = (db', w', p)"
  shows "\<exists>ops. credits ops \<and> db' = db_run (db_step db (OpExpireOldInvoices (we_expire e) (we_now e))) ops"
proof (cases "PendingInvoices (we_query e) (db_step db (OpExpireOldInvoices (we_expire e) (we_now e)))")
  case (Inl x)
  then show ?thesis using assms by (intro exI [of _ "[]"]) (simp add: watcher_tick_def credits_def)
next
  case (Inr ivs)
  then show ?thesis using assms watch_all_run [of check e ivs _ w db' w' p] by (simp add: watcher_tick_def)
qed

lemma status_settled:
  assumes "credits ops" "settled db h"
  shows "status_of (db_run db ops) h = status_of db h"
  using assms
proof (induction ops arbitrary: db)
  case (Cons op ops)
  then obtain d h' where op: "op = OpCreditInvoice d h'" by (auto simp: credits_def)
  have "status_of (db_step db op) h = status_of db h"
    using CreditInvoice_settled [OF Cons.prems(2), of d] by (auto simp: op status_credit)
  then show ?case
    using Cons.IH [of "db_step db op"] Cons.prems settled_step [OF Cons.prems(2)]
    by (simp add: db_run_Cons credits_def)
qed simp

text \<open>
  C29: a tick credits an invoice only when LND reports it paid: every other invoice keeps its status, except
  that the overdue ones expire.
\<close>

theorem only_paid_invoices_credited:
  assumes "watcher_tick (Some check) e db w = (db', w', p)" "\<And>u. snd (check u h) \<noteq> Inr True"
  shows "status_of db' h = status_of (fst (ExpireOldInvoices (we_expire e) db (we_now e))) h"
  using assms watch_all_status [of check e _ "fst (ExpireOldInvoices (we_expire e) db (we_now e))" w db' w' p h]
  by (auto simp: watcher_tick_def Let_def split: sum.splits)

definition watch_calm :: watch_env where
  "watch_calm = \<lparr>we_now = 0, we_expire = no_faults, we_query = no_faults, we_credit = (\<lambda>_. no_faults)\<rparr>"

definition invoice_db :: DB where
  "invoice_db = db_run empty_db [OpCreateUserKey no_faults ''rc_key'' ''u'' ''n'' 10,
     OpCreateInvoice no_faults ''01020304'' ''rc_key'' 5000 ''lnbc'' 0]"

lemma invoice_db_eq:
  "invoice_db = empty_db\<lparr>
     tbl_api_keys := [\<lparr>k_key = ''rc_key'', k_user_id = ''u'', k_name = ''n'', k_quota_daily = 10, k_balance_msats = 0\<rparr>],
     tbl_invoices := [\<lparr>i_payment_hash = ''01020304'', i_user_key = ''rc_key'', i_amount_msats = 5000,
       i_bolt11 = ''lnbc'', i_status = ''pending'', i_created_at = 0\<rparr>]\<rparr>"
  by (simp add: invoice_db_def db_run_def CreateUserKey_def CreateInvoice_def empty_db_def no_faults_def secs_def)

theorem only_paid_invoices_credited_witness:
  "\<forall>c. status_of (fst (watcher_tick (Some (CheckInvoice c (\<lambda>w call. NetError))) watch_calm invoice_db [])) ''01020304'' =
     Some ''pending''"
proof (intro allI)
  fix c
  let ?check = "CheckInvoice c (\<lambda>w call. NetError)"
  obtain db' w' p where r: "watcher_tick (Some ?check) watch_calm invoice_db [] = (db', w', p)" by (metis prod.collapse)
  have "snd (?check u h) \<noteq> Inr True" for u h by (simp add: CheckInvoice_def send_http_def)
  then have "status_of db' ''01020304'' = status_of (fst (ExpireOldInvoices no_faults invoice_db 0)) ''01020304''"
    using only_paid_invoices_credited [OF r] by (simp add: watch_calm_def)
  also have "\<dots> = Some ''pending''"
    by (simp add: ExpireOldInvoices_def no_faults_def status_of_def invoice_db_eq overdue_def ago_def secs_def)
  finally show "status_of (fst (watcher_tick (Some (CheckInvoice c (\<lambda>w call. NetError))) watch_calm invoice_db [])) ''01020304'' =
     Some ''pending''" by (simp add: r)
qed

section \<open>What a tick does to the balances\<close>

text \<open>The invoices later: the same but for their status, and what was credited stays so.\<close>

definition advanced :: "Invoice list \<Rightarrow> Invoice list \<Rightarrow> bool" where
  "advanced = list_all2 (\<lambda>i i'. i_payment_hash i' = i_payment_hash i \<and> i_user_key i' = i_user_key i \<and>
     i_amount_msats i' = i_amount_msats i \<and> (i_status i = ''credited'' \<longrightarrow> i_status i' = ''credited''))"

lemma advanced_refl: "advanced is is"
  by (simp add: advanced_def list_all2_refl)

lemma advanced_trans: "advanced is js \<Longrightarrow> advanced js ks \<Longrightarrow> advanced is ks"
  unfolding advanced_def by (erule (1) list_all2_trans [rotated]) auto

lemma advanced_map:
  "\<forall>i. P i \<longrightarrow> i_status i = ''credited'' \<longrightarrow> st = ''credited'' \<Longrightarrow>
   advanced is (map (\<lambda>i. if P i then i\<lparr>i_status := st\<rparr> else i) is)"
  by (induction "is") (auto simp: advanced_def)

lemma advanced_credits: "credits ops \<Longrightarrow> advanced (tbl_invoices db) (tbl_invoices (db_run db ops))"
proof (induction ops arbitrary: db)
  case (Cons op ops)
  then obtain d h where op: "op = OpCreditInvoice d h" by (auto simp: credits_def)
  have "advanced (tbl_invoices db) (tbl_invoices (db_step db op))"
    by (cases rule: CreditInvoice_cases [of d db h])
       (simp_all add: op advanced_refl set_credited_def advanced_map)
  then show ?case using advanced_trans Cons by (auto simp: db_run_Cons credits_def)
qed (simp add: advanced_refl)

lemma advanced_credited:
  assumes "advanced is is'" "\<forall>i\<in>set is. 0 \<le> i_amount_msats i"
  shows "credited_in k is \<le> credited_in k is'"
  using assms unfolding advanced_def
proof (induction rule: list_all2_induct)
  case (Cons i "is" i' is')
  then show ?case by auto
qed simp

lemma advanced_paid:
  assumes "advanced is is'" "\<forall>i\<in>set is. 0 \<le> i_amount_msats i"
    and "find (\<lambda>i. i_payment_hash i = h) is = Some i" "i_status i = ''pending''"
    and "find (\<lambda>i. i_payment_hash i = h) is' = Some i'" "i_status i' = ''credited''"
  shows "credited_in (i_user_key i) is + i_amount_msats i \<le> credited_in (i_user_key i) is'"
  using assms unfolding advanced_def
proof (induction rule: list_all2_induct)
  case (Cons j js j' js')
  note same = Cons.hyps(1)
  show ?case
  proof (cases "i_payment_hash j = h")
    case True
    then have "i = j" "i' = j'" using Cons.prems same by auto
    then show ?thesis
      using advanced_credited [of js js' "i_user_key i"] Cons.hyps(2) Cons.prems same by (simp add: advanced_def)
  next
    case False
    then show ?thesis using Cons same by auto
  qed
qed simp

lemma ledger_credits: "ledger_run sp db \<Longrightarrow> credits ops \<Longrightarrow> ledger_run sp (db_run db ops)"
proof (induction ops arbitrary: db)
  case (Cons op ops)
  then obtain d h where op: "op = OpCreditInvoice d h" by (auto simp: credits_def)
  have "ledger_run sp (db_step db op)" using ledger_run.step [OF Cons.prems(1), of op] by (simp add: op)
  then show ?case using Cons by (simp add: db_run_Cons credits_def)
qed simp

lemma credits_accounts: "credits ops \<Longrightarrow> accounts (db_run db ops) k = None \<longleftrightarrow> accounts db k = None"
proof (induction ops arbitrary: db)
  case (Cons op ops)
  then obtain d h where op: "op = OpCreditInvoice d h" by (auto simp: credits_def)
  have "accounts (db_step db op) k = None \<longleftrightarrow> accounts db k = None"
    by (cases rule: CreditInvoice_cases [of d db h]) (simp_all add: op accounts_add_balance, simp add: accounts_def set_credited_def)
  then show ?case using Cons by (simp add: db_run_Cons credits_def)
qed simp

text \<open>A tick changes a balance by exactly what it credits to the user.\<close>

lemma tick_balances:
  assumes "ledger_run sp db" "watcher_tick (Some check) e db w = (db', w', p)"
  shows "ledger_run sp db' \<and> advanced (tbl_invoices db) (tbl_invoices db') \<and>
    (accounts db k = Some bal \<longrightarrow> accounts db' k = Some (bal + (credited_to db' k - credited_to db k)))"
proof -
  let ?ex = "OpExpireOldInvoices (we_expire e) (we_now e)"
  have ex: "ledger_run sp (db_step db ?ex)" using ledger_run.step [OF assms(1), of ?ex] by simp
  have adv: "advanced (tbl_invoices db) (tbl_invoices (db_step db ?ex))"
    by (simp add: ExpireOldInvoices_def advanced_refl advanced_map overdue_def)
  obtain ops where ops: "credits ops" "db' = db_run (db_step db ?ex) ops" using tick_run [OF assms(2)] by blast
  have l: "ledger_run sp db'" unfolding ops(2) by (rule ledger_credits [OF ex ops(1)])
  have dom: "accounts db' k = None \<longleftrightarrow> accounts db k = None"
    unfolding ops(2) credits_accounts [OF ops(1)] by (simp add: ExpireOldInvoices_def accounts_def)
  have "accounts db' k = Some (bal + (credited_to db' k - credited_to db k))" if k: "accounts db k = Some bal"
  proof -
    obtain bal' where k': "accounts db' k = Some bal'" using k dom by (cases "accounts db' k") simp_all
    have "bal = credited_to db k - sp k" using ledger_books [OF assms(1)] k by (simp add: books_balance_def)
    moreover have "bal' = credited_to db' k - sp k" using ledger_books [OF l] k' by (simp add: books_balance_def)
    ultimately show ?thesis using k' by simp
  qed
  moreover have "advanced (tbl_invoices db) (tbl_invoices db')"
    unfolding ops(2) by (rule advanced_trans [OF adv advanced_credits [OF ops(1)]])
  ultimately show ?thesis using l by blast
qed

text \<open>
  C19: when LND reports an invoice paid, the next tick credits it, unless it is overdue by then, when the
  statements succeed and the query delivers the pending invoices: the invoice is credited, its user's balance
  grows by exactly what the tick credited to that user, which is the amount of the invoice at the least; and the
  tick does not panic when the hashes and keys of the invoices have their usual lengths.
\<close>

theorem paid_invoice_credited:
  assumes "ledger_run sp db"
    and "find (\<lambda>i. i_payment_hash i = h) (tbl_invoices db) = Some i" "i_status i = ''pending''" "\<not> overdue (we_now e) i"
    and "\<And>u. snd (check u h) = Inr True"
    and "\<not> fails (we_expire e) 0" "\<not> fails (we_query e) 0" "rows_read (we_query e) = None"
      "\<And>k. \<not> fails (we_credit e h) k"
    and "\<forall>i\<in>set (tbl_invoices db). printable i"
    and "watcher_tick (Some check) e db w = (db', w', p)"
  shows "\<not> p \<and> status_of db' h = Some ''credited'' \<and>
    (\<exists>bal. accounts db (i_user_key i) = Some bal \<and>
       accounts db' (i_user_key i) = Some (bal + (credited_to db' (i_user_key i) - credited_to db (i_user_key i)))) \<and>
    i_amount_msats i \<le> credited_to db' (i_user_key i) - credited_to db (i_user_key i)"
proof -
  define db1 where "db1 = fst (ExpireOldInvoices (we_expire e) db (we_now e))"
  have st: "status_of db1 h = Some ''pending''"
    using status_expire [OF assms(2,6), of "we_now e"] assms(3,4) by (simp add: db1_def)
  have rows: "tbl_invoices db1 = map (\<lambda>i. if overdue (we_now e) i then i\<lparr>i_status := ''expired''\<rparr> else i) (tbl_invoices db)"
    using assms(6) by (simp add: db1_def ExpireOldInvoices_def)
  let ?q = "filter (\<lambda>i. i_status i = ''pending'') (tbl_invoices db1)"
  have "PendingInvoices (we_query e) db1 = Inr ?q"
    using assms(7,8) by (simp add: PendingInvoices_def deliver_def)
  then have run: "watch_all check e ?q db1 w = (db', w', p)"
    using assms(11) by (simp add: watcher_tick_def db1_def [symmetric])
  have "\<forall>i\<in>set ?q. printable i" using assms(10) by (auto simp: rows printable_def)
  moreover have "h \<in> i_payment_hash ` set ?q"
    using st by (auto simp: status_of_def dest!: find_Some_set)
  ultimately have paid: "\<not> p" "status_of db' h = Some ''credited''"
    using watch_all_credits [of ?q check h e db1 w] assms(5,9) st run by simp_all
  then obtain i' where i': "find (\<lambda>i. i_payment_hash i = h) (tbl_invoices db') = Some i'" "i_status i' = ''credited''"
    by (auto simp: status_of_def)
  note tick = tick_balances [OF assms(1,11)]
  have b: "books_balance sp db" by (rule ledger_books [OF assms(1)])
  have "\<forall>i\<in>set (tbl_invoices db). 0 \<le> i_amount_msats i" using b by (simp add: books_balance_def)
  then have "i_amount_msats i \<le> credited_to db' (i_user_key i) - credited_to db (i_user_key i)"
    using advanced_paid [OF _ _ assms(2,3) i'] tick unfolding credited_to_def by fastforce
  moreover have "i \<in> set (tbl_invoices db)" using assms(2) by (auto dest: find_Some_set)
  then obtain bal where "accounts db (i_user_key i) = Some bal" using b by (fastforce simp: books_balance_def)
  ultimately show ?thesis using paid tick by blast
qed

lemma invoice_ledger: "ledger_run (\<lambda>_. 0) invoice_db"
proof -
  let ?user = "OpCreateUserKey no_faults ''rc_key'' ''u'' ''n'' 10"
  have "ledger_run (\<lambda>_. 0) (db_step empty_db ?user)" using ledger_run.step [OF ledger_run.init, of ?user] by simp
  from ledger_run.step [OF this, of "OpCreateInvoice no_faults ''01020304'' ''rc_key'' 5000 ''lnbc'' 0"]
  show ?thesis
    by (simp add: invoice_db_def db_run_Cons CreateUserKey_def empty_db_def no_faults_def accounts_def invoiced_def)
qed

text \<open>A network on which every invoice is paid.\<close>

definition settled_net :: net where
  \<open>settled_net w call = Reply 200 ''{"state":"SETTLED"}''\<close>

lemma settled_check: "snd (CheckInvoice c settled_net u h) = Inr True"
proof -
  have \<open>unmarshal dec_lookup ''{"state":"SETTLED"}'' \<lparr>lr_settled = False, lr_state = ''''\<rparr> =
      (\<lparr>lr_settled = False, lr_state = ''SETTLED''\<rparr>, False)\<close> by code_simp
  then show ?thesis by (simp add: CheckInvoice_def send_http_def settled_net_def)
qed

theorem paid_invoice_credited_witness:
  "\<forall>c. \<exists>bal. accounts (fst (watcher_tick (Some (CheckInvoice c settled_net)) watch_calm invoice_db [])) ''rc_key'' = Some bal \<and>
     5000 \<le> bal"
proof (intro allI)
  fix c
  obtain db' w' p where r: "watcher_tick (Some (CheckInvoice c settled_net)) watch_calm invoice_db [] = (db', w', p)"
    by (metis prod.collapse)
  let ?i = "hd (tbl_invoices invoice_db)"
  have i: "i_user_key ?i = ''rc_key''" "i_amount_msats ?i = 5000" by (simp_all add: invoice_db_eq)
  have "\<not> p \<and> status_of db' ''01020304'' = Some ''credited'' \<and>
    (\<exists>bal. accounts invoice_db (i_user_key ?i) = Some bal \<and>
       accounts db' (i_user_key ?i) = Some (bal + (credited_to db' (i_user_key ?i) - credited_to invoice_db (i_user_key ?i)))) \<and>
    i_amount_msats ?i \<le> credited_to db' (i_user_key ?i) - credited_to invoice_db (i_user_key ?i)"
    by (rule paid_invoice_credited [OF invoice_ledger _ _ _ settled_check _ _ _ _ _ r])
       (simp_all add: invoice_db_eq watch_calm_def no_faults_def overdue_def ago_def secs_def printable_def)
  moreover have "accounts invoice_db ''rc_key'' = Some 0" by (simp add: invoice_db_eq accounts_def)
  ultimately show "\<exists>bal. accounts (fst (watcher_tick (Some (CheckInvoice c settled_net)) watch_calm invoice_db [])) ''rc_key'' =
     Some bal \<and> 5000 \<le> bal" by (auto simp: r i)
qed


text \<open>
  C40: an invoice that is overdue when a tick starts is expired before LND is asked about it, and from then on
  never credited: when it was paid in time but no tick ran in time, the payment is lost to the user.
\<close>

theorem late_payment_lost:
  assumes "find (\<lambda>i. i_payment_hash i = h) (tbl_invoices db) = Some i" "overdue (we_now e) i" "\<not> fails (we_expire e) 0"
    and "watcher_tick (Some check) e db w = (db', w', p)"
  shows "status_of db' h = Some ''expired'' \<and> snd (CreditInvoice d (db_run db' ops) h) \<noteq> (True, None)"
proof -
  define db1 where "db1 = fst (ExpireOldInvoices (we_expire e) db (we_now e))"
  have st: "status_of db1 h = Some ''expired''"
    using status_expire [OF assms(1,3), of "we_now e"] assms(2) by (simp add: db1_def)
  then have "settled db1 h" by (auto simp: status_of_def settled_def)
  moreover obtain cs where "credits cs" "db' = db_run db1 cs"
  proof (cases "PendingInvoices (we_query e) db1")
    case (Inl x)
    then show ?thesis using that [of "[]"] assms(4) by (simp add: watcher_tick_def db1_def [symmetric] credits_def)
  next
    case (Inr ivs)
    then show ?thesis
      using that watch_all_run [of check e ivs db1 w db' w' p] assms(4)
      by (auto simp: watcher_tick_def db1_def [symmetric])
  qed
  ultimately have "status_of db' h = Some ''expired''" "settled db' h"
    using status_settled [of cs db1 h] settled_run [of db1 h cs] st by simp_all
  then show ?thesis using CreditInvoice_settled [OF settled_run [of db' h ops]] by blast
qed

theorem late_payment_lost_witness:
  "\<forall>c. status_of (fst (watcher_tick (Some (CheckInvoice c settled_net)) (watch_calm\<lparr>we_now := 601000000000\<rparr>) invoice_db []))
     ''01020304'' = Some ''expired''"
proof (intro allI)
  fix c
  obtain db' w' p where r:
    "watcher_tick (Some (CheckInvoice c settled_net)) (watch_calm\<lparr>we_now := 601000000000\<rparr>) invoice_db [] = (db', w', p)"
    by (metis prod.collapse)
  have "status_of db' ''01020304'' = Some ''expired'' \<and> snd (CreditInvoice no_faults (db_run db' []) ''01020304'') \<noteq> (True, None)"
    by (rule late_payment_lost [OF _ _ _ r, where i = "hd (tbl_invoices invoice_db)"])
       (simp_all add: invoice_db_eq watch_calm_def no_faults_def overdue_def ago_def secs_def)
  then show "status_of (fst (watcher_tick (Some (CheckInvoice c settled_net)) (watch_calm\<lparr>we_now := 601000000000\<rparr>) invoice_db []))
     ''01020304'' = Some ''expired''" by (simp add: r)
qed

end
