(* ===== verification/Web.thy ===== *)
theory Web
  imports RateLimit
begin

text \<open>
  \<open>internal/web/web.go\<close>: the frontend. The files are those under \<open>static/\<close>, embedded in the program; the server is the
  standard library's \<open>FileServer\<close> on them, modelled up to the contents: a reply names the file whose bytes are sent.
  Paths are taken without percent escapes and as valid UTF-8, conditional and partial requests are left out.
\<close>

section \<open>The embedded files\<close>

definition staticFS :: "string list" where
  "staticFS =
     [''app.js'', ''docs/docs.css'', ''docs/index.html'', ''favicon.svg'', ''index.html'', ''locales/ca.json'', ''locales/de.json'',
      ''locales/en.json'', ''locales/es.json'', ''locales/eu.json'', ''locales/fr.json'', ''locales/gl.json'', ''locales/it.json'',
      ''logo.png'', ''logo.svg'', ''style.css'']"

definition is_file :: "string \<Rightarrow> bool" where
  "is_file name \<longleftrightarrow> name \<in> set staticFS"

definition is_dir :: "string \<Rightarrow> bool" where
  "is_dir name \<longleftrightarrow> name = '''' \<or> list_ex (\<lambda>f. HasPrefix f (name @ ''/'')) staticFS"

text \<open>The names in a directory, in order, those of directories with a slash.\<close>

definition children :: "string \<Rightarrow> string list" where
  "children name =
     (let pre = (if name = '''' then '''' else name @ ''/'')
      in remdups (map (\<lambda>f. case Split (drop (length pre) f) CHR ''/'' of [x] \<Rightarrow> x | x # xs \<Rightarrow> x @ ''/'')
           (filter (\<lambda>f. HasPrefix f pre) staticFS)))"

section \<open>Serving a path\<close>

text \<open>\<open>path.Clean\<close> of a rooted path, as its elements, and \<open>path.Base\<close>.\<close>

definition path_elem :: "string list \<Rightarrow> string \<Rightarrow> string list" where
  "path_elem acc x = (if x = '''' \<or> x = ''.'' then acc else if x = ''..'' then butlast acc else acc @ [x])"

definition path_elems :: "string \<Rightarrow> string list" where
  "path_elems p = foldl path_elem [] (Split p CHR ''/'')"

definition fs_name :: "string list \<Rightarrow> string" where
  "fs_name elems = tl (concat (map (\<lambda>x. CHR ''/'' # x) elems))"

definition path_base :: "string \<Rightarrow> string" where
  "path_base p = last (filter (\<lambda>x. x \<noteq> '''') (Split p CHR ''/''))"

text \<open>A file, the listing of a directory, a redirect to a relative address, an error.\<close>

datatype file_reply = Content string | Listing "string list" | Local string | FileError int

definition web_Handler :: "string \<Rightarrow> file_reply" where
  "web_Handler urlPath =
     (let p = (if HasPrefix urlPath ''/'' then urlPath else ''/'' @ urlPath); name = fs_name (path_elems p)
      in if HasSuffix p ''/index.html'' then Local ''./''
         else if is_file name then
           (if HasSuffix p ''/'' then Local (''../'' @ path_base p) else Content name)
         else if is_dir name then
           (if \<not> HasSuffix p ''/'' then Local (path_base p @ ''/'')
            else (let index = (if name = '''' then ''index.html'' else name @ ''/index.html'')
                  in if is_file index then Content index else Listing (children name)))
         else FileError 404)"

text \<open>What a path asks for, by its name under \<open>static/\<close>.\<close>

definition requested :: "string \<Rightarrow> string" where
  "requested p = fs_name (path_elems (if HasPrefix p ''/'' then p else ''/'' @ p))"

text \<open>The directories, and the one of them without an index.\<close>

lemma directories:
  assumes "is_dir name" shows "name \<in> set ['''', ''docs'', ''locales'']"
proof -
  have "list_all (\<lambda>f. list_all (\<lambda>k. take k f = '''' \<or> last (take k f) \<noteq> CHR ''/'' \<or>
      butlast (take k f) \<in> set ['''', ''docs'', ''locales'']) [0..<Suc (length f)]) staticFS" by code_simp
  then have split: "take k f = '''' \<or> last (take k f) \<noteq> CHR ''/'' \<or> butlast (take k f) \<in> set ['''', ''docs'', ''locales'']"
    if "f \<in> set staticFS" "k \<le> length f" for f k
    using that unfolding list_all_iff set_upt by (meson atLeastLessThan_iff le_imp_less_Suc zero_le)
  show ?thesis
  proof (cases "name = ''''")
    case False
    then obtain f where f: "f \<in> set staticFS" "HasPrefix f (name @ ''/'')"
      using assms by (auto simp: is_dir_def list_ex_iff)
    then have k: "take (Suc (length name)) f = name @ ''/''" "Suc (length name) \<le> length f"
      by (auto simp: HasPrefix_def dest: arg_cong [where f = length])
    show ?thesis using split [OF f(1) k(2)] unfolding k(1) by simp
  qed simp
qed

lemma web_Handler_listing:
  assumes "web_Handler p = Listing names"
  shows "requested p = ''locales'' \<and>
    names = [''ca.json'', ''de.json'', ''en.json'', ''es.json'', ''eu.json'', ''fr.json'', ''gl.json'', ''it.json'']"
proof -
  have idx: "is_file ''index.html''" "is_file (''docs'' @ ''/index.html'')" by code_simp+
  have "is_dir (requested p)" "\<not> is_file (if requested p = '''' then ''index.html'' else requested p @ ''/index.html'')"
    "names = children (requested p)"
    using assms by (auto simp: web_Handler_def requested_def Let_def split: if_splits)
  moreover from this have "requested p = ''locales''" using directories idx by fastforce
  moreover have "children ''locales'' =
      [''ca.json'', ''de.json'', ''en.json'', ''es.json'', ''eu.json'', ''fr.json'', ''gl.json'', ''it.json'']" by code_simp
  ultimately show ?thesis by simp
qed

lemma web_Handler_file:
  "web_Handler p = Content f \<Longrightarrow> f \<in> set staticFS \<and>
     (f = requested p \<or> f = requested p @ ''/index.html'' \<or> requested p = '''' \<and> f = ''index.html'')"
  by (auto simp: web_Handler_def requested_def Let_def is_file_def split: if_splits)

lemma web_Handler_error:
  "web_Handler p = FileError c \<Longrightarrow> c = 404 \<and> requested p \<notin> set staticFS \<and>
     (\<forall>f\<in>set staticFS. \<not> HasPrefix f (requested p @ ''/''))"
  by (auto simp: web_Handler_def requested_def Let_def is_file_def is_dir_def list_ex_iff split: if_splits)

lemma Split_last: "p \<noteq> '''' \<Longrightarrow> last p \<noteq> d \<Longrightarrow> last (Split p d) \<noteq> ''''"
proof (induction p)
  case (Cons c p)
  show ?case
  proof (cases "p = ''''")
    case False
    then have "last (Split p d) \<noteq> ''''" using Cons by simp
    moreover obtain w ws where "Split p d = w # ws" by (cases "Split p d") auto
    ultimately show ?thesis by (auto split: if_splits)
  qed (use Cons in simp)
qed simp

lemma web_Handler_local:
  assumes "web_Handler p = Local to" shows "\<not> HasPrefix to ''/''"
proof -
  let ?p = "if HasPrefix p ''/'' then p else ''/'' @ p"
  consider "to = ''./''" | "to = ''../'' @ path_base ?p" | "to = path_base ?p @ ''/''" "\<not> HasSuffix ?p ''/''"
    using assms unfolding web_Handler_def Let_def by (auto split: if_splits)
  then show ?thesis
  proof cases
    case 3
    have p: "?p \<noteq> ''''" by (auto simp: HasPrefix_def)
    then have "last ?p \<noteq> CHR ''/''" using 3(2) unfolding HasSuffix_iff by (metis append_butlast_last_id suffixI)
    then have "last (Split ?p CHR ''/'') \<noteq> ''''" by (rule Split_last [OF p])
    then have "filter (\<lambda>x. x \<noteq> '''') (Split ?p CHR ''/'') \<noteq> []"
      unfolding filter_empty_conv using last_in_set [OF Split_not_Nil] by blast
    then have "path_base ?p \<in> set (filter (\<lambda>x. x \<noteq> '''') (Split ?p CHR ''/''))"
      unfolding path_base_def by (rule last_in_set)
    then have "path_base ?p \<noteq> ''''" "CHR ''/'' \<notin> set (path_base ?p)" using Split_fields by auto
    then show ?thesis using 3(1) by (cases "path_base ?p") (auto simp: HasPrefix_def)
  qed (simp_all add: HasPrefix_def)
qed

text \<open>The address of each file.\<close>

definition address :: "string \<Rightarrow> string" where
  "address f =
     (if f = ''index.html'' then ''/''
      else if HasSuffix f ''/index.html'' then ''/'' @ take (length f - 10) f
      else ''/'' @ f)"

lemma address_served: "f \<in> set staticFS \<Longrightarrow> web_Handler (address f) = Content f \<and> exempt (address f)"
proof -
  have "list_all (\<lambda>f. web_Handler (address f) = Content f \<and> exempt (address f)) staticFS" by code_simp
  then show "f \<in> set staticFS \<Longrightarrow> ?thesis" by (simp add: list_all_iff)
qed

lemma web_examples:
  "web_Handler ''/docs/index.html'' = Local ''./''" "web_Handler ''/docs'' = Local ''docs/''"
  "web_Handler ''/app.js/'' = Local ''../app.js''" "web_Handler ''/x'' = FileError 404"
  "web_Handler ''/locales/'' = Listing [''ca.json'', ''de.json'', ''en.json'', ''es.json'', ''eu.json'', ''fr.json'', ''gl.json'', ''it.json'']"
  by code_simp+

end
