(* ===== verification/Server.thy ===== *)
theory Server
  imports Api Payout Invoices Web
begin

text \<open>
  \<open>internal/gateway/server.go\<close> and \<open>cmd/routecat/main.go\<close>: the routes of the HTTP server and how the process
  is put together. The multiplexer is the standard library's \<open>ServeMux\<close>, modelled for the patterns the
  server registers: the longest matching pattern is served, a path that is not clean or lacks the slash of
  a subtree is redirected. Paths are taken without percent escapes.
\<close>

section \<open>Requests as the server gets them\<close>

record http_message =
  h_Method :: string
  h_Path :: string
  h_RemoteAddr :: string
  h_XRealIp :: string
  h_Authorization :: string
  h_XPlayground :: string
  h_api_key :: string
  h_Body :: string
  h_BodyErr :: bool

text \<open>
  The middleware's \<open>MaxBytesReader\<close>: the bytes up to the limit, then an error. The body of a request the
  server gets is never nil.
\<close>

definition limit_body :: "int option \<Rightarrow> http_message \<Rightarrow> http_message" where
  "limit_body cap m =
     (case cap of
        None \<Rightarrow> m
      | Some n \<Rightarrow>
          if int (length (h_Body m)) \<le> n then m
          else m\<lparr>h_Body := take (nat n) (h_Body m), h_BodyErr := True\<rparr>)"

definition for_middleware :: "http_message \<Rightarrow> http_request" where
  "for_middleware m = \<lparr>Path = h_Path m, RemoteAddr = h_RemoteAddr m, XRealIp = h_XRealIp m, HasBody = True\<rparr>"

definition for_gateway :: "http_message \<Rightarrow> request" where
  "for_gateway m = \<lparr>r_Method = h_Method m, r_Authorization = h_Authorization m, r_Path = h_Path m,
     r_api_key = h_api_key m, r_Body = (if h_BodyErr m then None else Some (h_Body m))\<rparr>"

definition for_api :: "http_message \<Rightarrow> api_request" where
  "for_api m = \<lparr>q_Method = h_Method m, q_RemoteAddr = h_RemoteAddr m, q_XRealIp = h_XRealIp m,
     q_Authorization = h_Authorization m, q_XPlayground = h_XPlayground m, q_Body = h_Body m, q_BodyErr = h_BodyErr m\<rparr>"

section \<open>Routes\<close>

datatype route =
  ToRegister | ToWS | ToJobProxy | ToWithdraw | ToChat | ToModels | ToStats | ToAudit | ToRegisterUser | ToTopUp
| ToBalance | ToWeb

definition routes :: "(string \<times> route) list" where
  "routes =
     [(''/v1/gateway/register'', ToRegister), (''/v1/gateway/ws'', ToWS), (''/v1/gateway/jobs/'', ToJobProxy),
      (''/v1/provider/withdraw-ecash'', ToWithdraw), (''/v1/chat/completions'', ToChat), (''/v1/models'', ToModels),
      (''/v1/stats'', ToStats), (''/v1/audit'', ToAudit), (''/v1/auth/register'', ToRegisterUser),
      (''/v1/auth/topup'', ToTopUp), (''/v1/auth/balance'', ToBalance), (''/'', ToWeb)]"

definition pattern_matches :: "string \<Rightarrow> string \<Rightarrow> bool" where
  "pattern_matches pat path = (if HasSuffix pat ''/'' then HasPrefix path pat else path = pat)"

fun longest_match :: "(string \<times> 'r) list \<Rightarrow> string \<Rightarrow> (string \<times> 'r) option" where
  "longest_match [] path = None"
| "longest_match ((pat, h) # rs) path =
     (let rest = longest_match rs path
      in if \<not> pattern_matches pat path then rest
         else (case rest of
                 None \<Rightarrow> Some (pat, h)
               | Some (pat', h') \<Rightarrow> if length pat < length pat' then rest else Some (pat, h)))"

definition clean_path :: "string \<Rightarrow> string" where
  "clean_path p =
     (let elems = path_elems p;
          np = concat (map (\<lambda>x. CHR ''/'' # x) elems)
      in if elems = [] then ''/'' else if HasSuffix p ''/'' then np @ ''/'' else np)"

datatype target = Redirect string | Handler route

definition mux :: "string \<Rightarrow> string \<Rightarrow> target" where
  "mux method p =
     (let path = (if method = ''CONNECT'' then p else clean_path p);
          subtree = path @ ''/''
      in if path \<notin> fst ` set routes \<and> subtree \<in> fst ` set routes then Redirect subtree
         else if path \<noteq> p then Redirect path
         else (case longest_match routes path of None \<Rightarrow> Redirect path | Some (pat, h) \<Rightarrow> Handler h))"

section \<open>The process\<close>

record Server =
  sv_addr :: string
  sv_limiter :: RateLimiter
  sv_maxBody :: int

definition NewServer :: "string \<Rightarrow> Server" where
  "NewServer addr = \<lparr>sv_addr = addr, sv_limiter = NewRateLimiter 60 60000000000, sv_maxBody = 1048576\<rparr>"

text \<open>
  The state of the process: the gateway with the database and the billing engine all parts share, the API,
  the server, and, when LND is configured, the client and the payout engine. \<open>calls\<close> are the calls made over
  the network so far.
\<close>

record Process =
  gw :: Gateway
  pub :: API
  srv :: Server
  ln :: "LNDClient option"
  payouts :: "PayoutEngine option"
  calls :: wire

record flags =
  fl_addr :: string
  fl_lndAddr :: string
  fl_lndMacaroon :: "string option"
  fl_lndTLS :: string
  fl_feePct :: f64

text \<open>
  \<open>main\<close>, from the opened database on: \<open>quoted\<close> is the answer to the price tracker's first request,
  \<open>fl_lndMacaroon\<close> the contents of the macaroon file, and \<open>now\<close> the time at which the payout engine starts.
\<close>

definition main_go :: "flags \<Rightarrow> BuildInfo \<Rightarrow> DB \<Rightarrow> string option \<Rightarrow> time \<Rightarrow> Process" where
  "main_go fl b db0 quoted now =
     (let client = (if fl_lndAddr fl = '''' then None
             else (case NewLND (fl_lndAddr fl) (fl_lndMacaroon fl) (fl_lndTLS fl) of Inl _ \<Rightarrow> None | Inr c \<Rightarrow> Some c));
          bill0 = New (fl_feePct fl) quoted;
          api0 = SetNodeCounter (SetAssigner ((New_api b)\<lparr>rt_wired := True\<rparr>))
      in \<lparr>gw = New_gateway db0 bill0, pub = api0, srv = NewServer (fl_addr fl), ln = client,
          payouts = (case client of None \<Rightarrow> None | Some c \<Rightarrow> Some (NewPayoutEngine 10000 now)), calls = []\<rparr>)"

section \<open>Serving a request\<close>

record serve_env =
  se_limit :: time
  se_gw :: env
  se_api :: api_env

datatype reply =
  Plain response
| Api api_response
| Upgraded nat
| Stream nat nat
| File file_reply
| Moved string
| TooMany response

text \<open>The middleware refused the request.\<close>

definition too_many :: "reply \<Rightarrow> bool" where
  "too_many r \<longleftrightarrow> (case r of TooMany _ \<Rightarrow> True | _ \<Rightarrow> False)"

definition invoicer_of :: "net \<Rightarrow> Process \<Rightarrow> wire invoicer option" where
  "invoicer_of net s = (case ln s of None \<Rightarrow> None | Some c \<Rightarrow> SetInvoicer (CreateInvoice_lnd c net))"

fun dispatch :: "net \<Rightarrow> serve_env \<Rightarrow> route \<Rightarrow> http_message \<Rightarrow> Process \<Rightarrow> Process \<times> reply" where
  "dispatch net e ToRegister m s =
     (let (g, resp) = HandleRegister (gw s) (se_gw e) (for_gateway m) in (s\<lparr>gw := g\<rparr>, Plain resp))"
| "dispatch net e ToWS m s =
     (let (g, r) = HandleWS_connect (gw s) (se_gw e) (h_api_key m)
      in (s\<lparr>gw := g\<rparr>, case r of Inl resp \<Rightarrow> Plain resp | Inr c \<Rightarrow> Upgraded c))"
| "dispatch net e ToJobProxy m s = (s, Plain (HandleJobProxy (gw s) (se_gw e) (for_gateway m)))"
| "dispatch net e ToWithdraw m s = (s, Plain HandleWithdraw)"
| "dispatch net e ToChat m s =
     (let (g, r) = HandleChatCompletions (pub s) (gw s) (se_api e) (se_gw e) (for_api m)
      in (s\<lparr>gw := g\<rparr>, case r of ChatError resp \<Rightarrow> Api resp | Streaming rc dc \<Rightarrow> Stream rc dc))"
| "dispatch net e ToModels m s = (s, Api (HandleModels (pub s) (gw s) (e_order (se_gw e))))"
| "dispatch net e ToStats m s = (s, Api (HandleStats (pub s) (gw s) (se_api e)))"
| "dispatch net e ToAudit m s = (s, Api (HandleAudit (pub s) (gw s) (se_api e)))"
| "dispatch net e ToRegisterUser m s =
     (let (a, g, resp) = HandleRegisterUser (pub s) (gw s) (se_api e) (for_api m)
      in (s\<lparr>pub := a, gw := g\<rparr>, Api resp))"
| "dispatch net e ToTopUp m s =
     (let (g, w, resp) = HandleTopUp (invoicer_of net s) (pub s) (gw s) (calls s) (se_api e) (for_api m)
      in (s\<lparr>gw := g, calls := w\<rparr>, Api resp))"
| "dispatch net e ToBalance m s = (s, Api (HandleBalance (gw s) (se_api e) (for_api m)))"
| "dispatch net e ToWeb m s = (s, File (web_Handler (h_Path m)))"

definition ServeHTTP :: "net \<Rightarrow> serve_env \<Rightarrow> http_message \<Rightarrow> Process \<Rightarrow> Process \<times> reply" where
  "ServeHTTP net e m s =
     (let (rl, r) = SecurityMiddleware (sv_limiter (srv s)) (sv_maxBody (srv s)) (for_middleware m) (se_limit e);
          s1 = s\<lparr>srv := (srv s)\<lparr>sv_limiter := rl\<rparr>\<rparr>
      in case r of
           HttpError status text \<Rightarrow> (s1, TooMany (status, text))
         | Next cap _ \<Rightarrow>
             (case mux (h_Method m) (h_Path m) of
                Redirect p \<Rightarrow> (s1, Moved p)
              | Handler h \<Rightarrow> dispatch net e h (limit_body cap m) s1))"

section \<open>Which handlers escape the rate limit\<close>

lemma longest_match_Some:
  assumes "longest_match rs path = Some (pat, h)"
  shows "(pat, h) \<in> set rs \<and> pattern_matches pat path \<and>
    (\<forall>r\<in>set rs. pattern_matches (fst r) path \<longrightarrow> length (fst r) \<le> length pat)"
  using assms
proof (induction rs arbitrary: pat h)
  case (Cons r rs)
  obtain pat0 h0 where r: "r = (pat0, h0)" by force
  show ?case
  proof (cases "longest_match rs path")
    case None
    have "\<not> pattern_matches (fst r') path" if "r' \<in> set rs" for r'
      using None that by (induction rs) (auto simp: Let_def split: if_splits option.splits)
    then show ?thesis using Cons.prems None r by (auto split: if_splits)
  next
    case (Some q)
    obtain pat1 h1 where q: "q = (pat1, h1)" by force
    show ?thesis using Cons.IH [of pat1 h1] Cons.prems Some r q by (auto simp: Let_def split: if_splits)
  qed
qed simp

lemma mux_handler:
  "mux method p = Handler h \<Longrightarrow> \<exists>pat. longest_match routes p = Some (pat, h)"
  by (auto simp: mux_def Let_def split: if_splits option.splits)

definition unlimited_route :: "route \<Rightarrow> bool" where
  "unlimited_route h \<longleftrightarrow> h \<in> {ToWeb, ToModels, ToStats, ToAudit, ToJobProxy}"

lemma exempt_unlimited:
  assumes "exempt p" "mux method p = Handler h" shows "unlimited_route h"
proof -
  obtain pat where "longest_match routes p = Some (pat, h)" using mux_handler [OF assms(2)] by blast
  from longest_match_Some [OF this] have m: "(pat, h) \<in> set routes" "pattern_matches pat p" by simp_all
  have "p = pat" if "\<not> HasSuffix pat ''/''" using m(2) that by (simp add: pattern_matches_def)
  then show ?thesis
    using m(1) assms(1)
    by (auto simp: routes_def unlimited_route_def exempt_def HasSuffix_def HasPrefix_def)
qed

lemma limit_body_length: "0 \<le> n \<Longrightarrow> int (length (h_Body (limit_body (Some n) m))) \<le> n"
  by (auto simp: limit_body_def)

section \<open>Properties\<close>

text \<open>
  C16: of the handlers only the frontend, the job proxy and the three public reports can be reached past the rate
  limiter. A request to any other, registration, top-up, chat, the WebSocket, is either refused or was let
  through by the limiter, and the handler gets at most a megabyte of its body.
\<close>

theorem guarded_handlers:
  assumes "ServeHTTP net e m s = (s', r)" "mux (h_Method m) (h_Path m) = Handler h" "\<not> unlimited_route h"
    and "sv_maxBody (srv s) = 1048576"
  shows "snd (Allow (sv_limiter (srv s)) (client_ip (for_middleware m)) (se_limit e)) = (\<not> too_many r) \<and>
    (\<not> too_many r \<longrightarrow> (\<exists>m' s1. (s', r) = dispatch net e h m' s1 \<and> gw s1 = gw s \<and> length (h_Body m') \<le> 1048576))"
proof -
  have x: "\<not> exempt (h_Path m)" using exempt_unlimited [OF _ assms(2)] assms(3) by blast
  obtain rl ok where a: "Allow (sv_limiter (srv s)) (client_ip (for_middleware m)) (se_limit e) = (rl, ok)" by force
  have p: "Path (for_middleware m) = h_Path m" "HasBody (for_middleware m)" by (simp_all add: for_middleware_def)
  let ?s1 = "s\<lparr>srv := (srv s)\<lparr>sv_limiter := rl\<rparr>\<rparr>" and ?m = "limit_body (Some 1048576) m"
  show ?thesis
  proof (cases ok)
    case True
    then have d: "(s', r) = dispatch net e h ?m ?s1"
      using assms(1,2,4) x a by (simp add: ServeHTTP_def SecurityMiddleware_def p)
    have "\<not> too_many (snd (dispatch net e h m' s2))" for m' s2
      by (cases h) (simp_all add: too_many_def split_beta split: sum.split chat_result.split)
    then have "\<not> too_many r" using d by (metis snd_conv)
    moreover have "length (h_Body ?m) \<le> 1048576" using limit_body_length [of 1048576 m] by simp
    ultimately show ?thesis using d a True by (intro conjI impI exI [of _ ?m] exI [of _ ?s1]) simp_all
  next
    case False
    then have "too_many r" using assms(1) x a by (auto simp: too_many_def ServeHTTP_def SecurityMiddleware_def p)
    then show ?thesis using a False by simp
  qed
qed

definition example_flags :: flags where
  "example_flags = \<lparr>fl_addr = '':8080'', fl_lndAddr = '''', fl_lndMacaroon = None, fl_lndTLS = '''', fl_feePct = Fin 5\<rparr>"

definition example_message :: http_message where
  "example_message = \<lparr>h_Method = ''POST'', h_Path = ''/v1/auth/topup'', h_RemoteAddr = ''1.2.3.4:5'', h_XRealIp = '''',
     h_Authorization = '''', h_XPlayground = '''', h_api_key = '''', h_Body = '''', h_BodyErr = False\<rparr>"

lemma example_routes:
  "mux ''POST'' ''/v1/auth/topup'' = Handler ToTopUp" "mux ''GET'' ''/v1/gateway/jobs'' = Redirect ''/v1/gateway/jobs/''"
  "mux ''GET'' ''/v1//x/../models'' = Redirect ''/v1/models''" "mux ''GET'' ''/v1/gateway/jobs/j/request'' = Handler ToJobProxy"
  "mux ''GET'' ''/docs/'' = Handler ToWeb"
  by code_simp+

theorem guarded_handlers_witness:
  "\<forall>net e bi db0. \<not> too_many (snd (ServeHTTP net e example_message (main_go example_flags bi db0 None 0)))"
proof (intro allI)
  fix net e bi db0
  let ?s = "main_go example_flags bi db0 None 0"
  obtain s' r where r: "ServeHTTP net e example_message ?s = (s', r)" by force
  have m: "mux (h_Method example_message) (h_Path example_message) = Handler ToTopUp"
    using example_routes(1) by (simp add: example_message_def)
  have s: "srv ?s = NewServer '':8080''" by (simp add: main_go_def example_flags_def)
  have "snd (Allow (sv_limiter (srv ?s)) (client_ip (for_middleware example_message)) (se_limit e)) = (\<not> too_many r)"
    using guarded_handlers [OF r m] by (simp add: unlimited_route_def s NewServer_def)
  then show "\<not> too_many (snd (ServeHTTP net e example_message (main_go example_flags bi db0 None 0)))"
    by (simp add: r s NewServer_def NewRateLimiter_def Allow_def entries_of_def)
qed

lemma HasSuffix_char: "HasSuffix s [c] \<longleftrightarrow> s \<noteq> [] \<and> last s = c"
  by (cases s rule: rev_cases) (auto simp: HasSuffix_def HasPrefix_def)

lemma longest_match_jobs:
  assumes "HasPrefix p ''/v1/gateway/jobs/''" "HasPrefix p ''/''" "p \<notin> fst ` set routes"
  shows "longest_match routes p = Some (''/v1/gateway/jobs/'', ToJobProxy)"
  using assms by (simp add: routes_def pattern_matches_def HasSuffix_char)

text \<open>
  The exemptions by suffix let the job proxy be asked for any job without limit: with a file name such as
  \<open>x.json\<close> at the end of the path, the request is served as usual and the limiter does not count it.
\<close>

theorem job_proxy_unlimited:
  assumes "h_Path m = ''/v1/gateway/jobs/'' @ j @ ''/x.json''" "clean_path (h_Path m) = h_Path m"
  shows "ServeHTTP net e m s = (s, Plain (HandleJobProxy (gw s) (se_gw e) (for_gateway m)))"
proof -
  have x: "exempt (Path (for_middleware m))"
    by (simp add: for_middleware_def assms(1) exempt_def HasSuffix_def HasPrefix_def)
  have "HasPrefix (h_Path m) ''/v1/gateway/jobs/''" "HasPrefix (h_Path m) ''/''"
    by (simp_all add: assms(1) HasPrefix_def)
  moreover have "h_Path m \<notin> fst ` set routes" by (simp add: assms(1) routes_def)
  ultimately have "longest_match routes (h_Path m) = Some (''/v1/gateway/jobs/'', ToJobProxy)"
    by (rule longest_match_jobs)
  moreover have "h_Path m @ ''/'' \<notin> fst ` set routes" by (simp add: assms(1) routes_def)
  ultimately have "mux (h_Method m) (h_Path m) = Handler ToJobProxy"
    using assms(2) by (simp add: mux_def Let_def)
  then show ?thesis using x by (simp add: ServeHTTP_def SecurityMiddleware_def limit_body_def)
qed

theorem job_proxy_unlimited_witness:
  "\<forall>net e bi db0. fst (ServeHTTP net e (example_message\<lparr>h_Method := ''GET'', h_Path := ''/v1/gateway/jobs/'' @ ''j'' @ ''/x.json''\<rparr>)
     (main_go example_flags bi db0 None 0)) = main_go example_flags bi db0 None 0"
proof (intro allI)
  fix net e bi db0
  have "clean_path (''/v1/gateway/jobs/'' @ ''j'' @ ''/x.json'') = ''/v1/gateway/jobs/'' @ ''j'' @ ''/x.json''"
    by code_simp
  then show "fst (ServeHTTP net e (example_message\<lparr>h_Method := ''GET'', h_Path := ''/v1/gateway/jobs/'' @ ''j'' @ ''/x.json''\<rparr>)
     (main_go example_flags bi db0 None 0)) = main_go example_flags bi db0 None 0"
    using job_proxy_unlimited [of "example_message\<lparr>h_Method := ''GET'', h_Path := ''/v1/gateway/jobs/'' @ ''j'' @ ''/x.json''\<rparr>"
      "''j''"] by simp
qed

text \<open>
  C17: every embedded file of the frontend is served at its address, to anybody and however much they ask: the
  request counts for no limit and changes nothing. Whatever path it is asked for, the frontend sends no other
  contents than the embedded file of that name or the index of that directory; it lists one directory, the
  locales, and answers 404 only for a name that no embedded file or directory has. All other answers are
  redirects to a relative address.
\<close>

theorem frontend_served:
  assumes "f \<in> set staticFS" "h_Path m = address f" "h_Method m \<noteq> ''CONNECT''"
  shows "ServeHTTP net e m s = (s, File (Content f)) \<and>
    (case web_Handler p of
       Content f' \<Rightarrow> f' \<in> set staticFS \<and>
         (f' = requested p \<or> f' = requested p @ ''/index.html'' \<or> requested p = '''' \<and> f' = ''index.html'')
     | Listing names \<Rightarrow> requested p = ''locales'' \<and>
         names = [''ca.json'', ''de.json'', ''en.json'', ''es.json'', ''eu.json'', ''fr.json'', ''gl.json'', ''it.json'']
     | FileError c \<Rightarrow> c = 404 \<and> requested p \<notin> set staticFS \<and> (\<forall>x\<in>set staticFS. \<not> HasPrefix x (requested p @ ''/''))
     | Local to \<Rightarrow> \<not> HasPrefix to ''/'')"
proof -
  have "list_all (\<lambda>f. clean_path (address f) = address f \<and> address f @ ''/'' \<notin> fst ` set routes \<and>
      longest_match routes (address f) = Some (''/'', ToWeb)) staticFS" by code_simp
  then have "clean_path (address f) = address f \<and> address f @ ''/'' \<notin> fst ` set routes \<and>
      longest_match routes (address f) = Some (''/'', ToWeb)" using assms(1) unfolding list_all_iff by blast
  then have "mux (h_Method m) (h_Path m) = Handler ToWeb" using assms(2,3) by (simp add: mux_def Let_def)
  then have "ServeHTTP net e m s = (s, File (Content f))"
    using address_served [OF assms(1)]
    by (simp add: ServeHTTP_def SecurityMiddleware_def for_middleware_def limit_body_def assms(2))
  then show ?thesis
    using web_Handler_file web_Handler_listing web_Handler_error web_Handler_local by (simp split: file_reply.split)
qed

theorem frontend_served_witness:
  "\<forall>net e bi db0. snd (ServeHTTP net e (example_message\<lparr>h_Method := ''GET'', h_Path := ''/docs/''\<rparr>)
     (main_go example_flags bi db0 None 0)) = File (Content ''docs/index.html'')"
proof (intro allI)
  fix net e bi db0
  have f: "''docs/index.html'' \<in> set staticFS" "''/docs/'' = address ''docs/index.html''" by code_simp+
  then show "snd (ServeHTTP net e (example_message\<lparr>h_Method := ''GET'', h_Path := ''/docs/''\<rparr>)
     (main_go example_flags bi db0 None 0)) = File (Content ''docs/index.html'')"
    using frontend_served [OF f(1), of "example_message\<lparr>h_Method := ''GET'', h_Path := ''/docs/''\<rparr>"] by simp
qed

end
