(* ===== verification/Slots.thy ===== *)
theory Slots
  imports Handlers
begin

text \<open>
  The invariants of the gateway's in-memory state, between the steps of \<open>gw_step\<close>: a user's counter is the number
  of their pending jobs and never above three; the done channel of a pending job is open and its own, so no channel
  is closed twice. The first of them holds of the code only as far as nothing comes between the parts of
  \<open>AssignJob\<close>: what holds then is in \<open>Interleave\<close>.
\<close>

section \<open>What the parts of a step leave alone\<close>

lemma update_conn_frame [simp]:
  "nodes (update_conn g c f) = nodes g" "next_conn (update_conn g c f) = next_conn g"
  "pendingJobs (update_conn g c f) = pendingJobs g" "chans (update_conn g c f) = chans g"
  "next_chan (update_conn g c f) = next_chan g" "userJobs (update_conn g c f) = userJobs g"
  "db (update_conn g c f) = db g" "bill (update_conn g c f) = bill g"
  by (simp_all add: update_conn_def)

lemma Send_frame [simp]:
  "nodes (fst (Send g c m ok)) = nodes g" "next_conn (fst (Send g c m ok)) = next_conn g"
  "pendingJobs (fst (Send g c m ok)) = pendingJobs g" "chans (fst (Send g c m ok)) = chans g"
  "next_chan (fst (Send g c m ok)) = next_chan g" "userJobs (fst (Send g c m ok)) = userJobs g"
  "db (fst (Send g c m ok)) = db g" "bill (fst (Send g c m ok)) = bill g"
  by (simp_all add: Send_def split: option.split)

lemma try_send_frame [simp]:
  "nodes (try_send g ch x) = nodes g" "conns (try_send g ch x) = conns g" "next_conn (try_send g ch x) = next_conn g"
  "pendingJobs (try_send g ch x) = pendingJobs g" "next_chan (try_send g ch x) = next_chan g"
  "userJobs (try_send g ch x) = userJobs g" "db (try_send g ch x) = db g" "bill (try_send g ch x) = bill g"
  by (simp_all add: try_send_def split: option.split)

lemma close_chan_frame [simp]:
  "nodes (fst (close_chan g ch)) = nodes g" "conns (fst (close_chan g ch)) = conns g"
  "next_conn (fst (close_chan g ch)) = next_conn g"
  "pendingJobs (fst (close_chan g ch)) = pendingJobs g" "next_chan (fst (close_chan g ch)) = next_chan g"
  "userJobs (fst (close_chan g ch)) = userJobs g" "db (fst (close_chan g ch)) = db g"
  "bill (fst (close_chan g ch)) = bill g"
  by (simp_all add: close_chan_def split: option.split)

lemma receive_frame [simp]:
  "nodes (receive g ch) = nodes g" "conns (receive g ch) = conns g" "next_conn (receive g ch) = next_conn g"
  "pendingJobs (receive g ch) = pendingJobs g" "next_chan (receive g ch) = next_chan g"
  "userJobs (receive g ch) = userJobs g" "db (receive g ch) = db g" "bill (receive g ch) = bill g"
  by (simp_all add: receive_def split: option.split)

lemma decrUserJobs_frame [simp]:
  "nodes (decrUserJobs g k) = nodes g" "conns (decrUserJobs g k) = conns g" "next_conn (decrUserJobs g k) = next_conn g"
  "pendingJobs (decrUserJobs g k) = pendingJobs g" "chans (decrUserJobs g k) = chans g"
  "next_chan (decrUserJobs g k) = next_chan g" "db (decrUserJobs g k) = db g" "bill (decrUserJobs g k) = bill g"
  by (simp_all add: decrUserJobs_def Let_def)

lemma incrUserJobs_frame [simp]:
  "nodes (fst (incrUserJobs g k)) = nodes g" "conns (fst (incrUserJobs g k)) = conns g"
  "next_conn (fst (incrUserJobs g k)) = next_conn g"
  "pendingJobs (fst (incrUserJobs g k)) = pendingJobs g" "chans (fst (incrUserJobs g k)) = chans g"
  "next_chan (fst (incrUserJobs g k)) = next_chan g" "db (fst (incrUserJobs g k)) = db g"
  "bill (fst (incrUserJobs g k)) = bill g"
  by (simp_all add: incrUserJobs_def)

lemma record_job_frame [simp]:
  "nodes (fst (record_job g e j i t p f)) = nodes g" "conns (fst (record_job g e j i t p f)) = conns g"
  "next_conn (fst (record_job g e j i t p f)) = next_conn g"
  "pendingJobs (fst (record_job g e j i t p f)) = pendingJobs g"
  "chans (fst (record_job g e j i t p f)) = chans g" "next_chan (fst (record_job g e j i t p f)) = next_chan g"
  "userJobs (fst (record_job g e j i t p f)) = userJobs g" "bill (fst (record_job g e j i t p f)) = bill g"
  by (simp_all add: record_job_def split_beta)

lemma charge_user_frame [simp]:
  "nodes (fst (charge_user g e j t)) = nodes g" "conns (fst (charge_user g e j t)) = conns g"
  "next_conn (fst (charge_user g e j t)) = next_conn g"
  "pendingJobs (fst (charge_user g e j t)) = pendingJobs g"
  "chans (fst (charge_user g e j t)) = chans g" "next_chan (fst (charge_user g e j t)) = next_chan g"
  "userJobs (fst (charge_user g e j t)) = userJobs g" "bill (fst (charge_user g e j t)) = bill g"
  by (simp_all add: charge_user_def split_beta)

lemma settle_expired_frame [simp]:
  "pendingJobs (fst (settle_expired g e job)) = pendingJobs g"
  "nodes (fst (settle_expired g e job)) = nodes g" "conns (fst (settle_expired g e job)) = conns g"
  "next_conn (fst (settle_expired g e job)) = next_conn g"
  "chans (fst (settle_expired g e job)) = chans g" "next_chan (fst (settle_expired g e job)) = next_chan g"
  "userJobs (fst (settle_expired g e job)) = userJobs (decrUserJobs g (pj_UserKey job))"
  by (simp_all add: settle_expired_def split_beta Let_def)

section \<open>Slots\<close>

text \<open>The jobs a user has pending, and the slots still to be given back for jobs already removed.\<close>

definition slots :: "Gateway \<Rightarrow> string \<Rightarrow> string set" where
  "slots g k = {j. \<exists>job. pendingJobs g j = Some job \<and> pj_UserKey job = k}"

definition owing :: "PendingJob list \<Rightarrow> string \<Rightarrow> int" where
  "owing js k = int (length (filter (\<lambda>j. pj_UserKey j = k) js))"

definition slots_held :: "PendingJob list \<Rightarrow> Gateway \<Rightarrow> bool" where
  "slots_held js g \<longleftrightarrow> finite (dom (pendingJobs g)) \<and>
     (\<forall>k. user_jobs g k = int (card (slots g k)) + owing js k \<and> int (card (slots g k)) + owing js k \<le> 3)"

lemma owing_simps [simp]:
  "owing [] k = 0" "owing (j # js) k = (if pj_UserKey j = k then 1 else 0) + owing js k"
  by (simp_all add: owing_def)

lemma owing_nonneg [simp]: "0 \<le> owing js k"
  by (simp add: owing_def)

lemma slots_held_cong:
  "pendingJobs g' = pendingJobs g \<Longrightarrow> userJobs g' = userJobs g \<Longrightarrow> slots_held js g' = slots_held js g"
  by (simp add: slots_held_def slots_def user_jobs_def)

lemma finite_slots: "slots_held js g \<Longrightarrow> finite (slots g k)"
  by (rule finite_subset [of _ "dom (pendingJobs g)"]) (auto simp: slots_held_def slots_def)

lemma slots_removed:
  assumes "slots_held js g" "pendingJobs g j = Some job"
    "pendingJobs g' = (pendingJobs g)(j := None)" "userJobs g' = userJobs g"
  shows "slots_held (job # js) g'"
proof -
  have "slots g' k = slots g k - (if pj_UserKey job = k then {j} else {})" for k
    using assms(2,3) by (auto simp: slots_def split: if_splits)
  moreover have "j \<in> slots g (pj_UserKey job)" using assms(2) by (simp add: slots_def)
  moreover have "card (slots g (pj_UserKey job)) > 0"
    using calculation(2) finite_slots [OF assms(1)] card_gt_0_iff by blast
  ultimately show ?thesis
    using assms(1,3,4) by (auto simp: slots_held_def user_jobs_def card_Diff_singleton)
qed

lemma user_jobs_decr:
  "user_jobs (decrUserJobs g k) k' =
     (if k' = k then (if user_jobs g k > 0 then user_jobs g k - 1 else user_jobs g k) else user_jobs g k')"
  by (auto simp: decrUserJobs_def user_jobs_def Let_def split: option.splits)

lemma slots_released:
  assumes "slots_held (job # js) g"
  shows "slots_held js (decrUserJobs g (pj_UserKey job))"
proof -
  have s: "slots (decrUserJobs g k) = slots g" for k by (simp add: slots_def fun_eq_iff)
  have u: "\<forall>k. user_jobs g k = int (card (slots g k)) + owing (job # js) k \<and>
      int (card (slots g k)) + owing (job # js) k \<le> 3"
    using assms by (simp add: slots_held_def)
  have "user_jobs g (pj_UserKey job) = int (card (slots g (pj_UserKey job))) + 1 + owing js (pj_UserKey job)"
    using u by simp
  then have "user_jobs g (pj_UserKey job) > 0" using owing_nonneg [of js "pj_UserKey job"] by linarith
  then have "user_jobs (decrUserJobs g (pj_UserKey job)) k = int (card (slots g k)) + owing js k \<and>
      int (card (slots g k)) + owing js k \<le> 3" for k
    using spec [OF u, of k] by (cases "k = pj_UserKey job") (auto simp: user_jobs_decr)
  then show ?thesis using assms by (simp add: slots_held_def s)
qed

lemma slots_taken:
  assumes "slots_held js g" "incrUserJobs g (pj_UserKey job) = (g', True)"
  shows "slots_held (job # js) g'"
proof -
  have "user_jobs g (pj_UserKey job) < 3"
    "g' = g\<lparr>userJobs := (userJobs g)(pj_UserKey job \<mapsto> user_jobs g (pj_UserKey job) + 1)\<rparr>"
    using assms(2) by (auto simp: incrUserJobs_def maxConcurrentPerUser_def split: if_splits)
  then show ?thesis using assms(1) by (auto simp: slots_held_def slots_def user_jobs_def)
qed

lemma slots_filled:
  assumes "slots_held (job # js) g" "pendingJobs g j = None"
    "pendingJobs g' = (pendingJobs g)(j \<mapsto> job)" "userJobs g' = userJobs g"
  shows "slots_held js g'"
proof -
  have "slots g' k = slots g k \<union> (if pj_UserKey job = k then {j} else {})" for k
    using assms(2,3) by (auto simp: slots_def split: if_splits)
  moreover have "j \<notin> slots g k" for k using assms(2) by (simp add: slots_def)
  ultimately have "int (card (slots g' k)) + owing js k = int (card (slots g k)) + owing (job # js) k" for k
    using finite_slots [OF assms(1)] by simp
  moreover have "user_jobs g' = user_jobs g" using assms(4) by (simp add: user_jobs_def fun_eq_iff)
  ultimately show ?thesis using assms(1,3) by (simp add: slots_held_def del: owing_simps)
qed

lemma slots_relabelled:
  assumes "slots_held js g" "pendingJobs g j = Some job" "pj_UserKey job' = pj_UserKey job"
    "pendingJobs g' = (pendingJobs g)(j \<mapsto> job')" "userJobs g' = userJobs g"
  shows "slots_held js g'"
proof -
  have "slots g' = slots g" using assms(2-4) by (auto simp: slots_def fun_eq_iff)
  moreover have "dom (pendingJobs g') = dom (pendingJobs g)" using assms(2,4) by auto
  ultimately show ?thesis using assms(1,5) by (simp add: slots_held_def user_jobs_def)
qed

lemmas slot_moves = slots_removed slots_released slots_taken slots_filled slots_relabelled

subsection \<open>Every handler keeps them\<close>

text \<open>\<open>AssignJob\<close> once the slot is taken and the node is found: the state \<open>h\<close> after the write.\<close>

definition assigned_job :: "Gateway \<Rightarrow> env \<Rightarrow> string \<Rightarrow> string \<Rightarrow> string \<Rightarrow> string \<Rightarrow> string \<Rightarrow> bool \<Rightarrow> PendingJob" where
  "assigned_job g e n j m k b f = \<lparr>pj_JobID = j, pj_NodeID = n, pj_UserKey = k, pj_Model = m, pj_BuyerBody = b,
     pj_ResponseCh = next_chan g, pj_DoneCh = Suc (next_chan g), pj_FreeTier = f,
     pj_StartedAt = e_now e, pj_LastChunk = ''''\<rparr>"

lemma assigned_job_simps [simp]:
  "pj_JobID (assigned_job g e n j m k b f) = j" "pj_NodeID (assigned_job g e n j m k b f) = n"
  "pj_UserKey (assigned_job g e n j m k b f) = k" "pj_DoneCh (assigned_job g e n j m k b f) = Suc (next_chan g)"
  "pj_ResponseCh (assigned_job g e n j m k b f) = next_chan g"
  by (simp_all add: assigned_job_def)

lemma AssignJob_sending:
  assumes "incrUserJobs g k = (g1, True)" "nodes g1 n = Some c"
  obtains h ok where
    "AssignJob g e n j m k b f =
       (if \<not> ok then (decrUserJobs (h\<lparr>pendingJobs := (pendingJobs h)(j := None)\<rparr>) k, Inl ErrSend)
        else (h, Inr (next_chan g, Suc (next_chan g))))"
    "pendingJobs h = (pendingJobs g)(j \<mapsto> assigned_job g e n j m k b f)"
    "chans h = (chans g)(next_chan g \<mapsto> \<lparr>buffer = [], capacity = 64, closed = False\<rparr>,
       Suc (next_chan g) \<mapsto> \<lparr>buffer = [], capacity = 0, closed = False\<rparr>)"
    "next_chan h = Suc (Suc (next_chan g))" "userJobs h = userJobs g1" "nodes h = nodes g"
    "next_conn h = next_conn g" "db h = db g" "bill h = bill g"
    "conns h = conns (fst (Send g1 c (zero_msg\<lparr>msg_Type := ''job'', msg_JobID := j, msg_Model := m\<rparr>) (e_send e)))"
    "ok = snd (Send g1 c (zero_msg\<lparr>msg_Type := ''job'', msg_JobID := j, msg_Model := m\<rparr>) (e_send e))"
proof -
  have fr: "pendingJobs g1 = pendingJobs g" "chans g1 = chans g" "next_chan g1 = next_chan g"
    "nodes g1 = nodes g" "next_conn g1 = next_conn g" "db g1 = db g" "bill g1 = bill g"
    using incrUserJobs_frame [of g k] by (simp_all add: assms(1))
  let ?job = "assigned_job g e n j m k b f"
  let ?msg = "zero_msg\<lparr>msg_Type := ''job'', msg_JobID := j, msg_Model := m\<rparr>"
  define g4 where "g4 = (fst (make_chan (fst (make_chan g1 64)) 0))\<lparr>pendingJobs := (pendingJobs g1)(j \<mapsto> ?job)\<rparr>"
  have "AssignJob g e n j m k b f =
      (if \<not> snd (Send g4 c ?msg (e_send e))
       then (decrUserJobs ((fst (Send g4 c ?msg (e_send e)))
          \<lparr>pendingJobs := (pendingJobs (fst (Send g4 c ?msg (e_send e))))(j := None)\<rparr>) k, Inl ErrSend)
       else (fst (Send g4 c ?msg (e_send e)), Inr (next_chan g, Suc (next_chan g))))"
    using assms by (simp add: AssignJob_def make_chan_def split_beta g4_def Let_def assigned_job_def fr)
  moreover have "conns (fst (Send g4 c ?msg (e_send e))) = conns (fst (Send g1 c ?msg (e_send e)))"
    "snd (Send g4 c ?msg (e_send e)) = snd (Send g1 c ?msg (e_send e))"
    by (simp_all add: g4_def make_chan_def Send_def update_conn_def split: option.split)
  ultimately show thesis
    by (intro that [of "snd (Send g4 c ?msg (e_send e))" "fst (Send g4 c ?msg (e_send e))"])
       (simp_all add: g4_def make_chan_def fr)
qed

lemma AssignJob_refused:
  "\<not> snd (incrUserJobs g k) \<Longrightarrow> AssignJob g e n j m k b f = (g, Inl ErrTooManyConcurrent)"
  "incrUserJobs g k = (g1, True) \<Longrightarrow> nodes g1 n = None \<Longrightarrow>
     AssignJob g e n j m k b f = (decrUserJobs g1 k, Inl ErrNodeGone)"
  by (auto simp: AssignJob_def incrUserJobs_def split: if_splits)

lemma AssignJob_slots:
  assumes "slots_held [] g" "pendingJobs g j = None"
  shows "slots_held [] (fst (AssignJob g e n j m k b f))"
proof (cases "snd (incrUserJobs g k)")
  case False
  then show ?thesis using assms AssignJob_refused(1) by simp
next
  case True
  then obtain g1 where g1: "incrUserJobs g k = (g1, True)" by (metis prod.collapse)
  let ?job = "assigned_job g e n j m k b f"
  have h: "slots_held [?job] g1" using slots_taken [of "[]" g ?job g1] assms(1) g1 by simp
  have p: "pendingJobs g1 = pendingJobs g" using incrUserJobs_frame(4) [of g k] by (simp add: g1)
  show ?thesis
  proof (cases "nodes g1 n")
    case None
    then show ?thesis using slots_released [OF h] AssignJob_refused(2) [OF g1 None] by simp
  next
    case (Some c)
    obtain g5 ok where s: "AssignJob g e n j m k b f =
       (if \<not> ok then (decrUserJobs (g5\<lparr>pendingJobs := (pendingJobs g5)(j := None)\<rparr>) k, Inl ErrSend)
        else (g5, Inr (next_chan g, Suc (next_chan g))))"
      "pendingJobs g5 = (pendingJobs g)(j \<mapsto> ?job)" "userJobs g5 = userJobs g1"
      using AssignJob_sending [OF g1 Some] by metis
    have f: "slots_held [] g5"
      by (rule slots_filled [OF h, of j]) (use assms(2) p s in simp_all)
    moreover have "slots_held [] (decrUserJobs (g5\<lparr>pendingJobs := (pendingJobs g5)(j := None)\<rparr>) k)"
      using slots_released [OF slots_removed [OF f, of j ?job]] by (simp add: s)
    ultimately show ?thesis unfolding s by simp
  qed
qed

lemma handleReject_slots:
  assumes "slots_held [] g" "handleReject g nc msg = (g', False)" shows "slots_held [] g'"
proof (cases "pendingJobs g (msg_JobID msg)")
  case None
  then show ?thesis using assms by (simp add: handleReject_def)
next
  case (Some job)
  then have g': "g' = decrUserJobs ((fst (close_chan g (pj_DoneCh job)))
      \<lparr>pendingJobs := (pendingJobs g)(msg_JobID msg := None)\<rparr>) (pj_UserKey job)"
    using assms(2) by (auto simp: handleReject_def split_beta split: if_splits)
  show ?thesis unfolding g' by (rule slots_released, rule slots_removed [OF assms(1) Some]) simp_all
qed

lemma handleProxyChunk_slots:
  assumes "slots_held [] g" shows "slots_held [] (fst (handleProxyChunk g nc msg))"
proof (cases "pendingJobs g (msg_JobID msg)")
  case (Some job)
  show ?thesis
  proof (cases "pj_NodeID job = nc_NodeID nc")
    case True
    then show ?thesis
      by (intro slots_relabelled [OF assms Some, of "job\<lparr>pj_LastChunk := last_chunk (msg_Data msg) (pj_LastChunk job)\<rparr>"])
         (simp_all add: handleProxyChunk_def Some Let_def)
  qed (use assms Some in \<open>simp add: handleProxyChunk_def\<close>)
qed (use assms in \<open>simp add: handleProxyChunk_def\<close>)

lemma handleProxyDone_maps:
  assumes "handleProxyDone g e c nc msg = (g', panic)" "pendingJobs g (msg_JobID msg) = Some job"
    "pj_NodeID job = nc_NodeID nc" "\<not> snd (close_chan g (pj_DoneCh job))"
  shows "pendingJobs g' = (pendingJobs g)(msg_JobID msg := None)"
    and "userJobs g' = userJobs (decrUserJobs g (pj_UserKey job))"
    and "chans g' = chans (fst (close_chan g (pj_DoneCh job)))"
    and "nodes g' = nodes g" "next_conn g' = next_conn g" "next_chan g' = next_chan g" "bill g' = bill g"
proof -
  have c: "close_chan (g\<lparr>pendingJobs := p\<rparr>) ch =
      ((fst (close_chan g ch))\<lparr>pendingJobs := p\<rparr>, snd (close_chan g ch))" for p ch
    by (simp add: close_chan_def split: option.split)
  have d: "userJobs (decrUserJobs (h\<lparr>pendingJobs := p\<rparr>) k) = userJobs (decrUserJobs h k)" for h p k
    by (simp add: decrUserJobs_def user_jobs_def Let_def)
  have d': "userJobs (decrUserJobs (fst (close_chan g ch)) k) = userJobs (decrUserJobs g k)" for ch k
    by (simp add: decrUserJobs_def user_jobs_def Let_def)
  note s = assms(1) [symmetric, unfolded handleProxyDone_def assms(2)]
  show "pendingJobs g' = (pendingJobs g)(msg_JobID msg := None)"
    "userJobs g' = userJobs (decrUserJobs g (pj_UserKey job))"
    "chans g' = chans (fst (close_chan g (pj_DoneCh job)))"
    "nodes g' = nodes g" "next_conn g' = next_conn g" "next_chan g' = next_chan g" "bill g' = bill g"
    using s assms(3,4) by (auto simp: split_beta Let_def c d d' split: if_splits)
qed

lemma handleProxyDone_slots:
  assumes "slots_held [] g"
    and "\<And>job. pendingJobs g (msg_JobID msg) = Some job \<Longrightarrow> \<not> snd (close_chan g (pj_DoneCh job))"
    and "handleProxyDone g e c nc msg = (g', p)"
  shows "slots_held [] g'"
proof (cases "pendingJobs g (msg_JobID msg)")
  case (Some job)
  show ?thesis
  proof (cases "pj_NodeID job = nc_NodeID nc")
    case True
    let ?h = "decrUserJobs (g\<lparr>pendingJobs := (pendingJobs g)(msg_JobID msg := None)\<rparr>) (pj_UserKey job)"
    have "slots_held [] ?h" by (rule slots_released, rule slots_removed [OF assms(1) Some]) simp_all
    moreover have "userJobs ?h = userJobs (decrUserJobs g (pj_UserKey job))"
      by (simp add: decrUserJobs_def user_jobs_def Let_def)
    ultimately show ?thesis
      using slots_held_cong [of g' ?h "[]"] handleProxyDone_maps(1,2) [OF assms(3) Some True assms(2) [OF Some]]
      by simp
  qed (use assms Some in \<open>simp add: handleProxyDone_def\<close>)
qed (use assms in \<open>simp add: handleProxyDone_def\<close>)

lemma owing_append [simp]: "owing (xs @ ys) k = owing xs k + owing ys k"
  by (simp add: owing_def)

lemma slots_held_perm: "(\<And>k. owing js k = owing js' k) \<Longrightarrow> slots_held js g = slots_held js' g"
  by (simp add: slots_held_def)

lemma remove_expired_ConsE:
  assumes "remove_expired g now (k # ks) = (g', js, False)" "pendingJobs g k = Some job" "expired_at now job"
  obtains g1 js' where "close_chan g (pj_DoneCh job) = (g1, False)" "js = job # js'"
    "remove_expired (g1\<lparr>pendingJobs := (pendingJobs g1)(k := None)\<rparr>) now ks = (g', js', False)"
proof -
  obtain g1 p where c: "close_chan g (pj_DoneCh job) = (g1, p)" by force
  obtain g2 js2 p2 where r: "remove_expired (g1\<lparr>pendingJobs := (pendingJobs g1)(k := None)\<rparr>) now ks = (g2, js2, p2)"
    by (metis prod.collapse)
  show thesis using that c r assms by (auto split: if_splits)
qed

lemma remove_expired_slots:
  "remove_expired g now ids = (g', js, False) \<Longrightarrow> slots_held os g \<Longrightarrow> slots_held (js @ os) g'"
proof (induction g now ids arbitrary: g' js os rule: remove_expired.induct)
  case (2 g now k ks)
  show ?case
  proof (cases "pendingJobs g k")
    case None
    then show ?thesis using 2 by simp
  next
    case (Some job)
    show ?thesis
    proof (cases "expired_at now job")
      case False
      then show ?thesis using 2 Some by simp
    next
      case True
      obtain g1 js' where c: "close_chan g (pj_DoneCh job) = (g1, False)" and js: "js = job # js'"
        and r: "remove_expired (g1\<lparr>pendingJobs := (pendingJobs g1)(k := None)\<rparr>) now ks = (g', js', False)"
        using remove_expired_ConsE [OF 2(4) Some True] .
      have f: "pendingJobs g1 = pendingJobs g" "userJobs g1 = userJobs g"
        using close_chan_frame(4,6) [of g "pj_DoneCh job"] by (simp_all add: c)
      have "slots_held (job # os) (g1\<lparr>pendingJobs := (pendingJobs g1)(k := None)\<rparr>)"
        by (rule slots_removed [OF 2(5) Some]) (simp_all add: f)
      then have "slots_held (js' @ job # os) g'"
        using 2(3) [OF Some _ refl c [symmetric] _ r] True by simp
      then show ?thesis using slots_held_perm [of "js' @ job # os" "js @ os" g'] js by simp
    qed
  qed
qed simp

lemma settle_expired_slots: "slots_held (job # js) g \<Longrightarrow> slots_held js (fst (settle_expired g e job))"
  using slots_released [of job js g] slots_held_cong by (metis settle_expired_frame(1,7) decrUserJobs_frame(4))

lemma settle_all_slots:
  "settle_all g e js = (g', False) \<Longrightarrow> slots_held js g \<Longrightarrow> slots_held [] g'"
proof (induction js arbitrary: g)
  case (Cons job js)
  then show ?case
    using settle_expired_slots [OF Cons.prems(2)] by (auto simp: split_beta split: if_splits)
qed simp

lemma cleanup_tick_slots:
  assumes "slots_held [] g" "cleanup_tick g e = (g', False)" shows "slots_held [] g'"
proof -
  obtain g1 js p where r: "remove_expired g (e_now e) (e_order e) = (g1, js, p)" by (metis prod.collapse)
  then have "p = False" "settle_all g1 e js = (g', False)"
    using assms(2) by (auto simp: cleanup_tick_def split: if_splits)
  then show ?thesis using remove_expired_slots [of g _ _ g1 js "[]"] settle_all_slots r assms(1) by auto
qed

lemma quiet_slots:
  "slots_held js (fst (HandleRegister g e r)) = slots_held js g"
  "slots_held js (fst (HandleWS_connect g e k)) = slots_held js g"
  "slots_held js (HandleWS_disconnect g c) = slots_held js g"
  "slots_held js (fst (handleHeartbeat g e c nc m)) = slots_held js g"
  "slots_held js (ping g c ok) = slots_held js g"
  "slots_held js (receive g ch) = slots_held js g"
  "slots_held js (ws_panicked g c) = slots_held js g"
  "slots_held js (update_conn g c f) = slots_held js g"
  by (rule slots_held_cong; simp add: HandleRegister_def HandleWS_connect_def HandleWS_disconnect_def
      handleHeartbeat_def ping_def ws_panicked_def Let_def split_beta split: option.split sum.split)+

section \<open>Channels\<close>

text \<open>
  Every pending job is filed under its own id, has an open done channel, and shares it with no other
  job; channel numbers not handed out yet are unused.
\<close>

definition own_done :: "(string \<rightharpoonup> PendingJob) \<Rightarrow> bool" where
  "own_done p \<longleftrightarrow> (\<forall>j job j' job'. p j = Some job \<and> p j' = Some job' \<and>
     pj_DoneCh job = pj_DoneCh job' \<longrightarrow> j = j')"

definition channels_open :: "Gateway \<Rightarrow> bool" where
  "channels_open g \<longleftrightarrow>
     (\<forall>j job. pendingJobs g j = Some job \<longrightarrow>
        pj_JobID job = j \<and> (\<exists>c. chans g (pj_DoneCh job) = Some c \<and> \<not> closed c)) \<and>
     own_done (pendingJobs g) \<and>
     (\<forall>ch. next_chan g \<le> ch \<longrightarrow> chans g ch = None)"

lemma channels_open_cong:
  "pendingJobs g' = pendingJobs g \<Longrightarrow> chans g' = chans g \<Longrightarrow> next_chan g' = next_chan g \<Longrightarrow>
   channels_open g' = channels_open g"
  by (simp add: channels_open_def)

lemma own_done_delete: "own_done p \<Longrightarrow> own_done (p(j := None))"
  by (auto simp: own_done_def split: if_splits)

lemma own_done_insert:
  "own_done p \<Longrightarrow> (\<And>j' job'. p j' = Some job' \<Longrightarrow> pj_DoneCh job' \<noteq> pj_DoneCh job) \<Longrightarrow> own_done (p(j \<mapsto> job))"
  by (force simp: own_done_def split: if_splits)

lemma own_done_update:
  "own_done p \<Longrightarrow> p j = Some job \<Longrightarrow> pj_DoneCh job' = pj_DoneCh job \<Longrightarrow> own_done (p(j \<mapsto> job'))"
  by (auto simp: own_done_def split: if_splits)

lemma channels_openD:
  "channels_open g \<Longrightarrow> pendingJobs g j = Some job \<Longrightarrow>
     pj_JobID job = j \<and> (\<exists>c. chans g (pj_DoneCh job) = Some c \<and> \<not> closed c)"
  by (simp add: channels_open_def)

lemma channels_open_removed:
  "channels_open g \<Longrightarrow> pendingJobs g' = (pendingJobs g)(j := None) \<Longrightarrow> chans g' = chans g \<Longrightarrow>
   next_chan g' = next_chan g \<Longrightarrow> channels_open g'"
  by (simp add: channels_open_def own_done_delete)

lemma close_pending:
  assumes "channels_open g" "pendingJobs g j = Some job"
  obtains c where "chans g (pj_DoneCh job) = Some c" "\<not> closed c"
    "close_chan g (pj_DoneCh job) = (g\<lparr>chans := (chans g)(pj_DoneCh job \<mapsto> c\<lparr>closed := True\<rparr>)\<rparr>, False)"
proof -
  obtain c where c: "chans g (pj_DoneCh job) = Some c" "\<not> closed c" using channels_openD [OF assms] by blast
  then show thesis using that by (simp add: close_chan_def)
qed

lemma close_pending_ok:
  "channels_open g \<Longrightarrow> pendingJobs g j = Some job \<Longrightarrow> \<not> snd (close_chan g (pj_DoneCh job))"
  by (metis close_pending snd_conv)

lemma channels_open_finished:
  assumes "channels_open g" "pendingJobs g j = Some job"
    "pendingJobs g' = (pendingJobs g)(j := None)" "next_chan g' = next_chan g"
    "chans g' = chans (fst (close_chan g (pj_DoneCh job)))"
  shows "channels_open g'"
proof -
  obtain c where c: "chans g (pj_DoneCh job) = Some c"
    "close_chan g (pj_DoneCh job) = (g\<lparr>chans := (chans g)(pj_DoneCh job \<mapsto> c\<lparr>closed := True\<rparr>)\<rparr>, False)"
    using close_pending [OF assms(1,2)] by metis
  have other: "pj_DoneCh job' \<noteq> pj_DoneCh job" if "pendingJobs g j' = Some job'" "j' \<noteq> j" for j' job'
    using assms(1,2) that unfolding channels_open_def own_done_def by blast
  have ch: "chans g' = (chans g)(pj_DoneCh job \<mapsto> c\<lparr>closed := True\<rparr>)" using assms(5) c(2) by simp
  have fresh: "chans g' x = None" if "next_chan g' \<le> x" for x
    using assms(1,4) that c(1) unfolding ch channels_open_def by auto
  have "pj_JobID job' = j' \<and> (\<exists>c. chans g' (pj_DoneCh job') = Some c \<and> \<not> closed c)"
    if "pendingJobs g' j' = Some job'" for j' job'
    using that other [of j' job'] assms(1,3) unfolding ch channels_open_def by (auto split: if_splits)
  moreover have "own_done (pendingJobs g')" using assms(1,3) by (simp add: channels_open_def own_done_delete)
  ultimately show ?thesis using fresh unfolding channels_open_def by blast
qed

lemma channels_open_buffer:
  assumes "channels_open g" "chans g ch = Some c" "chans g' = (chans g)(ch \<mapsto> c\<lparr>buffer := b\<rparr>)"
    "pendingJobs g' = pendingJobs g" "next_chan g' = next_chan g"
  shows "channels_open g'"
proof -
  have "pj_JobID job = j \<and> (\<exists>c. chans g' (pj_DoneCh job) = Some c \<and> \<not> closed c)"
    if "pendingJobs g j = Some job" for j job
    using channels_openD [OF assms(1) that] assms(2,3) by auto
  moreover have "own_done (pendingJobs g')" "\<forall>x. next_chan g' \<le> x \<longrightarrow> chans g' x = None"
    using assms by (auto simp: channels_open_def)
  ultimately show ?thesis using assms(4) by (simp add: channels_open_def)
qed

lemma try_send_open: "channels_open g \<Longrightarrow> channels_open (try_send g ch x)"
  by (cases "chans g ch") (auto simp: try_send_def intro: channels_open_buffer)

lemma receive_open: "channels_open g \<Longrightarrow> channels_open (receive g ch)"
  by (cases "chans g ch") (auto simp: receive_def intro: channels_open_buffer)

lemma AssignJob_open:
  assumes "channels_open g" "pendingJobs g j = None"
  shows "channels_open (fst (AssignJob g e n j m k b f))"
proof -
  obtain g1 ok where g1: "incrUserJobs g k = (g1, ok)" by force
  have fr: "pendingJobs g1 = pendingJobs g" "chans g1 = chans g" "next_chan g1 = next_chan g"
    using incrUserJobs_frame(4-6) [of g k] by (simp_all add: g1)
  have o1: "channels_open g1" using assms(1) channels_open_cong [of g1 g] fr by simp
  let ?n = "next_chan g"
  have fresh: "chans g x = None" if "?n \<le> x" for x using assms(1) that by (simp add: channels_open_def)
  have used: "pj_DoneCh job < ?n" if "pendingJobs g j' = Some job" for j' job
    using assms(1) that fresh [of "pj_DoneCh job"] unfolding channels_open_def by (metis not_le option.distinct(1))
  have new: "channels_open h"
    if "pendingJobs h = (pendingJobs g)(j \<mapsto> job)" "pj_JobID job = j" "pj_DoneCh job = Suc ?n"
      "next_chan h = Suc (Suc ?n)" "chans h = (chans g)(?n \<mapsto> a, Suc ?n \<mapsto> c)" "\<not> closed c" for h job a c
  proof -
    have "own_done (pendingJobs h)"
      unfolding that(1)
      by (rule own_done_insert) (use assms(1) used that(3) in \<open>auto simp: channels_open_def dest: used\<close>)
    moreover have "pj_JobID a = i \<and> (\<exists>c. chans h (pj_DoneCh a) = Some c \<and> \<not> closed c)"
      if "pendingJobs h i = Some a" for i a
      using that \<open>pendingJobs h = _\<close> \<open>pj_JobID job = j\<close> \<open>pj_DoneCh job = _\<close> \<open>chans h = _\<close> \<open>\<not> closed c\<close>
        channels_openD [OF assms(1), of i a] used [of i a] by (auto split: if_splits)
    ultimately show ?thesis using fresh that(4,5) by (simp add: channels_open_def)
  qed
  have old: "channels_open h"
    if "pendingJobs h = pendingJobs g" "next_chan h = Suc (Suc ?n)"
      "chans h = (chans g)(?n \<mapsto> a, Suc ?n \<mapsto> c)" for h a c
  proof -
    have "((chans g)(?n \<mapsto> a, Suc ?n \<mapsto> c)) (pj_DoneCh job) = chans g (pj_DoneCh job)"
      if "pendingJobs g j' = Some job" for j' job using used [OF that] by simp
    then show ?thesis using assms(1) that fresh unfolding channels_open_def by simp
  qed
  show ?thesis
  proof (cases "ok \<and> nodes g1 n \<noteq> None")
    case False
    then show ?thesis
      using o1 g1 channels_open_cong [of "decrUserJobs g1 k" g1] AssignJob_refused(1) [of g k] AssignJob_refused(2) [of g k g1 n] assms(1)
      by (cases ok) auto
  next
    case True
    then obtain c where c: "incrUserJobs g k = (g1, True)" "nodes g1 n = Some c" using g1 by auto
    obtain h sent where h: "AssignJob g e n j m k b f =
       (if \<not> sent then (decrUserJobs (h\<lparr>pendingJobs := (pendingJobs h)(j := None)\<rparr>) k, Inl ErrSend)
        else (h, Inr (?n, Suc ?n)))"
      "pendingJobs h = (pendingJobs g)(j \<mapsto> assigned_job g e n j m k b f)"
      "chans h = (chans g)(?n \<mapsto> \<lparr>buffer = [], capacity = 64, closed = False\<rparr>,
         Suc ?n \<mapsto> \<lparr>buffer = [], capacity = 0, closed = False\<rparr>)"
      "next_chan h = Suc (Suc ?n)"
      using AssignJob_sending [OF c] by metis
    have "channels_open h" by (rule new [OF h(2) _ _ h(4) h(3)]) simp_all
    moreover have "channels_open (decrUserJobs (h\<lparr>pendingJobs := (pendingJobs h)(j := None)\<rparr>) k)"
      using h assms(2) by (intro old [of _ "\<lparr>buffer = [], capacity = 64, closed = False\<rparr>"]) (simp_all add: fun_upd_idem)
    ultimately show ?thesis unfolding h(1) by simp
  qed
qed

lemma handleReject_open:
  assumes "channels_open g" shows "channels_open (fst (handleReject g nc msg))" "\<not> snd (handleReject g nc msg)"
proof -
  have "channels_open (fst (handleReject g nc msg)) \<and> \<not> snd (handleReject g nc msg)"
  proof (cases "pendingJobs g (msg_JobID msg)")
    case (Some job)
    have "\<not> snd (close_chan g (pj_DoneCh job))" by (rule close_pending_ok [OF assms Some])
    then show ?thesis
      by (auto simp: handleReject_def Some split_beta intro: channels_open_finished [OF assms Some])
  qed (use assms in \<open>simp add: handleReject_def\<close>)
  then show "channels_open (fst (handleReject g nc msg))" "\<not> snd (handleReject g nc msg)" by auto
qed

lemma handleProxyChunk_open:
  assumes "channels_open g" shows "channels_open (fst (handleProxyChunk g nc msg))"
proof (cases "pendingJobs g (msg_JobID msg)")
  case (Some job)
  let ?job = "job\<lparr>pj_LastChunk := last_chunk (msg_Data msg) (pj_LastChunk job)\<rparr>"
  have "channels_open (g\<lparr>pendingJobs := (pendingJobs g)(msg_JobID msg \<mapsto> ?job)\<rparr>)"
    using assms channels_openD [OF assms Some] own_done_update [of "pendingJobs g" _ job ?job] Some
    by (simp add: channels_open_def)
  then show ?thesis using assms by (simp add: handleProxyChunk_def Some Let_def try_send_open)
qed (use assms in \<open>simp add: handleProxyChunk_def\<close>)

lemma handleProxyDone_open:
  assumes "channels_open g" shows "channels_open (fst (handleProxyDone g e c nc msg))"
proof (cases "pendingJobs g (msg_JobID msg)")
  case (Some job)
  show ?thesis
  proof (cases "pj_NodeID job = nc_NodeID nc")
    case True
    note m = handleProxyDone_maps [OF prod.collapse [symmetric] Some True close_pending_ok [OF assms Some]]
    show ?thesis by (rule channels_open_finished [OF assms Some m(1,6,3)])
  qed (use assms Some in \<open>simp add: handleProxyDone_def\<close>)
qed (use assms in \<open>simp add: handleProxyDone_def\<close>)

lemma remove_expired_open:
  "remove_expired g now ids = (g', js, p) \<Longrightarrow> channels_open g \<Longrightarrow> channels_open g' \<and> \<not> p"
proof (induction g now ids arbitrary: g' js p rule: remove_expired.induct)
  case (2 g now k ks)
  show ?case
  proof (cases "\<exists>job. pendingJobs g k = Some job \<and> expired_at now job")
    case False
    then show ?thesis using 2 by (auto split: option.splits)
  next
    case True
    then obtain job where job: "pendingJobs g k = Some job" "expired_at now job" by blast
    obtain g1 where c: "close_chan g (pj_DoneCh job) = (g1, False)"
      using close_pending_ok [OF 2(5) job(1)] by (metis prod.collapse)
    let ?h = "g1\<lparr>pendingJobs := (pendingJobs g1)(k := None)\<rparr>"
    have f: "pendingJobs g1 = pendingJobs g" "next_chan g1 = next_chan g"
      using close_chan_frame(4,5) [of g "pj_DoneCh job"] by (simp_all add: c)
    have h: "channels_open ?h"
      by (rule channels_open_finished [OF 2(5) job(1)]) (simp_all add: f c)
    obtain g2 js2 p2 where r: "remove_expired ?h now ks = (g2, js2, p2)" by (metis prod.collapse)
    have "channels_open g2 \<and> \<not> p2" using 2(3) [OF job(1) _ refl c [symmetric] _ r h] job(2) by simp
    then show ?thesis using 2(4) job c r by simp
  qed
qed simp

lemma settle_all_open: "channels_open g \<Longrightarrow> channels_open (fst (settle_all g e js))"
proof (induction js arbitrary: g)
  case (Cons job js)
  have "channels_open (fst (settle_expired g e job))"
    using Cons.prems channels_open_cong [of "fst (settle_expired g e job)" g] by simp
  then show ?case using Cons.IH by (simp add: split_beta)
qed simp

lemma cleanup_tick_open: "channels_open g \<Longrightarrow> channels_open (fst (cleanup_tick g e))"
  using remove_expired_open [of g "e_now e" "e_order e"] settle_all_open
  by (simp add: cleanup_tick_def split_beta) (metis prod.collapse)

lemma quiet_open:
  "channels_open (fst (HandleRegister g e r)) = channels_open g"
  "channels_open (fst (HandleWS_connect g e k)) = channels_open g"
  "channels_open (HandleWS_disconnect g c) = channels_open g"
  "channels_open (fst (handleHeartbeat g e c nc m)) = channels_open g"
  "channels_open (ping g c ok) = channels_open g"
  "channels_open (ws_panicked g c) = channels_open g"
  by (rule channels_open_cong; simp add: HandleRegister_def HandleWS_connect_def HandleWS_disconnect_def
      handleHeartbeat_def ping_def ws_panicked_def Let_def split_beta split: option.split sum.split)+

section \<open>Every reachable state\<close>

definition gw_inv :: "Gateway \<Rightarrow> bool" where
  "gw_inv g \<longleftrightarrow> slots_held [] g \<and> channels_open g"

lemma handle_msg_cases:
  "conns g c = Some nc \<Longrightarrow>
   handle_msg g e c msg \<in> {handleHeartbeat g e c nc msg, (g, False), handleReject g nc msg,
      handleProxyChunk g nc msg, handleProxyDone g e c nc msg}"
  by (simp add: handle_msg_def handleAccept_def)

lemma handle_msg_inv:
  assumes "gw_inv g" "handle_msg g e c msg = (g', p)"
  shows "gw_inv g'"
proof (cases "conns g c")
  case (Some nc)
  have inv: "slots_held [] g" "channels_open g" using assms(1) by (simp_all add: gw_inv_def)
  have g': "g' = fst (handle_msg g e c msg)" using assms(2) by simp
  consider "handle_msg g e c msg = handleHeartbeat g e c nc msg" | "handle_msg g e c msg = (g, False)"
    | "handle_msg g e c msg = handleReject g nc msg" | "handle_msg g e c msg = handleProxyChunk g nc msg"
    | "handle_msg g e c msg = handleProxyDone g e c nc msg"
    using handle_msg_cases [OF Some] by blast
  then show ?thesis
  proof cases
    case 1
    then show ?thesis
      using inv g' quiet_slots(4) [of "[]" g e c nc msg] quiet_open(4) [of g e c nc msg]
      by (simp add: gw_inv_def)
  next
    case 3
    then show ?thesis
      using g' handleReject_open [OF inv(2), of nc msg] handleReject_slots [OF inv(1), of nc msg g']
      by (simp add: gw_inv_def prod_eq_iff)
  next
    case 4
    then show ?thesis
      using g' handleProxyChunk_slots [OF inv(1), of nc msg] handleProxyChunk_open [OF inv(2), of nc msg]
      by (simp add: gw_inv_def)
  next
    case 5
    then show ?thesis
      using g' handleProxyDone_slots [OF inv(1) close_pending_ok [OF inv(2)] prod.collapse [symmetric]]
        handleProxyDone_open [OF inv(2), of e c nc msg] by (simp add: gw_inv_def)
  qed (use inv assms in auto)
qed (use assms in \<open>auto simp: handle_msg_def gw_inv_def\<close>)

lemma gw_exec_inv:
  assumes "gw_inv g" "ev_ok g ev" "gw_exec g ev = (g', False)" shows "gw_inv g'"
proof -
  have inv: "slots_held [] g" "channels_open g" using assms(1) by (simp_all add: gw_inv_def)
  show ?thesis
  proof (cases ev)
    case (EvMessage e c m)
    obtain h p where h: "handle_msg g e c m = (h, p)" by force
    have "gw_inv h" by (rule handle_msg_inv [OF assms(1) h])
    then show ?thesis
      using assms(3) EvMessage h quiet_slots(7) [of "[]" h c] quiet_open(6) [of h c]
      by (cases p) (simp_all add: gw_inv_def)
  next
    case (EvAssign e n j m k b f)
    then show ?thesis using assms(2,3) AssignJob_slots [OF inv(1)] AssignJob_open [OF inv(2)] by (auto simp: gw_inv_def)
  next
    case (EvCleanup e)
    then show ?thesis
      using assms(3) cleanup_tick_slots [OF inv(1)] cleanup_tick_open [OF inv(2), of e] by (simp add: gw_inv_def)
  next
    case (EvReceive ch)
    then show ?thesis using assms(3) inv quiet_slots(6) [of "[]" g ch] receive_open [OF inv(2), of ch]
      by (simp add: gw_inv_def)
  next
    case (EvFetchPrice resp)
    then have "g' = g\<lparr>bill := (bill g)\<lparr>prices := fetch resp (prices (bill g))\<rparr>\<rparr>" using assms(3) by simp
    then show ?thesis
      using inv slots_held_cong [of g' g "[]"] channels_open_cong [of g' g] by (simp add: gw_inv_def)
  next
    case (EvDatabase op)
    then have "g' = g\<lparr>db := db_step (db g) op\<rparr>" using assms(3) by simp
    then show ?thesis
      using inv slots_held_cong [of g' g "[]"] channels_open_cong [of g' g] by (simp add: gw_inv_def)
  qed (use assms(3) inv in \<open>auto simp: gw_inv_def quiet_slots quiet_open\<close>)
qed

lemma New_gateway_inv: "gw_inv (New_gateway d b)"
  by (simp add: gw_inv_def slots_held_def slots_def channels_open_def own_done_def New_gateway_def user_jobs_def)

lemma reachable_inv: "reachable d b g \<Longrightarrow> gw_inv g"
proof (induction rule: reachable.induct)
  case start
  show ?case by (rule New_gateway_inv)
next
  case (step g ev g')
  then show ?case using gw_exec_inv by (auto elim: gw_stepE)
qed

section \<open>An example run\<close>

text \<open>One node, registered before, connects and is given a job.\<close>

definition example_node :: Node where
  "example_node = \<lparr>n_node_id = ''node-0001'', n_api_key = ''key'', n_gpu = ''gpu'', n_gpu_vendor = ''v'',
     n_vram_total_mb = 8, n_models = '''', n_region = ''eu'', n_lightning_addr = ''a@b.cd'',
     n_redeem_threshold = 100, n_free_tier_pct = 0, n_version = ''1'', n_last_seen = 0\<rparr>"

definition example_db :: DB where
  "example_db = empty_db\<lparr>tbl_nodes := [example_node]\<rparr>"

definition example_env :: env where
  "example_env = \<lparr>e_now = 0, e_db = (\<lambda>_. no_faults), e_send = True, e_order = [''j1'']\<rparr>"

definition example_start :: Gateway where
  "example_start = New_gateway example_db (New (Fin 5) None)"

definition example_connected :: Gateway where
  "example_connected = fst (HandleWS_connect example_start example_env ''key'')"

definition example_busy :: Gateway where
  "example_busy = fst (AssignJob example_connected example_env ''node-0001'' ''j1'' ''m'' ''user-1'' ''body'' False)"

lemma example_lookup:
  "NodeByAPIKey no_faults example_db ''key'' = Inr (example_node\<lparr>n_last_seen := zero_time\<rparr>)"
  by (simp add: NodeByAPIKey_def example_db_def example_node_def no_faults_def)

lemma example_connected_eq:
  "example_connected = example_start\<lparr>conns := [0 \<mapsto> new_conn (example_node\<lparr>n_last_seen := zero_time\<rparr>)],
     next_conn := 1, nodes := [''node-0001'' \<mapsto> 0]\<rparr>"
  using example_lookup
  by (simp add: example_connected_def HandleWS_connect_def example_start_def New_gateway_def
      example_env_def example_node_def Let_def)

lemma example_new_conn:
  "nc_NodeID (new_conn (example_node\<lparr>n_last_seen := t\<rparr>)) = ''node-0001''"
  "\<not> nc_cancelled (new_conn (example_node\<lparr>n_last_seen := t\<rparr>))"
  by (simp_all add: new_conn_def example_node_def)

definition example_job :: PendingJob where
  "example_job = \<lparr>pj_JobID = ''j1'', pj_NodeID = ''node-0001'', pj_UserKey = ''user-1'', pj_Model = ''m'',
     pj_BuyerBody = ''body'', pj_ResponseCh = 0, pj_DoneCh = 1, pj_FreeTier = False, pj_StartedAt = 0,
     pj_LastChunk = ''''\<rparr>"

lemma example_busy_state:
  "pendingJobs example_busy = [''j1'' \<mapsto> example_job]" "nodes example_busy = [''node-0001'' \<mapsto> 0]"
  "user_jobs example_busy ''user-1'' = 1"
  by (simp_all add: example_busy_def example_connected_eq AssignJob_def incrUserJobs_def user_jobs_def
      maxConcurrentPerUser_def make_chan_def Send_def example_new_conn example_start_def New_gateway_def
      example_env_def example_job_def update_conn_def split_beta)

lemma example_reachable: "reachable example_db (New (Fin 5) None) example_busy"
proof -
  have c: "gw_step example_start (EvConnect example_env ''key'') example_connected"
    by (rule gw_step.step) (simp_all add: example_connected_def)
  have b: "gw_step example_connected
      (EvAssign example_env ''node-0001'' ''j1'' ''m'' ''user-1'' ''body'' False) example_busy"
    by (rule gw_step.step) (simp_all add: example_busy_def example_connected_eq example_start_def New_gateway_def)
  show ?thesis
    using reachable.step [OF reachable.step [OF reachable.start c [unfolded example_start_def]] b] .
qed

section \<open>Properties of the gateway's state\<close>

text \<open>
  C20: in every reachable state no step closes a channel that is closed already: a rejection, the end of a
  stream and the clean-up close the done channel of a pending job, which is open and belongs to no
  other pending job.
\<close>

theorem no_double_close:
  assumes "reachable d b g" "pendingJobs g j = Some job"
  shows "pj_JobID job = j \<and> \<not> snd (close_chan g (pj_DoneCh job)) \<and>
    \<not> snd (handleReject g nc (zero_msg\<lparr>msg_JobID := j\<rparr>)) \<and>
    \<not> snd (snd (remove_expired g now ids)) \<and>
    (\<forall>j' job'. pendingJobs g j' = Some job' \<and> pj_DoneCh job' = pj_DoneCh job \<longrightarrow> j' = j)"
proof -
  have o: "channels_open g" using reachable_inv [OF assms(1)] by (simp add: gw_inv_def)
  moreover have "\<not> snd (snd (remove_expired g now ids))"
    using remove_expired_open [OF _ o] by (metis prod.collapse)
  moreover have "\<forall>j' job'. pendingJobs g j' = Some job' \<and> pj_DoneCh job' = pj_DoneCh job \<longrightarrow> j' = j"
    using o assms(2) unfolding channels_open_def own_done_def by blast
  ultimately show ?thesis
    using channels_openD [OF o assms(2)] close_pending_ok [OF o assms(2)] handleReject_open(2) [OF o] by blast
qed

theorem no_double_close_witness:
  "\<not> snd (close_chan example_busy 1) \<and> \<not> snd (handleReject example_busy (new_conn example_node) (zero_msg\<lparr>msg_JobID := ''j1''\<rparr>))"
  using no_double_close [OF example_reachable, of "''j1''" example_job "new_conn example_node" 0 "[]"] example_busy_state(1)
  by (simp add: example_job_def)

end
