(* ===== verification/Nodes.thy ===== *)
theory Nodes
  imports Slots
begin

text \<open>
  The node map of the gateway: in every reachable state a node id leads to the latest connection of that
  node. So the snapshots the router takes are of connected nodes under their own ids, which is what the
  router's interface \<open>node_source\<close> asks for; a request is routed to a connected node that serves the
  model.
\<close>

section \<open>The node map points to connections of the nodes\<close>

definition conns_ok :: "Gateway \<Rightarrow> bool" where
  "conns_ok g \<longleftrightarrow> (\<forall>c. next_conn g \<le> c \<longrightarrow> conns g c = None) \<and>
     (\<forall>n c. nodes g n = Some c \<longrightarrow> (\<exists>nc. conns g c = Some nc \<and> nc_NodeID nc = n))"

text \<open>A change of connections that leaves their identities alone.\<close>

definition same_nodes :: "Gateway \<Rightarrow> Gateway \<Rightarrow> bool" where
  "same_nodes g g' \<longleftrightarrow> nodes g' = nodes g \<and> next_conn g' = next_conn g \<and>
     (\<forall>c. map_option nc_NodeID (conns g' c) = map_option nc_NodeID (conns g c))"

lemma same_nodes_ok:
  assumes "same_nodes g g'" "conns_ok g"
  shows "conns_ok g'"
proof -
  have c: "conns g' c = None \<longleftrightarrow> conns g c = None" "conns g c = Some nc \<Longrightarrow> \<exists>nc'. conns g' c = Some nc' \<and> nc_NodeID nc' = nc_NodeID nc"
    for c nc
    using assms(1) by (auto simp: same_nodes_def dest: spec [of _ c])
  have "\<exists>nc'. conns g' c = Some nc' \<and> nc_NodeID nc' = n" if "nodes g n = Some c" for n c
    using assms(2) that c(2) unfolding conns_ok_def by metis
  then show ?thesis using assms c(1) by (auto simp: conns_ok_def same_nodes_def)
qed

lemma same_nodes_refl [simp]: "nodes g' = nodes g \<Longrightarrow> next_conn g' = next_conn g \<Longrightarrow> conns g' = conns g \<Longrightarrow> same_nodes g g'"
  by (simp add: same_nodes_def)

lemma same_nodes_trans: "same_nodes g g1 \<Longrightarrow> same_nodes g1 g2 \<Longrightarrow> same_nodes g g2"
  by (simp add: same_nodes_def)

lemma same_nodes_update [simp]: "(\<And>nc. nc_NodeID (f nc) = nc_NodeID nc) \<Longrightarrow> same_nodes g (update_conn g c f)"
  by (simp add: same_nodes_def update_conn_def option.map_comp o_def)

lemma same_nodes_Send [simp]: "same_nodes g (fst (Send g c m ok))"
  by (auto simp: Send_def split: option.split)

lemma same_nodes_AssignJob: "same_nodes g (fst (AssignJob g e n j m k b f))"
proof (cases "snd (incrUserJobs g k)")
  case True
  then obtain g1 where g1: "incrUserJobs g k = (g1, True)" by (metis prod.collapse)
  have s1: "same_nodes g g1" using incrUserJobs_frame(1-3) [of g k] by (simp add: g1)
  show ?thesis
  proof (cases "nodes g1 n")
    case None
    then show ?thesis using AssignJob_refused(2) [OF g1 None] s1 by (simp add: same_nodes_def)
  next
    case (Some c)
    let ?s = "fst (Send g1 c (zero_msg\<lparr>msg_Type := ''job'', msg_JobID := j, msg_Model := m\<rparr>) (e_send e))"
    obtain h ok where h: "AssignJob g e n j m k b f =
         (if \<not> ok then (decrUserJobs (h\<lparr>pendingJobs := (pendingJobs h)(j := None)\<rparr>) k, Inl ErrSend)
          else (h, Inr (next_chan g, Suc (next_chan g))))" "nodes h = nodes g" "next_conn h = next_conn g" "conns h = conns ?s"
      by (rule AssignJob_sending [OF g1 Some, of e j m b f]) assumption
    have "same_nodes g1 ?s" by simp
    then show ?thesis using h s1 by (simp add: same_nodes_def)
  qed
qed (simp add: AssignJob_refused(1))

lemma same_nodes_handleProxyDone: "same_nodes g (fst (handleProxyDone g e c nc msg))"
  by (auto simp: handleProxyDone_def Let_def split_beta split: option.split
      intro!: same_nodes_trans [OF _ same_nodes_Send])

lemma same_nodes_handle_msg: "same_nodes g (fst (handle_msg g e c msg))"
proof (cases "conns g c")
  case (Some nc)
  have "same_nodes g (fst (handleReject g nc msg))" "same_nodes g (fst (handleProxyChunk g nc msg))"
    by (simp_all add: handleReject_def handleProxyChunk_def Let_def split_beta split: option.split)
  moreover have "same_nodes g (fst (handleHeartbeat g e c nc msg))"
    by (auto simp: handleHeartbeat_def Let_def intro!: same_nodes_trans [OF _ same_nodes_Send])
  ultimately show ?thesis
    using handle_msg_cases [OF Some, of e msg] same_nodes_handleProxyDone [of g e c nc msg] by auto
qed (simp add: handle_msg_def)

lemma same_nodes_cleanup: "same_nodes g (fst (cleanup_tick g e))"
proof -
  have r: "same_nodes g (fst (remove_expired g now ids))" for now ids
  proof (induction g now ids rule: remove_expired.induct)
    case (2 g now k ks)
    then show ?case by (auto simp: same_nodes_def split_beta Let_def prod_eq_iff split: option.split)
  qed simp
  have s: "same_nodes g (fst (settle_all g e js))" for g js
  proof (induction js arbitrary: g)
    case (Cons job js)
    have "same_nodes g (fst (settle_expired g e job))" by simp
    then show ?case using same_nodes_trans [OF _ Cons.IH [of "fst (settle_expired g e job)"], of g] by (simp add: split_beta)
  qed simp
  show ?thesis
    using r [of "e_now e" "e_order e"] s by (auto simp: cleanup_tick_def split_beta intro: same_nodes_trans)
qed

lemma connect_ok: assumes "conns_ok g" shows "conns_ok (fst (HandleWS_connect g e k))"
proof -
  have fresh: "c \<noteq> next_conn g" if "nodes g n = Some c" for n c
    using assms that unfolding conns_ok_def by force
  have new: "conns_ok (g\<lparr>conns := (conns g)(next_conn g \<mapsto> new_conn node), next_conn := Suc (next_conn g),
      nodes := (nodes g)(n_node_id node \<mapsto> next_conn g)\<rparr>)" for node
    using assms fresh unfolding conns_ok_def by (auto simp: new_conn_def split: if_splits)
  show ?thesis
    using assms new by (auto simp: HandleWS_connect_def Let_def split: sum.split option.split
      intro!: same_nodes_ok [OF same_nodes_update])
qed

lemma disconnect_ok: "conns_ok g \<Longrightarrow> conns_ok (HandleWS_disconnect g c)"
  by (auto simp: HandleWS_disconnect_def Let_def split: option.split intro!: same_nodes_ok [OF same_nodes_update])
     (auto simp: conns_ok_def)

lemma gw_exec_conns: assumes "conns_ok g" shows "conns_ok (fst (gw_exec g ev))"
proof (cases ev)
  case (EvRegister e r)
  then show ?thesis
    by (intro same_nodes_ok [OF _ assms])
       (simp add: HandleRegister_def Let_def split_beta split: option.split)
next
  case (EvMessage e c m)
  have "same_nodes g (ws_panicked (fst (handle_msg g e c m)) c)"
    by (rule same_nodes_trans [OF same_nodes_handle_msg [of g e c m]]) (simp add: ws_panicked_def)
  then show ?thesis
    using same_nodes_ok [OF _ assms] same_nodes_handle_msg [of g e c m] by (simp add: EvMessage split_beta)
next
  case (EvPing c ok)
  then show ?thesis using same_nodes_ok [OF _ assms] by (simp add: ping_def)
qed (use assms connect_ok disconnect_ok same_nodes_ok [OF same_nodes_AssignJob] same_nodes_ok [OF same_nodes_cleanup]
      same_nodes_ok [OF same_nodes_refl] in auto)

lemma reachable_conns: "reachable d b g \<Longrightarrow> conns_ok g"
proof (induction rule: reachable.induct)
  case start
  then show ?case by (simp add: conns_ok_def New_gateway_def)
next
  case (step g ev g')
  then show ?case using gw_exec_conns [of g ev] by (auto elim!: gw_stepE)
qed

section \<open>The gateway is a source of nodes\<close>

definition live :: "Gateway \<Rightarrow> string \<rightharpoonup> NodeInfo" where
  "live g n = (case nodes g n of None \<Rightarrow> None | Some c \<Rightarrow> map_option node_info (conns g c))"

lemma live_Some:
  "conns_ok g \<Longrightarrow> live g n = Some i \<longleftrightarrow> (\<exists>c nc. nodes g n = Some c \<and> conns g c = Some nc \<and> i = node_info nc)"
  by (auto simp: live_def split: option.split)

interpretation gateway_nodes: node_source
  "\<lambda>s. conns_ok (fst s) \<and> enumerates (snd s) (nodes (fst s))" "\<lambda>s. LiveNodeInfos (fst s) (snd s)" "\<lambda>s. live (fst s)"
proof unfold_locales
  fix s :: "Gateway \<times> string list" and n i
  assume v: "conns_ok (fst s) \<and> enumerates (snd s) (nodes (fst s))"
  have "set (List.map_filter (conns (fst s)) (range_map (snd s) (nodes (fst s)))) =
      {nc. \<exists>c\<in>ran (nodes (fst s)). conns (fst s) c = Some nc}"
    using v by (force simp: List.map_filter_def set_range_map_enum)
  then show "set (LiveNodeInfos (fst s) (snd s)) = ran (live (fst s))"
    using v by (force simp: LiveNodeInfos_def ran_def live_Some)
  show "live (fst s) n = Some i \<Longrightarrow> NodeID i = n"
    using v by (fastforce simp: live_Some conns_ok_def node_info_def)
qed

end
