(* ===== verification/Chat.thy ===== *)
theory Chat
  imports Api Nodes
begin

text \<open>
  A chat request from end to end: \<open>HandleChatCompletions\<close> of the API, the router and \<open>AssignJob\<close> of the
  gateway together.
\<close>

section \<open>The parts\<close>

lemma assigned_job_more [simp]:
  "pj_Model (assigned_job g e n j m k b f) = m" "pj_BuyerBody (assigned_job g e n j m k b f) = b"
  "pj_FreeTier (assigned_job g e n j m k b f) = f"
  by (simp_all add: assigned_job_def)

lemma AssignJob_assigned:
  assumes "AssignJob g e n j m k b f = (g', Inr (rc, dc))"
  shows "pendingJobs g' = (pendingJobs g)(j \<mapsto> assigned_job g e n j m k b f) \<and> rc = next_chan g \<and> dc = Suc (next_chan g) \<and>
    user_jobs g k < maxConcurrentPerUser"
proof (cases "snd (incrUserJobs g k)")
  case True
  then obtain g1 where g1: "incrUserJobs g k = (g1, True)" by (metis prod.collapse)
  then have limit: "user_jobs g k < maxConcurrentPerUser" by (auto simp: incrUserJobs_def split: if_splits)
  show ?thesis
  proof (cases "nodes g1 n")
    case None
    then show ?thesis using AssignJob_refused(2) [OF g1 None] assms by simp
  next
    case (Some c)
    obtain h ok where "AssignJob g e n j m k b f =
         (if \<not> ok then (decrUserJobs (h\<lparr>pendingJobs := (pendingJobs h)(j := None)\<rparr>) k, Inl ErrSend)
          else (h, Inr (next_chan g, Suc (next_chan g))))"
      "pendingJobs h = (pendingJobs g)(j \<mapsto> assigned_job g e n j m k b f)"
      by (rule AssignJob_sending [OF g1 Some, of e j m b f]) assumption
    then show ?thesis using assms limit by (auto split: if_splits)
  qed
qed (use assms AssignJob_refused(1) in simp)

lemma HandleChat_streaming:
  assumes "HandleChatCompletions a g e ge r = (g', Streaming rc dc)"
  obtains key u remaining req adm n where "q_Method r = ''POST''" "bearer r = Some key"
    "ValidateUserKey (ae_db e ApiValidate) (db g) key (ae_now e) = Inr (u, remaining)"
    "adm = admit remaining (or_zero (UserBalance (ae_db e ApiBalance) (db g) key)) (q_XPlayground r = ''true'')"
    "adm \<in> {FreeTier, Paid}" "unmarshal dec_chat (q_Body r) \<lparr>cr_model = '''', cr_stream = None\<rparr> = (req, False)"
    "cr_model req \<noteq> ''''" "rt_wired a" "assign_wired a"
    "RouteRequest (SetSource New_router (LiveNodeInfos g (e_order ge))) (cr_model req) = Inr n"
    "AssignJob g ge n (ae_uuid e) (cr_model req) key (q_Body r) (adm = FreeTier) = (g', Inr (rc, dc))"
proof -
  have [simp]: "RouteRequest New_router m \<noteq> Inr n" for m n by (simp add: RouteRequest_def New_router_def)
  show ?thesis
    using assms that
    by (auto simp: HandleChatCompletions_def route_chat_def Let_def split: option.splits sum.splits prod.splits if_splits
      admission.splits)
qed

lemma admitted:
  "admit remaining balance playground = FreeTier \<Longrightarrow> playground \<and> 0 < remaining"
  "admit remaining balance playground = Paid \<Longrightarrow> 0 < balance"
  by (auto simp: admit_def split: if_splits)

section \<open>The property\<close>

text \<open>
  C9: a request that is served comes from a valid key, is free only for the playground within the daily
  quota and otherwise backed by a positive balance, and becomes a job of that user on a connected node
  that serves the model, the least busy of those that do.
\<close>

theorem chat_paid_and_routed:
  assumes "reachable d b g" "enumerates (e_order ge) (nodes g)"
    and "HandleChatCompletions a g e ge r = (g', Streaming rc dc)"
  shows "\<exists>key u remaining job c nc. bearer r = Some key \<and>
    ValidateUserKey (ae_db e ApiValidate) (db g) key (ae_now e) = Inr (u, remaining) \<and>
    pendingJobs g' = (pendingJobs g)(ae_uuid e \<mapsto> job) \<and> pj_UserKey job = key \<and> pj_BuyerBody job = q_Body r \<and>
    pj_ResponseCh job = rc \<and> pj_DoneCh job = dc \<and> user_jobs g key < maxConcurrentPerUser \<and>
    (if pj_FreeTier job then q_XPlayground r = ''true'' \<and> 0 < remaining
     else 0 < or_zero (UserBalance (ae_db e ApiBalance) (db g) key)) \<and>
    nodes g (pj_NodeID job) = Some c \<and> conns g c = Some nc \<and> pj_Model job \<in> set (nc_Models nc) \<and>
    (\<forall>n' c' nc'. nodes g n' = Some c' \<and> conns g c' = Some nc' \<and> pj_Model job \<in> set (nc_Models nc') \<longrightarrow>
       nc_QueueDepth nc \<le> nc_QueueDepth nc')"
proof -
  have ok: "conns_ok g" by (rule reachable_conns [OF assms(1)])
  show ?thesis
    using assms(3)
  proof (rule HandleChat_streaming)
    fix key u remaining req adm n
    assume key: "bearer r = Some key" "ValidateUserKey (ae_db e ApiValidate) (db g) key (ae_now e) = Inr (u, remaining)"
      and adm: "adm = admit remaining (or_zero (UserBalance (ae_db e ApiBalance) (db g) key)) (q_XPlayground r = ''true'')"
        "adm \<in> {FreeTier, Paid}"
      and route: "RouteRequest (SetSource New_router (LiveNodeInfos g (e_order ge))) (cr_model req) = Inr n"
      and job: "AssignJob g ge n (ae_uuid e) (cr_model req) key (q_Body r) (adm = FreeTier) = (g', Inr (rc, dc))"
    let ?job = "assigned_job g ge n (ae_uuid e) (cr_model req) key (q_Body r) (adm = FreeTier)"
    obtain i where i: "live g n = Some i" "cr_model req \<in> set (Models i)"
        "\<And>n' i'. live g n' = Some i' \<Longrightarrow> cr_model req \<in> set (Models i') \<Longrightarrow> QueueDepth i \<le> QueueDepth i'"
      using gateway_nodes.routed [of "(g, e_order ge)" New_router "cr_model req" n] ok assms(2) route by auto
    obtain c nc where c: "nodes g n = Some c" "conns g c = Some nc" "i = node_info nc"
      using i(1) by (auto simp: live_Some [OF ok])
    have least: "nc_QueueDepth nc \<le> nc_QueueDepth nc'"
      if "nodes g n' = Some c'" "conns g c' = Some nc'" "cr_model req \<in> set (nc_Models nc')" for n' c' nc'
      using i(3) [of n' "node_info nc'"] that c(3) by (simp add: live_Some [OF ok] node_info_def)
    show ?thesis
      by (rule exI [of _ key], rule exI [of _ u], rule exI [of _ remaining], rule exI [of _ ?job], rule exI [of _ c],
          rule exI [of _ nc])
         (use key AssignJob_assigned [OF job] adm admitted c i(2) least in \<open>auto simp: node_info_def\<close>)
  qed
qed

text \<open>A playground request to a node that offers one model.\<close>

definition chat_node :: Node where
  \<open>chat_node = example_node\<lparr>n_models := ''["m"]''\<rparr>\<close>

definition chat_db :: DB where
  "chat_db = empty_db\<lparr>tbl_nodes := [chat_node], tbl_api_keys :=
     [\<lparr>k_key = ''rc_user'', k_user_id = ''u'', k_name = ''n'', k_quota_daily = 10, k_balance_msats = 0\<rparr>]\<rparr>"

definition chat_gateway :: Gateway where
  "chat_gateway = fst (HandleWS_connect (New_gateway chat_db (New (Fin 5) None)) example_env ''key'')"

definition chat_api :: API where
  "chat_api = \<lparr>regLimit = Map.empty, rt_wired = True, assign_wired = True, counter_wired = True,
     build = \<lparr>bi_Version = ''0.2.0'', bi_Commit = ''dev''\<rparr>\<rparr>"

definition chat_env :: api_env where
  "chat_env = \<lparr>ae_now = 0, ae_stamp = 0, ae_random = Some ''r'', ae_uuid = ''j1'', ae_db = (\<lambda>_. no_faults)\<rparr>"

definition chat_request :: api_request where
  \<open>chat_request = \<lparr>q_Method = ''POST'', q_RemoteAddr = ''a'', q_XRealIp = '''', q_Authorization = ''Bearer rc_user'',
     q_XPlayground = ''true'', q_Body = ''{"model":"m"}'', q_BodyErr = False\<rparr>\<close>

lemma chat_gateway_eq:
  "chat_gateway = (New_gateway chat_db (New (Fin 5) None))\<lparr>conns := [0 \<mapsto> new_conn (chat_node\<lparr>n_last_seen := zero_time\<rparr>)],
     next_conn := 1, nodes := [''node-0001'' \<mapsto> 0]\<rparr>"
  by (simp add: chat_gateway_def HandleWS_connect_def New_gateway_def example_env_def NodeByAPIKey_def chat_db_def
      chat_node_def example_node_def no_faults_def Let_def)

lemma chat_conn:
  "nc_NodeID (new_conn (chat_node\<lparr>n_last_seen := zero_time\<rparr>)) = ''node-0001''"
  "nc_Models (new_conn (chat_node\<lparr>n_last_seen := zero_time\<rparr>)) = [''m'']"
  "\<not> nc_cancelled (new_conn (chat_node\<lparr>n_last_seen := zero_time\<rparr>))"
  "nc_QueueDepth (new_conn (chat_node\<lparr>n_last_seen := zero_time\<rparr>)) = 0"
proof -
  have \<open>fst (unmarshal dec_strings ''["m"]'' None) = Some [''m'']\<close> by code_simp
  then show "nc_NodeID (new_conn (chat_node\<lparr>n_last_seen := zero_time\<rparr>)) = ''node-0001''"
    "nc_Models (new_conn (chat_node\<lparr>n_last_seen := zero_time\<rparr>)) = [''m'']"
    "\<not> nc_cancelled (new_conn (chat_node\<lparr>n_last_seen := zero_time\<rparr>))"
    "nc_QueueDepth (new_conn (chat_node\<lparr>n_last_seen := zero_time\<rparr>)) = 0"
    by (simp_all add: new_conn_def chat_node_def example_node_def)
qed

lemma chat_reachable: "reachable chat_db (New (Fin 5) None) chat_gateway"
proof -
  have "gw_step (New_gateway chat_db (New (Fin 5) None)) (EvConnect example_env ''key'') chat_gateway"
    by (rule gw_step.step) (simp_all add: chat_gateway_def)
  then show ?thesis by (rule reachable.step [OF reachable.start])
qed

lemma chat_served:
  "\<exists>g'. HandleChatCompletions chat_api chat_gateway chat_env (example_env\<lparr>e_order := [''node-0001'']\<rparr>) chat_request =
     (g', Streaming 0 1)"
proof -
  have d: \<open>unmarshal dec_chat ''{"model":"m"}'' \<lparr>cr_model = '''', cr_stream = None\<rparr> = (\<lparr>cr_model = ''m'', cr_stream = None\<rparr>, False)\<close>
    by code_simp
  have v: "ValidateUserKey no_faults chat_db ''rc_user'' 0 = Inr (''u'', 10)"
    by (simp add: ValidateUserKey_def chat_db_def no_faults_def empty_db_def in_int64_def)
  have l: "LiveNodeInfos chat_gateway [''node-0001''] = [node_info (new_conn (chat_node\<lparr>n_last_seen := zero_time\<rparr>))]"
    by (simp add: LiveNodeInfos_def chat_gateway_eq List.map_filter_simps)
  have route: "RouteRequest (SetSource New_router (LiveNodeInfos chat_gateway [''node-0001''])) ''m'' = Inr ''node-0001''"
    by (simp add: RouteRequest_def SetSource_def l node_info_def chat_conn)
  have assign: "\<exists>g'. AssignJob chat_gateway (example_env\<lparr>e_order := [''node-0001'']\<rparr>) ''node-0001'' ''j1'' ''m'' ''rc_user'' body True =
      (g', Inr (0, 1))" for body
    by (simp add: AssignJob_def chat_gateway_eq New_gateway_def incrUserJobs_def user_jobs_def maxConcurrentPerUser_def
        make_chan_def Send_def chat_conn example_env_def split_beta Let_def)
  have db: "db chat_gateway = chat_db" by (simp add: chat_gateway_eq New_gateway_def)
  show ?thesis
    using assign [of \<open>''{"model":"m"}''\<close>]
    by (auto simp: HandleChatCompletions_def chat_request_def chat_env_def bearer_def HasPrefix_def TrimPrefix_def db v d
        admit_def route_chat_def chat_api_def route)
qed

theorem chat_paid_and_routed_witness:
  "\<exists>g' job. fst (HandleChatCompletions chat_api chat_gateway chat_env (example_env\<lparr>e_order := [''node-0001'']\<rparr>) chat_request) = g' \<and>
     pendingJobs g' ''j1'' = Some job \<and> pj_UserKey job = ''rc_user'' \<and> pj_ResponseCh job = 0"
proof -
  obtain g' where g': "HandleChatCompletions chat_api chat_gateway chat_env (example_env\<lparr>e_order := [''node-0001'']\<rparr>)
      chat_request = (g', Streaming 0 1)" using chat_served by blast
  have "enumerates (e_order (example_env\<lparr>e_order := [''node-0001'']\<rparr>)) (nodes chat_gateway)"
    by (simp add: enumerates_def chat_gateway_eq)
  moreover have "bearer chat_request = Some ''rc_user''" "ae_uuid chat_env = ''j1''"
    by (simp_all add: bearer_def chat_request_def HasPrefix_def TrimPrefix_def chat_env_def)
  ultimately show ?thesis using chat_paid_and_routed [OF chat_reachable _ g'] g' by auto
qed

end
