(* ===== verification/Crashes.thy ===== *)
theory Crashes
  imports Nodes
begin

text \<open>
  Node ids are logged by their first eight bytes, which panics when they are shorter, and registration does not
  check their length. In the clean-up, a goroutine of its own, the panic ends the process.
\<close>

section \<open>The clean-up settles every expired job\<close>

lemma remove_expired_collects:
  "remove_expired g now ids = (g', js, False) \<Longrightarrow> distinct ids \<Longrightarrow> k \<in> set ids \<Longrightarrow> pendingJobs g k = Some job \<Longrightarrow>
   expired_at now job \<Longrightarrow> job \<in> set js"
proof (induction g now ids arbitrary: g' js rule: remove_expired.induct)
  case (2 g now k' ks)
  show ?case
  proof (cases "\<exists>job'. pendingJobs g k' = Some job' \<and> expired_at now job'")
    case False
    then show ?thesis using 2 by (auto split: option.splits)
  next
    case True
    then obtain job' where job': "pendingJobs g k' = Some job'" "expired_at now job'" by blast
    obtain g1 js' where c: "close_chan g (pj_DoneCh job') = (g1, False)" "js = job' # js'"
      and r: "remove_expired (g1\<lparr>pendingJobs := (pendingJobs g1)(k' := None)\<rparr>) now ks = (g', js', False)"
      using remove_expired_ConsE [OF "2.prems"(1) job'] .
    show ?thesis
    proof (cases "k = k'")
      case False
      have "pendingJobs g1 = pendingJobs g" using close_chan_frame(4) [of g "pj_DoneCh job'"] by (simp add: c)
      then have "job \<in> set js'"
        using "2.IH"(3) [OF job'(1) _ refl c(1) [symmetric] _ r] "2.prems" job'(2) False by simp
      then show ?thesis by (simp add: c(2))
    qed (use job' "2.prems"(4) c(2) in simp)
  qed
qed simp

lemma settle_all_panics:
  "job \<in> set js \<Longrightarrow> length (pj_NodeID job) < 8 \<Longrightarrow> snd (settle_all g e js)"
proof (induction js arbitrary: g)
  case (Cons j js)
  have "snd (settle_expired g e j) = (length (pj_NodeID j) < 8)" by (simp add: settle_expired_def split_beta Let_def)
  then show ?case using Cons by (cases "job = j") (simp_all add: split_beta)
qed simp

section \<open>The property\<close>

text \<open>
  C32: a job of a node whose id is shorter than eight bytes ends the process when it expires: the next tick of the
  clean-up panics, whatever else is pending.
\<close>

theorem short_node_id_crashes:
  assumes "reachable d b g" "enumerates (e_order e) (pendingJobs g)"
    and "pendingJobs g j = Some job" "expired_at (e_now e) job" "length (pj_NodeID job) < 8"
  shows "snd (cleanup_tick g e)"
proof -
  have o: "channels_open g" using reachable_inv [OF assms(1)] by (simp add: gw_inv_def)
  obtain g1 js p where r: "remove_expired g (e_now e) (e_order e) = (g1, js, p)" by (metis prod.collapse)
  have p: "\<not> p" using remove_expired_open [OF r o] by simp
  have "distinct (e_order e)" "j \<in> set (e_order e)" using assms(2,3) by (auto simp: enumerates_def)
  then have "job \<in> set js" using remove_expired_collects [of g "e_now e" "e_order e" g1 js j job] r p assms(3,4) by simp
  then show ?thesis using settle_all_panics [OF _ assms(5)] p by (simp add: cleanup_tick_def r)
qed

text \<open>A node called \<open>n1\<close> is given a job and says nothing for ten minutes.\<close>

definition short_db :: DB where
  "short_db = empty_db\<lparr>tbl_nodes := [example_node\<lparr>n_node_id := ''n1''\<rparr>]\<rparr>"

definition short_connected :: Gateway where
  "short_connected = fst (HandleWS_connect (New_gateway short_db (New (Fin 5) None)) example_env ''key'')"

definition short_busy :: Gateway where
  "short_busy = fst (AssignJob short_connected example_env ''n1'' ''j1'' ''m'' ''user-1'' ''body'' False)"

lemma short_connected_eq:
  "short_connected = (New_gateway short_db (New (Fin 5) None))\<lparr>
     conns := [0 \<mapsto> new_conn (example_node\<lparr>n_node_id := ''n1'', n_last_seen := zero_time\<rparr>)],
     next_conn := 1, nodes := [''n1'' \<mapsto> 0]\<rparr>"
  by (simp add: short_connected_def HandleWS_connect_def New_gateway_def example_env_def NodeByAPIKey_def short_db_def
      example_node_def no_faults_def Let_def)

lemma short_busy_jobs:
  "pendingJobs short_busy = [''j1'' \<mapsto> example_job\<lparr>pj_NodeID := ''n1''\<rparr>]"
proof -
  have "\<not> nc_cancelled (new_conn n)" for n by (simp add: new_conn_def)
  then show ?thesis
    by (simp add: short_busy_def short_connected_eq AssignJob_def incrUserJobs_def user_jobs_def maxConcurrentPerUser_def
        make_chan_def Send_def New_gateway_def example_env_def update_conn_def split_beta example_job_def)
qed

lemma short_reachable: "reachable short_db (New (Fin 5) None) short_busy"
proof -
  have c: "gw_step (New_gateway short_db (New (Fin 5) None)) (EvConnect example_env ''key'') short_connected"
    by (rule gw_step.step) (simp_all add: short_connected_def)
  have b: "gw_step short_connected (EvAssign example_env ''n1'' ''j1'' ''m'' ''user-1'' ''body'' False) short_busy"
    by (rule gw_step.step) (simp_all add: short_busy_def short_connected_eq New_gateway_def)
  show ?thesis using reachable.step [OF reachable.step [OF reachable.start c] b] .
qed

theorem short_node_id_crashes_witness:
  "snd (cleanup_tick short_busy (example_env\<lparr>e_now := 600000000001\<rparr>))"
proof -
  let ?job = "example_job\<lparr>pj_NodeID := ''n1''\<rparr>"
  show ?thesis
    by (rule short_node_id_crashes [OF short_reachable, where j = "''j1''" and job = ?job])
       (simp_all add: short_busy_jobs enumerates_def example_env_def expired_at_def example_job_def)
qed


section \<open>The clean-up removes exactly the expired jobs\<close>

lemma close_keeps_closed:
  "close_chan g ch = (g', False) \<Longrightarrow> \<exists>c. chans g ch' = Some c \<and> closed c \<Longrightarrow> \<exists>c. chans g' ch' = Some c \<and> closed c"
  by (auto simp: close_chan_def split: option.splits if_splits)

lemma close_closes: "close_chan g ch = (g', False) \<Longrightarrow> \<exists>c. chans g' ch = Some c \<and> closed c"
  by (auto simp: close_chan_def split: option.splits if_splits)

lemma remove_expired_keeps_closed:
  "remove_expired g now ids = (g', js, False) \<Longrightarrow> \<exists>c. chans g ch = Some c \<and> closed c \<Longrightarrow>
   \<exists>c. chans g' ch = Some c \<and> closed c"
proof (induction g now ids arbitrary: g' js rule: remove_expired.induct)
  case (2 g now k ks)
  show ?case
  proof (cases "\<exists>job. pendingJobs g k = Some job \<and> expired_at now job")
    case False
    then show ?thesis using 2 by (auto split: option.splits)
  next
    case True
    then obtain job where job: "pendingJobs g k = Some job" "expired_at now job" by blast
    obtain g1 js' where c: "close_chan g (pj_DoneCh job) = (g1, False)"
      and r: "remove_expired (g1\<lparr>pendingJobs := (pendingJobs g1)(k := None)\<rparr>) now ks = (g', js', False)"
      using remove_expired_ConsE [OF "2.prems"(1) job] .
    show ?thesis
      using "2.IH"(3) [OF job(1) _ refl c [symmetric] _ r] job(2) close_keeps_closed [OF c "2.prems"(2)] by simp
  qed
qed simp

lemma remove_expired_exact:
  "remove_expired g now ids = (g', js, False) \<Longrightarrow>
   pendingJobs g' j = (if \<exists>job. j \<in> set ids \<and> pendingJobs g j = Some job \<and> expired_at now job then None else pendingJobs g j) \<and>
   (j \<in> set ids \<and> pendingJobs g j = Some job \<and> expired_at now job \<longrightarrow> (\<exists>c. chans g' (pj_DoneCh job) = Some c \<and> closed c))"
proof (induction g now ids arbitrary: g' js rule: remove_expired.induct)
  case (2 g now k ks)
  show ?case
  proof (cases "\<exists>job. pendingJobs g k = Some job \<and> expired_at now job")
    case False
    then show ?thesis using 2 by (auto split: option.splits)
  next
    case True
    then obtain job' where job': "pendingJobs g k = Some job'" "expired_at now job'" by blast
    obtain g1 js' where c: "close_chan g (pj_DoneCh job') = (g1, False)"
      and r: "remove_expired (g1\<lparr>pendingJobs := (pendingJobs g1)(k := None)\<rparr>) now ks = (g', js', False)"
      using remove_expired_ConsE [OF "2.prems"(1) job'] .
    have p: "pendingJobs g1 = pendingJobs g" using close_chan_frame(4) [of g "pj_DoneCh job'"] by (simp add: c)
    have "\<exists>c. chans g' (pj_DoneCh job') = Some c \<and> closed c"
      using remove_expired_keeps_closed [OF r] close_closes [OF c] by simp
    then show ?thesis
      using "2.IH"(3) [OF job'(1) _ refl c [symmetric] _ r] job' by (cases "j = k") (auto simp: p)
  qed
qed simp

lemma settle_all_jobs:
  "pendingJobs (fst (settle_all g e js)) = pendingJobs g \<and> chans (fst (settle_all g e js)) = chans g"
proof (induction js arbitrary: g)
  case (Cons job js)
  then show ?case by (simp add: split_beta)
qed simp

text \<open>
  C21: a tick of the clean-up, whether it then panics or not, takes away exactly the jobs that were pending for
  more than ten minutes, and closes the done channel of each, so that its buyer's loop can return.
\<close>

theorem cleanup_exact:
  assumes "reachable d b g" "enumerates (e_order e) (pendingJobs g)"
  shows "pendingJobs (fst (cleanup_tick g e)) j =
      (if \<exists>job. pendingJobs g j = Some job \<and> expired_at (e_now e) job then None else pendingJobs g j) \<and>
    (\<forall>job. pendingJobs g j = Some job \<and> expired_at (e_now e) job \<longrightarrow>
      (\<exists>c. chans (fst (cleanup_tick g e)) (pj_DoneCh job) = Some c \<and> closed c))"
proof -
  have o: "channels_open g" using reachable_inv [OF assms(1)] by (simp add: gw_inv_def)
  obtain g1 js p where r: "remove_expired g (e_now e) (e_order e) = (g1, js, p)" by (metis prod.collapse)
  have p: "\<not> p" using remove_expired_open [OF r o] by simp
  have in_order: "pendingJobs g j = Some job \<Longrightarrow> j \<in> set (e_order e)" for job using assms(2) by (auto simp: enumerates_def)
  have e: "pendingJobs (fst (cleanup_tick g e)) = pendingJobs g1" "chans (fst (cleanup_tick g e)) = chans g1"
    using settle_all_jobs [of g1 e js] p by (simp_all add: cleanup_tick_def r)
  show ?thesis
    using remove_expired_exact [OF r [simplified p], of j] in_order unfolding e by auto
qed

text \<open>The node with the short id again: its job is gone although the process has panicked.\<close>

theorem cleanup_exact_witness:
  "pendingJobs (fst (cleanup_tick short_busy (example_env\<lparr>e_now := 600000000001\<rparr>))) ''j1'' = None"
proof -
  let ?e = "example_env\<lparr>e_now := 600000000001\<rparr>"
  have "enumerates (e_order ?e) (pendingJobs short_busy)"
    by (simp add: short_busy_jobs enumerates_def example_env_def)
  note x = cleanup_exact [OF short_reachable this, of "''j1''"]
  have "expired_at (e_now ?e) (example_job\<lparr>pj_NodeID := ''n1''\<rparr>)" by (simp add: expired_at_def example_job_def)
  then show ?thesis using x by (simp add: short_busy_jobs)
qed

end
