(* ===== verification/Streams.thy ===== *)
theory Streams
  imports Chat Crashes
begin

text \<open>
  How the chunks of an answer reach the buyer: the loop at the end of \<open>HandleChatCompletions\<close>, running beside
  every other step of the gateway. The loop's \<open>select\<close> takes any case that is ready and waits when none
  is, so it is a relation: a state without a step is a blocked loop.
\<close>

section \<open>The streaming loop\<close>

text \<open>
  The state is the gateway's, what was written to the buyer, and whether the loop still runs. \<open>gone\<close> says that
  the context of the buyer's request is cancelled.
\<close>

type_synonym stream = "Gateway \<times> string list \<times> bool"

inductive stream_step :: "nat \<Rightarrow> nat \<Rightarrow> bool \<Rightarrow> stream \<Rightarrow> stream \<Rightarrow> bool" for responseCh doneCh gone where
  chunk: "chans g responseCh = Some c \<Longrightarrow> buffer c = x # xs \<Longrightarrow>
    stream_step responseCh doneCh gone (g, written, True) (receive g responseCh, written @ [x], True)"
| channel_closed: "chans g responseCh = Some c \<Longrightarrow> buffer c = [] \<Longrightarrow> closed c \<Longrightarrow>
    stream_step responseCh doneCh gone (g, written, True) (g, written, False)"
| job_done: "chans g doneCh = Some c \<Longrightarrow> closed c \<Longrightarrow>
    stream_step responseCh doneCh gone (g, written, True) (g, written, False)"
| buyer_gone: "gone \<Longrightarrow> stream_step responseCh doneCh gone (g, written, True) (g, written, False)"

inductive_cases stream_stepE: "stream_step responseCh doneCh gone s s'"

text \<open>
  A run of the loop from the assignment of the job on, interleaved with the steps of the gateway. \<open>sent\<close> are
  the chunks the job's node sent for it.
\<close>

definition sent_by :: "string \<Rightarrow> string \<Rightarrow> Gateway \<Rightarrow> gw_event \<Rightarrow> string list" where
  "sent_by j n g ev =
     (case ev of
        EvMessage e c m \<Rightarrow>
          if msg_Type m = ''proxy_chunk'' \<and> msg_JobID m = j \<and> map_option nc_NodeID (conns g c) = Some n
          then [msg_Data m] else []
      | _ \<Rightarrow> [])"

inductive stream_run :: "string \<Rightarrow> string \<Rightarrow> nat \<Rightarrow> nat \<Rightarrow> stream \<Rightarrow> string list \<Rightarrow> bool" for j n rc dc where
  start: "reachable d b g0 \<Longrightarrow> pendingJobs g0 j = None \<Longrightarrow> AssignJob g0 e n j m k body f = (g, Inr (rc, dc)) \<Longrightarrow>
    stream_run j n rc dc (g, [], True) []"
| gateway: "stream_run j n rc dc (g, written, run) sent \<Longrightarrow> gw_step g ev g' \<Longrightarrow> ev \<noteq> EvReceive rc \<Longrightarrow>
    stream_run j n rc dc (g', written, run) (sent @ sent_by j n g ev)"
| loop: "stream_run j n rc dc s sent \<Longrightarrow> stream_step rc dc gone s s' \<Longrightarrow> stream_run j n rc dc s' sent"

section \<open>Which steps touch a response channel\<close>

definition buf :: "Gateway \<Rightarrow> nat \<Rightarrow> string list option" where
  "buf g ch = map_option buffer (chans g ch)"

text \<open>A step that adds no job and leaves all buffers alone.\<close>

definition quiet :: "Gateway \<Rightarrow> Gateway \<Rightarrow> bool" where
  "quiet g g' \<longleftrightarrow> pendingJobs g' \<subseteq>\<^sub>m pendingJobs g \<and> buf g' = buf g \<and> next_chan g' = next_chan g"

lemma quiet_refl [simp]: "pendingJobs g' = pendingJobs g \<Longrightarrow> chans g' = chans g \<Longrightarrow> next_chan g' = next_chan g \<Longrightarrow> quiet g g'"
  by (auto simp: quiet_def buf_def)

lemma quiet_trans: "quiet g g1 \<Longrightarrow> quiet g1 g2 \<Longrightarrow> quiet g g2"
  unfolding quiet_def using map_le_trans by metis

lemma buf_update [simp]: "buf (g\<lparr>pendingJobs := p\<rparr>) = buf g" "buf (decrUserJobs g k) = buf g"
  by (simp_all add: buf_def fun_eq_iff)

lemma buf_close [simp]: "buf (fst (close_chan g ch)) = buf g"
  by (auto simp: buf_def close_chan_def fun_eq_iff split: option.split)

lemma map_le_delete [simp]: "m(k := None) \<subseteq>\<^sub>m m"
  by (simp add: map_le_def)

lemma quiet_remove: "quiet g g1 \<Longrightarrow> pendingJobs g2 = (pendingJobs g1)(k := None) \<Longrightarrow> buf g2 = buf g1 \<Longrightarrow>
    next_chan g2 = next_chan g1 \<Longrightarrow> quiet g g2"
  unfolding quiet_def by (metis map_le_delete map_le_trans)

lemma buf_cong: "chans g' = chans g \<Longrightarrow> buf g' = buf g"
  by (simp add: buf_def fun_eq_iff)

lemma quiet_handleReject: "quiet g (fst (handleReject g nc msg))"
proof (cases "pendingJobs g (msg_JobID msg)")
  case (Some job)
  obtain g1 p where g1: "close_chan g (pj_DoneCh job) = (g1, p)" by force
  have c: "quiet g g1" using buf_close [of g "pj_DoneCh job"] close_chan_frame(4,5) [of g "pj_DoneCh job"]
    unfolding g1 by (simp add: quiet_def)
  let ?h = "decrUserJobs (g1\<lparr>pendingJobs := (pendingJobs g1)(msg_JobID msg := None)\<rparr>) (pj_UserKey job)"
  have "quiet g ?h" by (rule quiet_remove [OF c, of _ "msg_JobID msg"]) (simp_all)
  then show ?thesis using c by (cases p) (simp_all add: handleReject_def Some g1 Let_def)
qed (simp add: handleReject_def)

lemma quiet_handleProxyDone: "quiet g (fst (handleProxyDone g e c nc msg))"
proof (cases "pendingJobs g (msg_JobID msg)")
  case (Some job)
  show ?thesis
  proof (cases "pj_NodeID job = nc_NodeID nc")
    case True
    obtain g1 p where g1: "close_chan g (pj_DoneCh job) = (g1, p)" by force
    show ?thesis
    proof (cases p)
      case True
      then show ?thesis
        using g1 \<open>pj_NodeID job = nc_NodeID nc\<close> Some
        by (auto simp: handleProxyDone_def close_chan_def quiet_def buf_def Let_def split: option.splits if_splits)
    next
      case False
      obtain g' q where r: "handleProxyDone g e c nc msg = (g', q)" by force
      have "chans g' = chans g1" "pendingJobs g' = (pendingJobs g)(msg_JobID msg := None)" "next_chan g' = next_chan g"
        using handleProxyDone_maps(1,3,6) [OF r Some True] g1 False by simp_all
      then show ?thesis
        using buf_close [of g "pj_DoneCh job"] buf_cong [of g' g1] by (simp add: r quiet_def g1)
    qed
  qed (simp add: handleProxyDone_def Some)
qed (simp add: handleProxyDone_def)

lemma quiet_remove_expired: "quiet g (fst (remove_expired g now ids))"
proof (induction g now ids rule: remove_expired.induct)
  case (2 g now k ks)
  show ?case
  proof (cases "\<exists>job. pendingJobs g k = Some job \<and> expired_at now job")
    case True
    then obtain job where job: "pendingJobs g k = Some job" "expired_at now job" by blast
    obtain g1 p where g1: "close_chan g (pj_DoneCh job) = (g1, p)" by force
    have c: "quiet g g1" using buf_close [of g "pj_DoneCh job"] close_chan_frame(4,5) [of g "pj_DoneCh job"]
      unfolding g1 by (simp add: quiet_def)
    let ?g2 = "g1\<lparr>pendingJobs := (pendingJobs g1)(k := None)\<rparr>"
    have g2: "quiet g ?g2" by (rule quiet_remove [OF c, of _ k]) (simp_all)
    show ?thesis
    proof (cases p)
      case False
      have "quiet ?g2 (fst (remove_expired ?g2 now ks))"
        using 2(3) [OF job(1) _ g1 [symmetric]] job(2) False by simp
      then show ?thesis using quiet_trans [OF g2] job g1 False by (simp add: split_beta)
    qed (use c job g1 in simp)
  next
    case False
    then show ?thesis using 2(1,2) by (auto split: option.split)
  qed
qed simp

lemma quiet_cleanup: "quiet g (fst (cleanup_tick g e))"
proof -
  have s: "quiet g (fst (settle_all g e js))" for g js
  proof (induction js arbitrary: g)
    case (Cons job js)
    have "quiet g (fst (settle_expired g e job))" by simp
    then show ?case using quiet_trans [OF _ Cons.IH [of "fst (settle_expired g e job)"], of g] by (simp add: split_beta)
  qed simp
  show ?thesis
    using quiet_trans [OF quiet_remove_expired [of g "e_now e" "e_order e"] s] quiet_remove_expired [of g "e_now e" "e_order e"]
    by (simp add: cleanup_tick_def split_beta)
qed

section \<open>What a step does to one channel\<close>

text \<open>
  \<open>owned\<close>: the channel exists, and a pending job that answers on it is job \<open>j\<close> of node \<open>n\<close>. \<open>calm\<close>
  steps add nothing to the channel and give it to no other job.
\<close>

definition owned :: "string \<Rightarrow> string \<Rightarrow> nat \<Rightarrow> Gateway \<Rightarrow> bool" where
  "owned j n rc g \<longleftrightarrow> rc < next_chan g \<and> buf g rc \<noteq> None \<and>
     (\<forall>k job. pendingJobs g k = Some job \<and> pj_ResponseCh job = rc \<longrightarrow> k = j \<and> pj_NodeID job = n)"

definition calm :: "nat \<Rightarrow> Gateway \<Rightarrow> Gateway \<Rightarrow> bool" where
  "calm rc g g' \<longleftrightarrow> next_chan g \<le> next_chan g' \<and> buf g' rc \<noteq> None \<and>
     (\<forall>k job. pendingJobs g' k = Some job \<and> pj_ResponseCh job = rc \<longrightarrow> pendingJobs g k = Some job)"

lemma calm_owned: "owned j n rc g \<Longrightarrow> calm rc g g' \<Longrightarrow> owned j n rc g'"
  unfolding owned_def calm_def by force

lemma quiet_owned: "owned j n rc g \<Longrightarrow> quiet g g' \<Longrightarrow> owned j n rc g'"
  by (auto simp: owned_def quiet_def map_le_def dom_def)

lemma owned_AssignJob:
  assumes "owned j' n' rc g"
  shows "owned j' n' rc (fst (AssignJob g e n j m k b f)) \<and> buf (fst (AssignJob g e n j m k b f)) rc = buf g rc"
proof (cases "snd (incrUserJobs g k)")
  case True
  then obtain g1 where g1: "incrUserJobs g k = (g1, True)" by (metis prod.collapse)
  have fr: "pendingJobs g1 = pendingJobs g" "chans g1 = chans g" "next_chan g1 = next_chan g"
    using incrUserJobs_frame [of g k] by (simp_all add: g1)
  show ?thesis
  proof (cases "nodes g1 n")
    case None
    then show ?thesis
      using AssignJob_refused(2) [OF g1 None] quiet_owned [OF assms] by (simp add: fr buf_def)
  next
    case (Some c)
    obtain h ok where h: "AssignJob g e n j m k b f =
         (if \<not> ok then (decrUserJobs (h\<lparr>pendingJobs := (pendingJobs h)(j := None)\<rparr>) k, Inl ErrSend)
          else (h, Inr (next_chan g, Suc (next_chan g))))"
      "pendingJobs h = (pendingJobs g)(j \<mapsto> assigned_job g e n j m k b f)"
      "chans h = (chans g)(next_chan g \<mapsto> \<lparr>buffer = [], capacity = 64, closed = False\<rparr>,
         Suc (next_chan g) \<mapsto> \<lparr>buffer = [], capacity = 0, closed = False\<rparr>)"
      "next_chan h = Suc (Suc (next_chan g))"
      by (rule AssignJob_sending [OF g1 Some, of e j m b f]) assumption
    have "buf h rc = buf g rc" "calm rc g h" "calm rc g (h\<lparr>pendingJobs := (pendingJobs h)(j := None)\<rparr>)"
      using assms by (auto simp: h calm_def buf_def owned_def split: if_splits)
    then show ?thesis
      using calm_owned [OF assms] quiet_owned [of j' n' rc "h\<lparr>pendingJobs := (pendingJobs h)(j := None)\<rparr>"] by (auto simp: h(1))
  qed
qed (simp add: AssignJob_refused(1) assms)

lemma owned_receive:
  "owned j n rc g \<Longrightarrow> owned j n rc (receive g ch) \<and> (ch \<noteq> rc \<longrightarrow> buf (receive g ch) rc = buf g rc)"
  by (auto simp: owned_def buf_def receive_def split: option.split)

lemma chunk_step:
  assumes "owned j n rc g" "conns g c = Some nc"
  shows "owned j n rc (fst (handleProxyChunk g nc msg)) \<and>
    (buf (fst (handleProxyChunk g nc msg)) rc = buf g rc \<or>
     msg_JobID msg = j \<and> nc_NodeID nc = n \<and>
     buf (fst (handleProxyChunk g nc msg)) rc = map_option (\<lambda>b. b @ [msg_Data msg]) (buf g rc))"
proof (cases "\<exists>job. pendingJobs g (msg_JobID msg) = Some job \<and> pj_NodeID job = nc_NodeID nc")
  case True
  then obtain job where job: "pendingJobs g (msg_JobID msg) = Some job" "pj_NodeID job = nc_NodeID nc" by blast
  have own: "pj_ResponseCh job = rc \<Longrightarrow> msg_JobID msg = j \<and> nc_NodeID nc = n"
    using assms(1) job unfolding owned_def by metis
  show ?thesis
    using assms(1) job own
    by (auto simp: handleProxyChunk_def try_send_def owned_def buf_def Let_def split: option.split)
qed (use assms in \<open>auto simp: handleProxyChunk_def split: option.split\<close>)

lemma handle_msg_quiet:
  "quiet g (fst (handle_msg g e c msg)) \<or>
   (\<exists>nc. conns g c = Some nc \<and> msg_Type msg = ''proxy_chunk'' \<and>
      fst (handle_msg g e c msg) = fst (handleProxyChunk g nc msg))"
  by (auto simp: handle_msg_def handleHeartbeat_def handleAccept_def Let_def quiet_handleReject quiet_handleProxyDone
      split: option.split)

lemma msg_step:
  assumes "owned j n rc g"
  shows "owned j n rc (fst (gw_exec g (EvMessage e c msg))) \<and>
    (buf (fst (gw_exec g (EvMessage e c msg))) rc = buf g rc \<or>
     sent_by j n g (EvMessage e c msg) = [msg_Data msg] \<and>
     buf (fst (gw_exec g (EvMessage e c msg))) rc = map_option (\<lambda>b. b @ [msg_Data msg]) (buf g rc))"
proof -
  obtain h p where h: "handle_msg g e c msg = (h, p)" by force
  let ?g' = "if p then ws_panicked h c else h"
  have g': "fst (gw_exec g (EvMessage e c msg)) = ?g'" by (simp add: h)
  have q: "quiet h ?g'" by (simp add: ws_panicked_def)
  then have b: "buf ?g' = buf h" by (simp add: quiet_def)
  have o: "owned j n rc h \<Longrightarrow> owned j n rc ?g'" by (rule quiet_owned [OF _ q])
  show ?thesis
    using handle_msg_quiet [of g e c msg] unfolding h fst_conv
  proof
    assume "quiet g h"
    then show ?thesis using quiet_owned [OF assms, of h] o b unfolding g' by (simp add: quiet_def)
  next
    assume "\<exists>nc. conns g c = Some nc \<and> msg_Type msg = ''proxy_chunk'' \<and> h = fst (handleProxyChunk g nc msg)"
    then obtain nc where nc: "conns g c = Some nc" "msg_Type msg = ''proxy_chunk''" "h = fst (handleProxyChunk g nc msg)"
      by blast
    show ?thesis
      using chunk_step [OF assms nc(1), of msg] o nc(1,2) unfolding g' b nc(3) [symmetric] by (auto simp: sent_by_def)
  qed
qed

text \<open>Every step but the loop's own: the job's channel is left alone, or one chunk of its node is added.\<close>

lemma gw_step_channel:
  assumes "owned j n rc g" "gw_step g ev g'" "ev \<noteq> EvReceive rc"
  shows "owned j n rc g' \<and> (\<exists>xs. subseq xs (sent_by j n g ev) \<and> buf g' rc = map_option (\<lambda>b. b @ xs) (buf g rc))"
proof -
  have g': "g' = fst (gw_exec g ev)" using assms(2) by (auto elim: gw_stepE)
  have same: "?thesis" if "owned j n rc g'" "buf g' rc = buf g rc"
    using that by (intro conjI exI [of _ "[]"]) (simp_all add: option.map_ident)
  have quietly: "?thesis" if "quiet g g'"
    using that quiet_owned [OF assms(1)] by (intro same) (simp_all add: quiet_def)
  show ?thesis
  proof (cases ev)
    case (EvMessage e c m)
    show ?thesis
      using msg_step [OF assms(1), of e c m] same unfolding EvMessage g' by (metis subseq_order.order_refl)
  next
    case (EvAssign e n j m k b f)
    show ?thesis by (rule same) (use owned_AssignJob [OF assms(1)] in \<open>simp_all add: g' EvAssign\<close>)
  next
    case (EvCleanup e)
    show ?thesis by (rule quietly) (simp add: g' EvCleanup quiet_cleanup)
  next
    case (EvReceive ch)
    show ?thesis by (rule same) (use owned_receive [OF assms(1)] assms(3) in \<open>simp_all add: g' EvReceive\<close>)
  qed (rule quietly, simp add: g' HandleRegister_def HandleWS_connect_def HandleWS_disconnect_def ping_def Let_def
      split_beta split: option.split sum.split)+
qed

section \<open>Runs\<close>

text \<open>The channels of pending jobs are among those handed out.\<close>

definition answerable :: "Gateway \<Rightarrow> bool" where
  "answerable g \<longleftrightarrow> (\<forall>k job. pendingJobs g k = Some job \<longrightarrow> pj_ResponseCh job < next_chan g)"

lemma answerable_quiet: "answerable g \<Longrightarrow> quiet g g' \<Longrightarrow> answerable g'"
  by (auto simp: answerable_def quiet_def map_le_def dom_def)

lemma AssignJob_pending:
  "next_chan g \<le> next_chan (fst (AssignJob g e n j m k b f)) \<and>
   (pendingJobs (fst (AssignJob g e n j m k b f)) k' = Some job \<longrightarrow>
      pendingJobs g k' = Some job \<or> pj_ResponseCh job < next_chan (fst (AssignJob g e n j m k b f)))"
proof (cases "snd (incrUserJobs g k)")
  case True
  then obtain g1 where g1: "incrUserJobs g k = (g1, True)" by (metis prod.collapse)
  have fr: "pendingJobs g1 = pendingJobs g" "chans g1 = chans g" "next_chan g1 = next_chan g"
    using incrUserJobs_frame [of g k] by (simp_all add: g1)
  show ?thesis
  proof (cases "nodes g1 n")
    case None
    then show ?thesis using AssignJob_refused(2) [OF g1 None] by (simp add: fr)
  next
    case (Some c)
    obtain h ok where h: "AssignJob g e n j m k b f =
         (if \<not> ok then (decrUserJobs (h\<lparr>pendingJobs := (pendingJobs h)(j := None)\<rparr>) k, Inl ErrSend)
          else (h, Inr (next_chan g, Suc (next_chan g))))"
      "pendingJobs h = (pendingJobs g)(j \<mapsto> assigned_job g e n j m k b f)" "next_chan h = Suc (Suc (next_chan g))"
      by (rule AssignJob_sending [OF g1 Some, of e j m b f]) assumption
    then show ?thesis by auto
  qed
qed (simp add: AssignJob_refused(1))

lemma AssignJob_channel:
  assumes "AssignJob g e n j m k b f = (g', Inr (rc, dc))"
  shows "buf g' rc = Some [] \<and> rc = next_chan g \<and> rc < next_chan g'"
proof (cases "snd (incrUserJobs g k)")
  case True
  then obtain g1 where g1: "incrUserJobs g k = (g1, True)" by (metis prod.collapse)
  show ?thesis
  proof (cases "nodes g1 n")
    case None
    then show ?thesis using AssignJob_refused(2) [OF g1 None] assms by simp
  next
    case (Some c)
    obtain h ok where h: "AssignJob g e n j m k b f =
         (if \<not> ok then (decrUserJobs (h\<lparr>pendingJobs := (pendingJobs h)(j := None)\<rparr>) k, Inl ErrSend)
          else (h, Inr (next_chan g, Suc (next_chan g))))"
      "chans h = (chans g)(next_chan g \<mapsto> \<lparr>buffer = [], capacity = 64, closed = False\<rparr>,
         Suc (next_chan g) \<mapsto> \<lparr>buffer = [], capacity = 0, closed = False\<rparr>)"
      "next_chan h = Suc (Suc (next_chan g))"
      by (rule AssignJob_sending [OF g1 Some, of e j m b f]) assumption
    then show ?thesis using assms by (auto simp: buf_def split: if_splits)
  qed
qed (use assms AssignJob_refused(1) in simp)

lemma answerable_chunk: "answerable g \<Longrightarrow> answerable (fst (handleProxyChunk g nc msg))"
  by (auto simp: answerable_def handleProxyChunk_def Let_def split: option.split if_splits)

lemma gw_exec_answerable: assumes "answerable g" shows "answerable (fst (gw_exec g ev))"
proof (cases ev)
  case (EvMessage e c m)
  have "answerable (fst (handle_msg g e c m))"
    using handle_msg_quiet [of g e c m] answerable_quiet [OF assms] answerable_chunk [OF assms] by metis
  then show ?thesis by (simp add: EvMessage split_beta answerable_quiet ws_panicked_def)
next
  case (EvAssign e n j m k b f)
  have "pj_ResponseCh job < next_chan (fst (AssignJob g e n j m k b f))"
    if "pendingJobs (fst (AssignJob g e n j m k b f)) k' = Some job" for k' job
    using AssignJob_pending [of g e n j m k b f k' job] that assms unfolding answerable_def
    by (meson order_less_le_trans)
  then show ?thesis by (simp add: EvAssign answerable_def)
next
  case (EvCleanup e)
  then show ?thesis using answerable_quiet [OF assms] quiet_cleanup by simp
next
  case (EvReceive ch)
  then show ?thesis using assms by (simp add: answerable_def)
qed (rule answerable_quiet [OF assms], simp add: HandleRegister_def HandleWS_connect_def HandleWS_disconnect_def
    ping_def Let_def split_beta split: option.split sum.split)+

lemma reachable_answerable: "reachable d b g \<Longrightarrow> answerable g"
proof (induction rule: reachable.induct)
  case (step g ev g')
  then show ?case using gw_exec_answerable [of g ev] by (auto elim: gw_stepE)
qed (simp add: answerable_def New_gateway_def)

text \<open>Between the buyer and the node: what was written and what waits in the channel was sent, in this order.\<close>

lemma stream_run_inv:
  "stream_run j n rc dc s sent \<Longrightarrow>
   owned j n rc (fst s) \<and> (\<exists>b. buf (fst s) rc = Some b \<and> subseq (fst (snd s) @ b) sent)"
proof (induction rule: stream_run.induct)
  case (start d b g0 e m k body f g)
  have "\<forall>k job. pendingJobs g0 k = Some job \<longrightarrow> pj_ResponseCh job \<noteq> rc"
    using reachable_answerable [OF start(1)] AssignJob_channel [OF start(3)] unfolding answerable_def by fastforce
  then show ?case
    using AssignJob_assigned [OF start(3)] AssignJob_channel [OF start(3)] by (auto simp: owned_def)
next
  case (gateway g written run sent ev g')
  then obtain b xs where b: "buf g rc = Some b" "subseq (written @ b) sent"
      "subseq xs (sent_by j n g ev)" "buf g' rc = Some (b @ xs)" "owned j n rc g'"
    using gw_step_channel by fastforce
  have "subseq ((written @ b) @ xs) (sent @ sent_by j n g ev)" by (rule list_emb_append_mono [OF b(2,3)])
  then show ?case using b by simp
next
  case (loop s sent gone s')
  from loop(2) show ?case
  proof cases
    case (chunk g c x xs written)
    then show ?thesis
      using loop.IH owned_receive [of j n rc g rc] by (auto simp: buf_def receive_def)
  qed (use loop.IH in auto)
qed

section \<open>Properties\<close>

text \<open>
  C10: whatever else happens at the gateway meanwhile, the buyer of a job is written chunks that the node of the
  job sent for it, in the order they were sent and each at most once; what waits in the channel continues them.
\<close>

theorem stream_in_order:
  assumes "stream_run j n rc dc (g, written, run) sent"
  shows "\<exists>c. chans g rc = Some c \<and> subseq (written @ buffer c) sent"
  using stream_run_inv [OF assms] by (auto simp: buf_def)

text \<open>A job, one chunk of the answer, the end of the stream.\<close>

definition chunk_msg :: "WSMsg" where
  "chunk_msg = zero_msg\<lparr>msg_Type := ''proxy_chunk'', msg_JobID := ''j1'', msg_Data := ''answer''\<rparr>"

definition done_msg :: "WSMsg" where
  "done_msg = zero_msg\<lparr>msg_Type := ''proxy_done'', msg_JobID := ''j1''\<rparr>"

definition answered :: Gateway where
  "answered = fst (gw_exec example_busy (EvMessage example_env 0 chunk_msg))"

definition finished :: Gateway where
  "finished = fst (gw_exec answered (EvMessage example_env 0 done_msg))"

lemma example_conn:
  "\<exists>nc. conns example_busy 0 = Some nc \<and> nc_NodeID nc = ''node-0001''"
  "chans example_busy 0 = Some \<lparr>buffer = [], capacity = 64, closed = False\<rparr>"
  "chans example_busy 1 = Some \<lparr>buffer = [], capacity = 0, closed = False\<rparr>"
  by (simp_all add: example_busy_def example_connected_eq AssignJob_def incrUserJobs_def user_jobs_def
      maxConcurrentPerUser_def make_chan_def Send_def example_new_conn example_start_def New_gateway_def
      example_env_def update_conn_def split_beta)

lemma answered_state:
  "conns answered = conns example_busy"
  "\<exists>job. pendingJobs answered ''j1'' = Some job \<and> pj_NodeID job = ''node-0001'' \<and> pj_DoneCh job = 1"
  "chans answered 0 = Some \<lparr>buffer = [''answer''], capacity = 64, closed = False\<rparr>"
  "chans answered 1 = Some \<lparr>buffer = [], capacity = 0, closed = False\<rparr>"
  "gw_step example_busy (EvMessage example_env 0 chunk_msg) answered"
  using example_conn
  by (auto intro!: gw_step.step simp: answered_def handle_msg_def chunk_msg_def handleProxyChunk_def example_busy_state
      example_job_def try_send_def Let_def)

lemma finished_state:
  "pendingJobs finished ''j1'' = None" "chans finished 0 = Some \<lparr>buffer = [''answer''], capacity = 64, closed = False\<rparr>"
  "chans finished 1 = Some \<lparr>buffer = [], capacity = 0, closed = True\<rparr>"
  "gw_step answered (EvMessage example_env 0 done_msg) finished"
proof -
  obtain nc where nc: "conns answered 0 = Some nc" "nc_NodeID nc = ''node-0001''"
    using example_conn(1) answered_state(1) by auto
  obtain job where job: "pendingJobs answered (msg_JobID done_msg) = Some job" "pj_NodeID job = nc_NodeID nc" "pj_DoneCh job = 1"
    using answered_state(2) nc(2) by (auto simp: done_msg_def)
  obtain h p where h: "handleProxyDone answered example_env 0 nc done_msg = (h, p)" by force
  have "\<not> snd (close_chan answered (pj_DoneCh job))" by (simp add: close_chan_def job(3) answered_state(4) del: One_nat_def)
  note m = handleProxyDone_maps [OF h job(1,2) this]
  have e: "gw_exec answered (EvMessage example_env 0 done_msg) = (if p then ws_panicked h 0 else h, False)"
    using nc h by (simp add: handle_msg_def done_msg_def)
  then show "gw_step answered (EvMessage example_env 0 done_msg) finished"
    by (auto intro!: gw_step.step simp: finished_def)
  have "pendingJobs finished = pendingJobs h" "chans finished = chans h"
    using e by (simp_all add: finished_def ws_panicked_def)
  then show "pendingJobs finished ''j1'' = None"
    "chans finished 0 = Some \<lparr>buffer = [''answer''], capacity = 64, closed = False\<rparr>"
    "chans finished 1 = Some \<lparr>buffer = [], capacity = 0, closed = True\<rparr>"
    using m(1,3) by (simp_all add: close_chan_def job(3) answered_state(3,4) done_msg_def del: One_nat_def)
qed

lemma example_run:
  "stream_run ''j1'' ''node-0001'' 0 1 (finished, [], True) [''answer'']"
proof -
  have "gw_step example_start (EvConnect example_env ''key'') example_connected"
    by (rule gw_step.step) (simp_all add: example_connected_def)
  then have c: "reachable example_db (New (Fin 5) None) example_connected"
    unfolding example_start_def by (rule reachable.step [OF reachable.start])
  have p: "pendingJobs example_connected ''j1'' = None"
    by (simp add: example_connected_eq example_start_def New_gateway_def)
  have a: "AssignJob example_connected example_env ''node-0001'' ''j1'' ''m'' ''user-1'' ''body'' False = (example_busy, Inr (0, 1))"
    by (simp add: example_busy_def example_connected_eq AssignJob_def incrUserJobs_def user_jobs_def
      maxConcurrentPerUser_def make_chan_def Send_def example_new_conn example_start_def New_gateway_def
      example_env_def split_beta)
  obtain nc where nc: "conns answered 0 = Some nc" "nc_NodeID nc = ''node-0001''"
    using example_conn(1) answered_state(1) by auto
  have "stream_run ''j1'' ''node-0001'' 0 1 (answered, [], True) ([] @ sent_by ''j1'' ''node-0001'' example_busy
      (EvMessage example_env 0 chunk_msg))"
    by (rule stream_run.gateway [OF stream_run.start [OF c p a] answered_state(5)]) simp
  moreover have "sent_by ''j1'' ''node-0001'' example_busy (EvMessage example_env 0 chunk_msg) = [''answer'']"
    using nc answered_state(1) by (simp add: sent_by_def chunk_msg_def)
  moreover have "sent_by ''j1'' ''node-0001'' answered (EvMessage example_env 0 done_msg) = []"
    by (simp add: sent_by_def done_msg_def)
  ultimately show ?thesis
    using stream_run.gateway [OF _ finished_state(4), of "''j1''" "''node-0001''" 0 1 "[]" True "[''answer'']"] by simp
qed

theorem stream_in_order_witness:
  "\<exists>c. chans finished 0 = Some c \<and> subseq ([] @ buffer c) [''answer'']"
  by (rule stream_in_order [OF example_run])

text \<open>
  The end of a job can overtake its answer: once the node has finished the job, the loop may return
  although chunks wait in the channel, and they are never written to the buyer.
\<close>

theorem chunks_can_be_lost:
  "stream_run ''j1'' ''node-0001'' 0 1 (finished, [], False) [''answer''] \<and>
   chans finished 0 = Some \<lparr>buffer = [''answer''], capacity = 64, closed = False\<rparr> \<and>
   (\<forall>gone s. \<not> stream_step 0 1 gone (finished, [], False) s)"
proof -
  have "stream_step 0 1 False (finished, [], True) (finished, [], False)"
    by (rule stream_step.job_done [OF finished_state(3)]) simp
  then show ?thesis
    using stream_run.loop [OF example_run] finished_state(2) by (auto elim: stream_stepE)
qed


section \<open>The done channel of the job\<close>

text \<open>
  What every step keeps: no channel goes away or opens again, and a job stays pending on its done channel or
  that channel is closed.
\<close>

definition ends_well :: "Gateway \<Rightarrow> Gateway \<Rightarrow> bool" where
  "ends_well g g' \<longleftrightarrow>
     (\<forall>ch c. chans g ch = Some c \<longrightarrow> (\<exists>c'. chans g' ch = Some c' \<and> (closed c \<longrightarrow> closed c'))) \<and>
     (\<forall>j job. pendingJobs g j = Some job \<longrightarrow>
        (\<exists>job'. pendingJobs g' j = Some job' \<and> pj_DoneCh job' = pj_DoneCh job) \<or>
        (\<exists>c. chans g' (pj_DoneCh job) = Some c \<and> closed c))"

lemma ends_well_same: "pendingJobs g' = pendingJobs g \<Longrightarrow> chans g' = chans g \<Longrightarrow> ends_well g g'"
  by (simp add: ends_well_def)

lemma ends_well_chan:
  "ends_well g g' \<Longrightarrow> chans g ch = Some c \<Longrightarrow> \<exists>c'. chans g' ch = Some c' \<and> (closed c \<longrightarrow> closed c')"
  by (simp add: ends_well_def)

lemma ends_well_job:
  "ends_well g g' \<Longrightarrow> pendingJobs g j = Some job \<Longrightarrow>
   (\<exists>job'. pendingJobs g' j = Some job' \<and> pj_DoneCh job' = pj_DoneCh job) \<or>
   (\<exists>c. chans g' (pj_DoneCh job) = Some c \<and> closed c)"
  by (simp add: ends_well_def)

lemma ends_well_trans:
  assumes "ends_well g g1" "ends_well g1 g2" shows "ends_well g g2"
proof -
  have "\<exists>c'. chans g2 ch = Some c' \<and> (closed c \<longrightarrow> closed c')" if "chans g ch = Some c" for ch c
    using ends_well_chan [OF assms(1) that] ends_well_chan [OF assms(2), of ch] by blast
  moreover have "(\<exists>job'. pendingJobs g2 j = Some job' \<and> pj_DoneCh job' = pj_DoneCh job) \<or>
      (\<exists>c. chans g2 (pj_DoneCh job) = Some c \<and> closed c)" if "pendingJobs g j = Some job" for j job
    using ends_well_job [OF assms(1) that]
  proof
    assume "\<exists>job'. pendingJobs g1 j = Some job' \<and> pj_DoneCh job' = pj_DoneCh job"
    then obtain job' where "pendingJobs g1 j = Some job'" "pj_DoneCh job' = pj_DoneCh job" by blast
    then show ?thesis using ends_well_job [OF assms(2)] by metis
  next
    assume "\<exists>c. chans g1 (pj_DoneCh job) = Some c \<and> closed c"
    then show ?thesis using ends_well_chan [OF assms(2)] by blast
  qed
  ultimately show ?thesis unfolding ends_well_def by blast
qed

lemma ends_well_finished:
  assumes "pendingJobs g j = Some job" "\<not> snd (close_chan g (pj_DoneCh job))"
    "pendingJobs g' = (pendingJobs g)(j := None)" "chans g' = chans (fst (close_chan g (pj_DoneCh job)))"
  shows "ends_well g g'"
  using assms(1,2) unfolding ends_well_def assms(3,4) by (auto simp: close_chan_def split: option.splits if_splits)

lemma ends_well_buffer:
  assumes "\<And>j job. pendingJobs g j = Some job \<Longrightarrow> \<exists>job'. pendingJobs g' j = Some job' \<and> pj_DoneCh job' = pj_DoneCh job"
    "chans g' = chans g \<or> (\<exists>ch c b. chans g ch = Some c \<and> chans g' = (chans g)(ch \<mapsto> c\<lparr>buffer := b\<rparr>))"
  shows "ends_well g g'"
  using assms unfolding ends_well_def by auto

lemma try_send_chans:
  "chans (try_send g ch x) = chans g \<or> (\<exists>ch' c b. chans g ch' = Some c \<and> chans (try_send g ch x) = (chans g)(ch' \<mapsto> c\<lparr>buffer := b\<rparr>))"
  "pendingJobs (try_send g ch x) = pendingJobs g"
  by (auto simp: try_send_def split: option.split)

lemma handleReject_ends_well: "channels_open g \<Longrightarrow> ends_well g (fst (handleReject g nc msg))"
proof (cases "pendingJobs g (msg_JobID msg)")
  case (Some job)
  assume o: "channels_open g"
  have "\<not> snd (close_chan g (pj_DoneCh job))" by (rule close_pending_ok [OF o Some])
  then show ?thesis
    by (auto simp: handleReject_def Some split_beta intro: ends_well_finished [OF Some])
qed (simp add: handleReject_def ends_well_same)

lemma handleProxyChunk_ends_well: "ends_well g (fst (handleProxyChunk g nc msg))"
proof (cases "pendingJobs g (msg_JobID msg)")
  case (Some job)
  let ?g = "g\<lparr>pendingJobs := (pendingJobs g)(msg_JobID msg \<mapsto> job\<lparr>pj_LastChunk := last_chunk (msg_Data msg) (pj_LastChunk job)\<rparr>)\<rparr>"
  have "ends_well g (try_send ?g (pj_ResponseCh job) (msg_Data msg))"
    using try_send_chans(1) [of ?g "pj_ResponseCh job" "msg_Data msg"]
    by (intro ends_well_buffer) (auto simp: try_send_chans(2) Some)
  then show ?thesis by (simp add: handleProxyChunk_def Some Let_def ends_well_same)
qed (simp add: handleProxyChunk_def ends_well_same)

lemma handleProxyDone_ends_well: "channels_open g \<Longrightarrow> ends_well g (fst (handleProxyDone g e c nc msg))"
proof (cases "pendingJobs g (msg_JobID msg)")
  case (Some job)
  assume o: "channels_open g"
  show ?thesis
  proof (cases "pj_NodeID job = nc_NodeID nc")
    case True
    note m = handleProxyDone_maps [OF prod.collapse [symmetric] Some True close_pending_ok [OF o Some]]
    show ?thesis by (rule ends_well_finished [OF Some close_pending_ok [OF o Some] m(1,3)])
  qed (simp add: handleProxyDone_def Some ends_well_same)
qed (simp add: handleProxyDone_def ends_well_same)

lemma handle_msg_ends_well:
  assumes "channels_open g" shows "ends_well g (fst (handle_msg g e c msg))"
proof (cases "conns g c")
  case (Some nc)
  have "ends_well g (fst (handleHeartbeat g e c nc msg))"
    by (rule ends_well_same) (simp_all add: handleHeartbeat_def Let_def split_beta split: option.split sum.split)
  moreover note handleReject_ends_well [OF assms, of nc msg] handleProxyChunk_ends_well [of g nc msg]
    handleProxyDone_ends_well [OF assms, of e c nc msg]
  moreover have "ends_well g (fst (g, False))" by (simp add: ends_well_same)
  ultimately show ?thesis using handle_msg_cases [OF Some, of e msg] by (elim insertE emptyE) metis+
qed (simp add: handle_msg_def ends_well_same)

lemma cleanup_ends_well:
  assumes "channels_open g" shows "ends_well g (fst (cleanup_tick g e))"
proof -
  obtain g1 js where r: "remove_expired g (e_now e) (e_order e) = (g1, js, False)"
    using remove_expired_open [OF _ assms] by (metis prod.collapse)
  have e: "pendingJobs (fst (cleanup_tick g e)) = pendingJobs g1" "chans (fst (cleanup_tick g e)) = chans g1"
    using settle_all_jobs [of g1 e js] by (simp_all add: cleanup_tick_def r)
  have "\<exists>c'. chans g1 ch = Some c' \<and> (closed c \<longrightarrow> closed c')" if "chans g ch = Some c" for ch c
  proof (cases "closed c")
    case True
    then show ?thesis using that remove_expired_keeps_closed [OF r, of ch] by blast
  next
    case False
    have "buf g1 ch = buf g ch" using quiet_remove_expired [of g "e_now e" "e_order e"] by (simp add: r quiet_def)
    then show ?thesis using that False by (auto simp: buf_def)
  qed
  moreover have "pendingJobs g1 j = Some job \<or> (\<exists>c. chans g1 (pj_DoneCh job) = Some c \<and> closed c)"
    if "pendingJobs g j = Some job" for j job
    using remove_expired_exact [OF r, of j job] that by (auto split: if_splits)
  ultimately show ?thesis unfolding ends_well_def e by blast
qed

lemma AssignJob_ends_well:
  assumes "channels_open g" "pendingJobs g j = None"
  shows "ends_well g (fst (AssignJob g e n j m k b f))"
proof (cases "snd (incrUserJobs g k)")
  case True
  then obtain g1 where g1: "incrUserJobs g k = (g1, True)" by (metis prod.collapse)
  have fr: "pendingJobs g1 = pendingJobs g" "chans g1 = chans g"
    using incrUserJobs_frame [of g k] by (simp_all add: g1)
  have fresh: "chans g ch = Some c \<Longrightarrow> ch \<noteq> next_chan g \<and> ch \<noteq> Suc (next_chan g)" for ch c
    using assms(1) unfolding channels_open_def by (metis le_SucI le_refl option.distinct(1))
  show ?thesis
  proof (cases "nodes g1 n")
    case None
    then show ?thesis using AssignJob_refused(2) [OF g1 None] by (simp add: fr ends_well_same)
  next
    case (Some c)
    obtain h ok where h: "AssignJob g e n j m k b f =
         (if \<not> ok then (decrUserJobs (h\<lparr>pendingJobs := (pendingJobs h)(j := None)\<rparr>) k, Inl ErrSend)
          else (h, Inr (next_chan g, Suc (next_chan g))))"
      "pendingJobs h = (pendingJobs g)(j \<mapsto> assigned_job g e n j m k b f)"
      "chans h = (chans g)(next_chan g \<mapsto> \<lparr>buffer = [], capacity = 64, closed = False\<rparr>,
         Suc (next_chan g) \<mapsto> \<lparr>buffer = [], capacity = 0, closed = False\<rparr>)"
      by (rule AssignJob_sending [OF g1 Some, of e j m b f]) assumption
    show ?thesis using assms(2) by (cases ok) (auto simp: h ends_well_def dest: fresh)
  qed
qed (simp add: AssignJob_refused(1) ends_well_same)

lemma gw_step_ends_well:
  assumes "channels_open g" "gw_step g ev g'" shows "ends_well g g'"
proof -
  have g': "g' = fst (gw_exec g ev)" and ok: "ev_ok g ev" using assms(2) by (auto elim: gw_stepE)
  show ?thesis
  proof (cases ev)
    case (EvMessage e c m)
    obtain h p where h: "handle_msg g e c m = (h, p)" by force
    have "ends_well h (ws_panicked h c)" by (rule ends_well_same) (simp_all add: ws_panicked_def)
    then show ?thesis
      using handle_msg_ends_well [OF assms(1), of e c m] ends_well_trans [of g h] by (simp add: g' EvMessage h)
  next
    case (EvAssign e n j m k b f)
    then show ?thesis using AssignJob_ends_well [OF assms(1)] ok by (simp add: g')
  next
    case (EvCleanup e)
    then show ?thesis using cleanup_ends_well [OF assms(1)] by (simp add: g')
  next
    case (EvReceive ch)
    show ?thesis unfolding g' EvReceive by (rule ends_well_buffer) (auto simp: receive_def split: option.split)
  qed (rule ends_well_same; simp add: g' HandleRegister_def HandleWS_connect_def HandleWS_disconnect_def ping_def Let_def
      split_beta split: option.split sum.split)+
qed

text \<open>The loop's done channel is that of its pending job, or it is closed.\<close>

definition watched :: "string \<Rightarrow> nat \<Rightarrow> Gateway \<Rightarrow> bool" where
  "watched j dc g \<longleftrightarrow> (\<exists>c. chans g dc = Some c \<and>
     (closed c \<or> (\<exists>job. pendingJobs g j = Some job \<and> pj_DoneCh job = dc)))"

lemma ends_well_watched: "watched j dc g \<Longrightarrow> ends_well g g' \<Longrightarrow> watched j dc g'"
  unfolding watched_def ends_well_def by metis

lemma receive_step: "gw_step g (EvReceive ch) (receive g ch)"
  by (rule gw_step.step) simp_all

lemma stream_run_watched:
  "stream_run j n rc dc s sent \<Longrightarrow> (\<exists>d b. reachable d b (fst s)) \<and> watched j dc (fst s)"
proof (induction rule: stream_run.induct)
  case (start d b g0 e m k body f g)
  have r: "reachable d b g"
    by (rule reachable.step [OF start(1) gw_step.step [of _ "EvAssign e n j m k body f"]])
      (simp_all add: start)
  have j: "\<exists>job. pendingJobs g j = Some job \<and> pj_DoneCh job = dc" using AssignJob_assigned [OF start(3)] by auto
  then have "\<exists>c. chans g dc = Some c"
    using reachable_inv [OF r] channels_openD unfolding gw_inv_def by blast
  then show ?case using r j by (auto simp: watched_def)
next
  case (gateway g written run sent ev g')
  then obtain d b where r: "reachable d b g" by auto
  then have "channels_open g" using reachable_inv by (simp add: gw_inv_def)
  then show ?case
    using gateway(2,4) gw_step_ends_well ends_well_watched reachable.step [OF r gateway(2)] by fastforce
next
  case (loop s sent gone s')
  then obtain d b where r: "reachable d b (fst s)" by auto
  then have o: "channels_open (fst s)" using reachable_inv by (simp add: gw_inv_def)
  have s': "fst s' = fst s \<or> fst s' = receive (fst s) rc" using loop(2) by (auto elim: stream_stepE)
  then show ?case
    using r loop.IH reachable.step [OF r receive_step] ends_well_watched [OF _ gw_step_ends_well [OF o receive_step]]
    by metis
qed

section \<open>The loop ends\<close>

text \<open>What the loop can still do by itself: write the chunks that wait, and return.\<close>

fun steps_left :: "nat \<Rightarrow> stream \<Rightarrow> nat" where
  "steps_left rc (g, written, run) = (if run then Suc (case buf g rc of None \<Rightarrow> 0 | Some b \<Rightarrow> length b) else 0)"

lemma stream_step_less: "stream_step rc dc gone s s' \<Longrightarrow> steps_left rc s' < steps_left rc s"
  by (erule stream_step.cases) (auto simp: buf_def receive_def split: option.splits)

lemma stream_steps_bound: "(stream_step rc dc gone ^^ k) s s' \<Longrightarrow> k + steps_left rc s' \<le> steps_left rc s"
proof (induction k arbitrary: s')
  case (Suc k)
  then obtain s1 where "(stream_step rc dc gone ^^ k) s s1" "stream_step rc dc gone s1 s'" by auto
  then show ?case using Suc.IH stream_step_less by fastforce
qed simp

lemma receive_keeps_closed: "\<exists>c. chans g ch = Some c \<and> closed c \<Longrightarrow> \<exists>c. chans (receive g rc) ch = Some c \<and> closed c"
  by (auto simp: receive_def split: option.split)

lemma stream_steps_closed:
  "(stream_step rc dc gone ^^ k) s s' \<Longrightarrow> \<exists>c. chans (fst s) dc = Some c \<and> closed c \<Longrightarrow>
   \<exists>c. chans (fst s') dc = Some c \<and> closed c"
proof (induction k arbitrary: s')
  case (Suc k)
  then obtain s1 where s1: "(stream_step rc dc gone ^^ k) s s1" "stream_step rc dc gone s1 s'" by auto
  have "fst s' = fst s1 \<or> fst s' = receive (fst s1) rc" using s1(2) by (auto elim: stream_stepE)
  then show ?case using Suc.IH [OF s1(1) Suc.prems(2)] receive_keeps_closed by metis
qed simp

lemma closed_returns:
  "\<exists>c. chans g dc = Some c \<and> closed c \<Longrightarrow> stream_step rc dc gone (g, written, True) (g, written, False)"
  using stream_step.job_done by blast

text \<open>
  C11: the streaming loop cannot outlive its job. It waits, its buyer still there and no case of the \<open>select\<close> ready,
  only while the job is pending. Once the job is no longer pending, however it ended, the loop can return at any
  moment without the buyer's doing, and whichever ready case it takes each time, it makes at most one more turn
  for every chunk that waits and one to return.
\<close>

theorem stream_ends_with_job:
  assumes "stream_run j n rc dc (g, written, True) sent"
  shows "((\<nexists>s'. stream_step rc dc gone (g, written, True) s') \<longrightarrow>
      \<not> gone \<and> (\<exists>job. pendingJobs g j = Some job \<and> pj_DoneCh job = dc)) \<and>
    (pendingJobs g j = None \<longrightarrow>
      (\<forall>k h w run. (stream_step rc dc gone ^^ k) (g, written, True) (h, w, run) \<longrightarrow>
        k \<le> Suc (length (the (buf g rc))) \<and> (run \<longrightarrow> stream_step rc dc False (h, w, True) (h, w, False))))"
proof (intro conjI impI allI)
  have w: "watched j dc g" using stream_run_watched [OF assms] by simp
  obtain b where b: "buf g rc = Some b" using stream_run_inv [OF assms] by auto
  show "\<not> gone" if "\<nexists>s'. stream_step rc dc gone (g, written, True) s'"
    using that stream_step.buyer_gone by blast
  show "\<exists>job. pendingJobs g j = Some job \<and> pj_DoneCh job = dc" if "\<nexists>s'. stream_step rc dc gone (g, written, True) s'"
    using that w closed_returns unfolding watched_def by blast
  fix k h w' run
  assume none: "pendingJobs g j = None" and k: "(stream_step rc dc gone ^^ k) (g, written, True) (h, w', run)"
  show "k \<le> Suc (length (the (buf g rc)))" using stream_steps_bound [OF k] by (simp add: b)
  have "\<exists>c. chans g dc = Some c \<and> closed c" using w none by (auto simp: watched_def)
  then show "stream_step rc dc False (h, w', True) (h, w', False)"
    using stream_steps_closed [OF k] closed_returns by (simp del: split_paired_Ex)
qed

text \<open>The chunk that waits at the end of the job can still be written, and then the loop can return.\<close>

theorem stream_ends_with_job_witness:
  "(stream_step 0 1 False ^^ 1) (finished, [], True) (receive finished 0, [''answer''], True) \<and>
   stream_step 0 1 False (receive finished 0, [''answer''], True) (receive finished 0, [''answer''], False)"
proof -
  have a: "(stream_step 0 1 False ^^ 1) (finished, [], True) (receive finished 0, [''answer''], True)"
    using stream_step.chunk [OF finished_state(2), of "''answer''" "[]" 1 False "[]"] by (simp only: relpowp_1 append_Nil chan.simps)
  then show ?thesis
    using stream_ends_with_job [OF example_run, of False] finished_state(1) by blast
qed

end
