(* ===== verification/Topup.thy ===== *)
theory Topup
  imports Api Invoices
begin

text \<open>
  Topping up from end to end: the API's \<open>HandleTopUp\<close>, the invoice LND makes, and the watcher that credits it.
\<close>

section \<open>What a top-up stores\<close>

lemma ValidateUserKey_account: "ValidateUserKey d b k now = Inr x \<Longrightarrow> accounts b k \<noteq> None"
  by (auto simp: ValidateUserKey_def accounts_def split: if_splits option.splits)

lemma HandleTopUp_cases:
  assumes "HandleTopUp invoicer a g w e r = (g', w', resp)"
  obtains (none) "g' = g" "fst resp \<noteq> 200"
  | (stored) key sats create bolt11 h where "bearer r = Some key" "accounts (db g) key \<noteq> None" "10 \<le> sats" "sats \<le> 100000"
      "invoicer = Some create" "create w sats topup_memo = (w', Inr (bolt11, h))"
      "g' = g\<lparr>db := fst (CreateInvoice (ae_db e ApiCreateInvoice) (db g) h key (sats * 1000) bolt11 (ae_stamp e))\<rparr>"
      "fst resp = 200 \<longleftrightarrow> snd (CreateInvoice (ae_db e ApiCreateInvoice) (db g) h key (sats * 1000) bolt11 (ae_stamp e)) = None"
      "q_Method r = ''POST''" "decode_first dec_amount (q_Body r) 0 = (sats, False)"
proof (cases "q_Method r = ''POST'' \<and> bearer r \<noteq> None")
  case True
  then obtain key where key: "q_Method r = ''POST''" "bearer r = Some key" by blast
  obtain sats err where d: "decode_first dec_amount (q_Body r) 0 = (sats, err)" by force
  note def = assms [unfolded HandleTopUp_def]
  show ?thesis
  proof (cases "(\<exists>x. ValidateUserKey (ae_db e ApiValidate) (db g) key (ae_now e) = Inr x) \<and> \<not> err \<and> 10 \<le> sats \<and> sats \<le> 100000")
    case False
    then show ?thesis
      using def none key d by (cases "ValidateUserKey (ae_db e ApiValidate) (db g) key (ae_now e)") (auto split: if_splits)
  next
    case True
    then obtain x where x: "ValidateUserKey (ae_db e ApiValidate) (db g) key (ae_now e) = Inr x" by blast
    have sats: "\<not> err" "\<not> sats \<le> 0" "\<not> (sats < 10 \<or> 100000 < sats)" "10 \<le> sats" "sats \<le> 100000"
      "wrap64 (sats * 1000) = sats * 1000" using True by (auto simp: in_int64_def)
    show ?thesis
    proof (cases invoicer)
      case None
      then show ?thesis using def none key d x sats by auto
    next
      case (Some create)
      obtain w1 res where c: "create w sats topup_memo = (w1, res)" by force
      show ?thesis
      proof (cases res)
        case (Inl y)
        then show ?thesis using def none key d x sats Some c by auto
      next
        case (Inr y)
        obtain bolt11 h where y: "y = (bolt11, h)" by force
        let ?r = "CreateInvoice (ae_db e ApiCreateInvoice) (db g) h key (sats * 1000) bolt11 (ae_stamp e)"
        have "g' = g\<lparr>db := fst ?r\<rparr>" "w' = w1" "fst resp = 200 \<longleftrightarrow> snd ?r = None"
          using def key d x sats Some c Inr y by (auto simp: split_beta split: if_splits)
        then show ?thesis
          using stored [of key sats create bolt11 h] key d sats ValidateUserKey_account [OF x] Some c Inr y by simp
      qed
    qed
  qed
next
  case False
  show ?thesis
  proof (cases "q_Method r = ''POST''")
    case True
    then have "bearer r = None" using False by simp
    then have "(g, w, (401, api_error ''missing API key'')) = (g', w', resp)" using assms True by (simp add: HandleTopUp_def)
    then show ?thesis using none by auto
  next
    case False
    then have "(g, w, (405, Text ''method not allowed'')) = (g', w', resp)" using assms by (simp add: HandleTopUp_def)
    then show ?thesis using none by auto
  qed
qed

section \<open>An example\<close>

definition topup_db :: DB where
  "topup_db = empty_db\<lparr>tbl_api_keys :=
     [\<lparr>k_key = ''rc_user'', k_user_id = ''u'', k_name = ''n'', k_quota_daily = 10, k_balance_msats = 0\<rparr>]\<rparr>"

definition topup_env :: api_env where
  "topup_env = \<lparr>ae_now = 0, ae_stamp = 0, ae_random = None, ae_uuid = ''id'', ae_db = (\<lambda>_. no_faults)\<rparr>"

definition topup_request :: api_request where
  \<open>topup_request = \<lparr>q_Method = ''POST'', q_RemoteAddr = ''a'', q_XRealIp = '''', q_Authorization = ''Bearer rc_user'',
     q_XPlayground = '''', q_Body = ''{"amount_sats":1000}'', q_BodyErr = False\<rparr>\<close>

lemma topup_answer:
  assumes "create w 1000 topup_memo = (w', Inr (bolt11, h))"
  shows "HandleTopUp (Some create) a (New_gateway topup_db bl) w topup_env topup_request =
    (New_gateway (fst (CreateInvoice no_faults topup_db h ''rc_user'' 1000000 bolt11 0)) bl, w',
     (200, Json (VObj [(''amount_sats'', VInt 1000), (''expires_in'', VInt 600), (''invoice'', VStr bolt11), (''payment_hash'', VStr h)])))"
proof -
  have d: \<open>decode_first dec_amount ''{"amount_sats":1000}'' 0 = (1000, False)\<close> by code_simp
  have v: "ValidateUserKey no_faults topup_db ''rc_user'' 0 = Inr (''u'', 10)"
    by (simp add: ValidateUserKey_def topup_db_def no_faults_def empty_db_def in_int64_def)
  have c: "snd (CreateInvoice no_faults topup_db h ''rc_user'' 1000000 bolt11 0) = None"
    by (simp add: CreateInvoice_def topup_db_def empty_db_def no_faults_def)
  have "bearer topup_request = Some ''rc_user''"
    by (simp add: bearer_def topup_request_def HasPrefix_def TrimPrefix_def)
  then show ?thesis
    using assms c by (simp add: HandleTopUp_def topup_request_def topup_env_def New_gateway_def v d split_beta in_int64_def)
qed

section \<open>Properties\<close>

text \<open>
  C18: a top-up that is answered with an invoice was asked for by the holder of a known key, and is stored
  pending, for that key, under LND's payment hash, which was not in use, with the amount asked for: 10 to
  100000 sats. No balance changes before the invoice is paid.
\<close>

theorem topup_stored:
  assumes "HandleTopUp invoicer a g w e r = (g', w', (200, b))"
  shows "\<exists>key sats create bolt11 h i. bearer r = Some key \<and> accounts (db g) key \<noteq> None \<and> 10 \<le> sats \<and> sats \<le> 100000 \<and>
    invoicer = Some create \<and> create w sats topup_memo = (w', Inr (bolt11, h)) \<and>
    status_of (db g) h = None \<and> find (\<lambda>i. i_payment_hash i = h) (tbl_invoices (db g')) = Some i \<and>
    i_status i = ''pending'' \<and> i_user_key i = key \<and> i_amount_msats i = sats * 1000 \<and> i_bolt11 i = bolt11 \<and>
    accounts (db g') = accounts (db g)"
  using assms
proof (cases rule: HandleTopUp_cases)
  case (stored key sats create bolt11 h)
  let ?r = "CreateInvoice (ae_db e ApiCreateInvoice) (db g) h key (sats * 1000) bolt11 (ae_stamp e)"
  let ?i = "\<lparr>i_payment_hash = h, i_user_key = key, i_amount_msats = sats * 1000, i_bolt11 = bolt11,
    i_status = ''pending'', i_created_at = secs (ae_stamp e)\<rparr>"
  have ok: "\<not> list_ex (\<lambda>i. i_payment_hash i = h) (tbl_invoices (db g))"
    "fst ?r = (db g)\<lparr>tbl_invoices := tbl_invoices (db g) @ [?i]\<rparr>"
    using stored(8) by (auto simp: CreateInvoice_def split: if_splits)
  then have new: "find (\<lambda>i. i_payment_hash i = h) (tbl_invoices (db g)) = None"
    by (simp add: list_ex_find)
  then have "find (\<lambda>i. i_payment_hash i = h) (tbl_invoices (db g')) = Some ?i" "status_of (db g) h = None"
    "accounts (db g') = accounts (db g)"
    using stored(7) ok(2) by (simp_all add: find_append status_of_def accounts_def fun_eq_iff)
  then show ?thesis
    by - (rule exI [of _ key], rule exI [of _ sats], rule exI [of _ create], rule exI [of _ bolt11], rule exI [of _ h],
        rule exI [of _ ?i], use stored(1-6) in simp)
qed simp

theorem topup_stored_witness:
  "\<forall>bi bl. status_of (db (fst (HandleTopUp (Some (\<lambda>w n m. (w, Inr (''lnbc'', ''01020304'')))) (New_api bi)
     (New_gateway topup_db bl) () topup_env topup_request))) ''01020304'' = Some ''pending''"
proof (intro allI)
  fix bi bl
  let ?create = "\<lambda>(w :: unit) (n :: int) (m :: string). (w, Inr (''lnbc'', ''01020304'') :: lnd_error + string \<times> string)"
  obtain b g' where r: "HandleTopUp (Some ?create) (New_api bi) (New_gateway topup_db bl) () topup_env topup_request = (g', (), (200, b))"
    using topup_answer [of ?create "()" "()"] by simp
  show "status_of (db (fst (HandleTopUp (Some (\<lambda>w n m. (w, Inr (''lnbc'', ''01020304'')))) (New_api bi)
     (New_gateway topup_db bl) () topup_env topup_request))) ''01020304'' = Some ''pending''"
    using topup_stored [OF r] unfolding r by (auto simp: status_of_def)
qed

section \<open>An error of LND that is taken for an invoice\<close>

lemma watch_all_panics:
  "i \<in> set ivs \<Longrightarrow> length (i_payment_hash i) < 8 \<Longrightarrow> (\<And>u. \<exists>err. snd (check u (i_payment_hash i)) = Inl err) \<Longrightarrow>
   snd (snd (watch_all check e ivs d w))"
proof (induction ivs arbitrary: d w)
  case (Cons iv ivs)
  obtain d1 w1 p1 where s: "watch_one check e iv d w = (d1, w1, p1)" by (metis prod.collapse)
  have "p1" if "iv = i" using that s Cons.prems(2) Cons.prems(3) [of w] by (auto simp: watch_one_def split_beta)
  then show ?case using Cons s by (cases p1) auto
qed simp

text \<open>
  C35: when LND answers the request for an invoice with an error object, whatever its status, the top-up still
  succeeds, with an empty payment hash; and if LND then does not know that hash, the next tick of the
  watcher that sees the invoice panics, which ends the process.
\<close>

theorem unchecked_invoice_crashes:
  assumes "HandleTopUp (Some (CreateInvoice_lnd c net)) a g w e r = (g', w', (200, b))"
    and "\<And>call. \<exists>status reply. net w call = Reply status reply \<and>
      decode_first dec_add_invoice reply \<lparr>ai_request = '''', ai_r_hash = ''''\<rparr> = (\<lparr>ai_request = '''', ai_r_hash = ''''\<rparr>, False)"
    and "\<And>u. \<exists>err. snd (check u '''') = Inl err"
    and "\<not> fails (we_expire we) 0" "\<not> fails (we_query we) 0" "rows_read (we_query we) = None"
      "we_now we \<le> ae_stamp e + 600000000000"
  shows "snd (snd (watcher_tick (Some check) we (db g') u))"
  using assms(1)
proof (cases rule: HandleTopUp_cases)
  case (stored key sats create bolt11 h)
  let ?i = "\<lparr>i_payment_hash = h, i_user_key = key, i_amount_msats = sats * 1000, i_bolt11 = bolt11,
    i_status = ''pending'', i_created_at = secs (ae_stamp e)\<rparr>"
  have "b64ToHex '''' = ''''" by (simp add: b64ToHex_def b64_decode_def)
  then have h: "h = ''''"
    using stored(5,6) assms(2) [of "lnd_call c ''POST'' ''/v1/invoices'' (Some (invoice_payload sats topup_memo))"]
    by (auto simp: CreateInvoice_lnd_def send_http_def)
  have "tbl_invoices (db g') = tbl_invoices (db g) @ [?i]"
    using stored(7,8) by (auto simp: CreateInvoice_def split: if_splits)
  moreover have "\<not> overdue (we_now we) ?i"
    using assms(7) by (simp add: overdue_def ago_def secs_def)
  ultimately have "?i \<in> set (filter (\<lambda>i. i_status i = ''pending'')
      (tbl_invoices (fst (ExpireOldInvoices (we_expire we) (db g') (we_now we)))))"
    using assms(4) by (simp add: ExpireOldInvoices_def)
  then show ?thesis
    using watch_all_panics [of ?i _ check] assms(3,5,6) h
    by (simp add: watcher_tick_def PendingInvoices_def deliver_def Let_def)
qed simp


text \<open>A node whose wallet is locked.\<close>

definition locked_net :: net where
  \<open>locked_net w call = Reply 500 ''{"error":"wallet locked"}''\<close>

theorem unchecked_invoice_crashes_witness:
  "\<forall>c bi bl. snd (snd (watcher_tick (Some (CheckInvoice c locked_net)) watch_calm
     (db (fst (HandleTopUp (Some (CreateInvoice_lnd c locked_net)) (New_api bi) (New_gateway topup_db bl) [] topup_env
        topup_request))) []))"
proof (intro allI)
  fix c bi bl
  have d: \<open>decode_first dec_add_invoice ''{"error":"wallet locked"}'' \<lparr>ai_request = '''', ai_r_hash = ''''\<rparr> =
      (\<lparr>ai_request = '''', ai_r_hash = ''''\<rparr>, False)\<close> by code_simp
  let ?reply = \<open>''{"error":"wallet locked"}''\<close>
  have net: "locked_net v call = Reply 500 ?reply" for v call by (simp only: locked_net_def)
  have empty: "b64ToHex '''' = ''''" by (simp add: b64ToHex_def b64_decode_def)
  obtain w' where w': "CreateInvoice_lnd c locked_net [] 1000 topup_memo = (w', Inr ('''', ''''))"
    by (simp only: CreateInvoice_lnd_def send_http_def net http_reply.case d split_conv Let_def if_False add_invoice.simps empty)
  have lookup: "\<exists>err. snd (CheckInvoice c locked_net u '''') = Inl err" for u
    by (simp add: CheckInvoice_def send_http_def net)
  obtain g' b where r: "HandleTopUp (Some (CreateInvoice_lnd c locked_net)) (New_api bi) (New_gateway topup_db bl) []
      topup_env topup_request = (g', w', (200, b))" by (simp add: topup_answer [of "CreateInvoice_lnd c locked_net", OF w'])
  have "snd (snd (watcher_tick (Some (CheckInvoice c locked_net)) watch_calm (db g') []))"
  proof (rule unchecked_invoice_crashes [OF r])
    show "\<exists>status reply. locked_net [] call = Reply status reply \<and>
        decode_first dec_add_invoice reply \<lparr>ai_request = '''', ai_r_hash = ''''\<rparr> = (\<lparr>ai_request = '''', ai_r_hash = ''''\<rparr>, False)"
      for call using net d by blast
  qed (rule lookup, simp_all add: watch_calm_def no_faults_def topup_env_def)
  then show "snd (snd (watcher_tick (Some (CheckInvoice c locked_net)) watch_calm
     (db (fst (HandleTopUp (Some (CreateInvoice_lnd c locked_net)) (New_api bi) (New_gateway topup_db bl) [] topup_env
        topup_request))) []))" by (simp add: r)
qed

end
