(* ===== verification/Settlement.thy ===== *)
theory Settlement
  imports Slots
begin

text \<open>
  What the gateway does to the books. Every change of the database by a handler is a run of store
  operations that keeps the ledger's contract; a job is recorded with capped amounts and an owner, and
  a buyer is only charged for a recorded job of theirs, never more than it cost.
\<close>

section \<open>What a buyer can have been charged for\<close>

definition billed :: "DB \<Rightarrow> string \<Rightarrow> int" where
  "billed d k = sum_list (map (\<lambda>j. j_earned_msats j + j_fee_msats j)
     (filter (\<lambda>j. j_user_key j = k \<and> \<not> j_free_tier j) (tbl_jobs d)))"

definition row_ok :: "Job \<Rightarrow> bool" where
  "row_ok j \<longleftrightarrow> capped (j_earned_msats j) (j_fee_msats j) \<and> tokens_ok (j_tokens_in j) \<and>
     tokens_ok (j_tokens_out j) \<and> j_status j = ''complete''"

definition books_ok :: "DB \<Rightarrow> bool" where
  "books_ok d \<longleftrightarrow> (\<exists>sp. ledger_run sp d \<and> (\<forall>k. sp k \<le> billed d k)) \<and> (\<forall>j\<in>set (tbl_jobs d). row_ok j)"

definition engine_ok :: "Engine \<Rightarrow> bool" where
  "engine_ok b \<longleftrightarrow> wf_engine b \<and> priced b"

lemma books_okI:
  "ledger_run sp d \<Longrightarrow> (\<And>k. sp k \<le> billed d k) \<Longrightarrow> (\<And>j. j \<in> set (tbl_jobs d) \<Longrightarrow> row_ok j) \<Longrightarrow> books_ok d"
  unfolding books_ok_def by blast

lemma spend_shared: "shared_op op \<Longrightarrow> spend sp d op = sp"
  by (cases op) auto

lemma jobs_shared: "shared_op op \<Longrightarrow> tbl_jobs (db_step d op) = tbl_jobs d"
proof (cases op)
  case (OpCreditInvoice dr h)
  then show ?thesis by (cases rule: CreditInvoice_cases [of dr d h]) simp_all
qed (auto simp: RegisterNode_def Let_def CreateUserKey_def CreateInvoice_def ExpireOldInvoices_def RecordPayout_def)

lemma books_shared:
  assumes "books_ok d" "shared_op op" "op_ok d op" shows "books_ok (db_step d op)"
proof -
  obtain sp where sp: "ledger_run sp d" "\<And>k. sp k \<le> billed d k" using assms(1) by (auto simp: books_ok_def)
  have "ledger_run sp (db_step d op)"
    using ledger_run.step [OF sp(1) assms(3)] spend_shared [OF assms(2)] by simp
  then show ?thesis
    using assms(1) sp(2) jobs_shared [OF assms(2), of d] by (auto simp: books_ok_def billed_def)
qed

lemma tbl_jobs_add_balance: "billed (add_balance d k a) = billed d"
  by (simp add: billed_def fun_eq_iff)

section \<open>Recording and charging\<close>

lemma record_job_cases:
  obtains (failed) "record_job g e job i out p f = (g, False)"
  | (recorded) d' where "record_job g e job i out p f = (g\<lparr>db := d'\<rparr>, True)"
      "d' = db_step (db g) (OpRecordJob (e_db e (DbRecordJob (pj_JobID job))) (job_row job i out p f)
         (pj_StartedAt job) (Some (e_now e)))"
      "tbl_jobs d' = tbl_jobs (db g) @ [(job_row job i out p f)\<lparr>j_started_at := secs (pj_StartedAt job),
         j_completed_at := Some (secs (e_now e))\<rparr>]"
proof (cases "snd (RecordJob (e_db e (DbRecordJob (pj_JobID job))) (db g) (job_row job i out p f)
    (pj_StartedAt job) (Some (e_now e)))")
  case None
  let ?d = "fst (RecordJob (e_db e (DbRecordJob (pj_JobID job))) (db g) (job_row job i out p f)
    (pj_StartedAt job) (Some (e_now e)))"
  have "record_job g e job i out p f = (g\<lparr>db := ?d\<rparr>, True)" using None by (simp add: record_job_def split_beta)
  moreover have "tbl_jobs ?d = tbl_jobs (db g) @ [(job_row job i out p f)\<lparr>j_started_at := secs (pj_StartedAt job),
      j_completed_at := Some (secs (e_now e))\<rparr>]"
    using None by (auto simp: RecordJob_def split: if_splits)
  ultimately show ?thesis by (metis db_step.simps(2) recorded)
next
  case (Some err)
  then have "fst (RecordJob (e_db e (DbRecordJob (pj_JobID job))) (db g) (job_row job i out p f)
    (pj_StartedAt job) (Some (e_now e))) = db g"
    by (auto simp: RecordJob_def split: if_splits)
  then show ?thesis using failed Some by (simp add: record_job_def split_beta)
qed

text \<open>What a recorded job and a charge do to the ledger, whatever was drawn before.\<close>

definition due_for :: "PendingJob \<Rightarrow> int \<Rightarrow> string \<Rightarrow> int" where
  "due_for job t k = (if k = pj_UserKey job \<and> \<not> pj_FreeTier job then t else 0)"

lemma record_ledger:
  assumes "ledger_run sp (db g)" "\<forall>j\<in>set (tbl_jobs (db g)). row_ok j" "capped p f" "tokens_ok i" "tokens_ok out"
    and "record_job g e job i out p f = (g', True)"
  shows "ledger_run sp (db g') \<and> (\<forall>k. billed (db g') k = billed (db g) k + due_for job (p + f) k) \<and>
    (\<forall>j\<in>set (tbl_jobs (db g')). row_ok j) \<and> bill g' = bill g"
proof (cases rule: record_job_cases [of g e job i out p f])
  case (recorded d')
  have g': "db g' = d'" "bill g' = bill g" using assms(6) recorded(1) by auto
  have "ledger_run sp d'" using ledger_run.step [OF assms(1)] unfolding recorded(2) by (metis op_ok.simps(4) spend.simps(3))
  moreover have "billed d' k = billed (db g) k + due_for job (p + f) k" for k
    by (simp add: billed_def recorded(3) job_row_def due_for_def)
  moreover have "\<forall>j\<in>set (tbl_jobs d'). row_ok j"
    using assms(2-5) by (auto simp: recorded(3) row_ok_def job_row_def)
  ultimately show ?thesis using g' by simp
qed (use assms(6) in simp)

lemma record_failed: "record_job g e job i out p f = (g', False) \<Longrightarrow> g' = g"
  by (cases rule: record_job_cases [of g e job i out p f]) auto

lemma charge_ledger:
  assumes "ledger_run sp (db g)" "0 \<le> t"
  shows "\<exists>sp'. ledger_run sp' (db (fst (charge_user g e job t))) \<and> (\<forall>k. sp' k \<le> sp k + due_for job t k) \<and>
    tbl_jobs (db (fst (charge_user g e job t))) = tbl_jobs (db g) \<and> bill (fst (charge_user g e job t)) = bill g"
proof (cases "t > 0 \<and> \<not> pj_FreeTier job")
  case True
  let ?k = "pj_UserKey job" and ?dr = "e_db e DbDeductBalance"
  have c: "fst (charge_user g e job t) = g\<lparr>db := fst (DeductBalance ?dr (db g) ?k t)\<rparr>"
    using True by (simp add: charge_user_def split_beta)
  show ?thesis
  proof (cases rule: DeductBalance_cases [of ?dr "db g" ?k t])
    case failed
    then show ?thesis unfolding c using assms by (intro exI [of _ sp]) (simp add: due_for_def)
  next
    case (drawn b)
    have "ledger_run (sp(?k := sp ?k + t)) (add_balance (db g) ?k (- t))"
      using ledger_run.step [OF assms(1), of "OpDeductBalance ?dr ?k t"] assms(2) drawn(1) by simp
    then show ?thesis
      unfolding c drawn(1) by (intro exI [of _ "sp(?k := sp ?k + t)"]) (simp add: due_for_def True)
  qed
next
  case False
  then have "charge_user g e job t = (g, False)" by (auto simp: charge_user_def)
  then show ?thesis using assms by (intro exI [of _ sp]) (simp add: due_for_def)
qed

lemma due_for_nonneg: "0 \<le> t \<Longrightarrow> 0 \<le> due_for job t k"
  by (simp add: due_for_def)

lemma record_job_books:
  assumes "books_ok (db g)" "capped p f" "tokens_ok i" "tokens_ok out"
  shows "books_ok (db (fst (record_job g e job i out p f)))"
proof -
  obtain g' r where g': "record_job g e job i out p f = (g', r)" by force
  obtain sp where sp: "ledger_run sp (db g)" "\<And>k. sp k \<le> billed (db g) k" "\<forall>j\<in>set (tbl_jobs (db g)). row_ok j"
    using assms(1) by (auto simp: books_ok_def)
  show ?thesis
  proof (cases r)
    case True
    then have "record_job g e job i out p f = (g', True)" using g' by simp
    note l = record_ledger [OF sp(1,3) assms(2-4) this]
    have "0 \<le> due_for job (p + f) k" for k using assms(2) by (intro due_for_nonneg) (simp add: capped_def)
    then have "sp k \<le> billed (db g') k" for k using l sp(2) [of k] by (simp add: add_increasing2)
    then show ?thesis using l by (intro books_okI [of sp]) (simp_all add: g')
  next
    case False
    then show ?thesis using record_failed g' assms(1) by (metis fst_conv)
  qed
qed

lemma charge_books:
  assumes "books_ok (db g)" "capped p f" "tokens_ok i" "tokens_ok out"
    and "record_job g e job i out p f = (g1, True)"
  shows "books_ok (db (fst (charge_user g1 e job (wrap64 (p + f)))))"
proof -
  have pf: "wrap64 (p + f) = p + f" "0 \<le> p + f" using assms(2) by (simp_all add: capped_def in_int64_def)
  obtain sp where sp: "ledger_run sp (db g)" "\<And>k. sp k \<le> billed (db g) k" "\<forall>j\<in>set (tbl_jobs (db g)). row_ok j"
    using assms(1) by (auto simp: books_ok_def)
  note r = record_ledger [OF sp(1,3) assms(2-5)]
  then obtain sp' where c: "ledger_run sp' (db (fst (charge_user g1 e job (p + f))))"
      "\<And>k. sp' k \<le> sp k + due_for job (p + f) k"
      "tbl_jobs (db (fst (charge_user g1 e job (p + f)))) = tbl_jobs (db g1)"
    using charge_ledger [of sp g1 "p + f" e job] pf(2) by blast
  have "sp' k \<le> billed (db g1) k" for k using c(2) [of k] sp(2) [of k] r by simp
  then show ?thesis using r c(1,3) unfolding pf(1) by (intro books_okI [of sp']) (simp_all add: billed_def)
qed

section \<open>Every step keeps the books\<close>

lemma meter_job_ok:
  assumes "engine_ok b" "meter_job b model s = ((i, out), g, p, f)"
  shows "tokens_ok i" "tokens_ok out" "capped p f"
  using meter_job_bounds_lib [of b model s i out g p f] assms by (auto simp: engine_ok_def priced_def)

definition sound :: "Gateway \<Rightarrow> bool" where
  "sound g \<longleftrightarrow> books_ok (db g) \<and> engine_ok (bill g)"

lemma sound_cong: "db g' = db g \<Longrightarrow> bill g' = bill g \<Longrightarrow> sound g' = sound g"
  by (simp add: sound_def)

text \<open>What the end of a job does to the database and the engine; \<open>g3\<close> is the state in which the job is recorded.\<close>

lemma handleProxyDone_store:
  assumes "pendingJobs g (msg_JobID msg) = Some job" "pj_NodeID job = nc_NodeID nc"
    and "meter_job (bill g) (pj_Model job) (pj_LastChunk job) = ((i, out), usd, p, f)"
  obtains g3 where "db g3 = db g" "bill g3 = bill g" "bill (fst (handleProxyDone g e c nc msg)) = bill g"
    "db (fst (handleProxyDone g e c nc msg)) =
      (if snd (close_chan g (pj_DoneCh job)) then db g
       else if \<not> snd (record_job g3 e job i out p f) then db (fst (record_job g3 e job i out p f))
       else db (fst (charge_user (fst (record_job g3 e job i out p f)) e job (wrap64 (p + f)))))"
proof -
  define g1 where "g1 = g\<lparr>pendingJobs := (pendingJobs g)(msg_JobID msg := None)\<rparr>"
  obtain g2 panic where g2: "close_chan g1 (pj_DoneCh job) = (g2, panic)" by force
  define g3 where "g3 = decrUserJobs g2 (pj_UserKey job)"
  have panic: "snd (close_chan g (pj_DoneCh job)) = panic"
    using g2 by (auto simp: close_chan_def g1_def split: option.splits if_splits)
  have "db g2 = db g1" "bill g2 = bill g1"
    using close_chan_frame(7,8) [of g1 "pj_DoneCh job"] unfolding g2 by (simp_all only: fst_conv)
  then have s3: "db g2 = db g" "bill g2 = bill g" "db g3 = db g" "bill g3 = bill g" by (simp_all add: g1_def g3_def)
  obtain g4 rec where r: "record_job g3 e job i out p f = (g4, rec)" by force
  have b4: "bill g4 = bill g" using record_job_frame(8) [of g3 e job i out p f] s3 by (simp add: r)
  have "db (fst (handleProxyDone g e c nc msg)) =
      (if panic then db g else if \<not> rec then db g4 else db (fst (charge_user g4 e job (wrap64 (p + f)))))"
    "bill (fst (handleProxyDone g e c nc msg)) = bill g"
    using s3 g2 assms r b4 by (simp_all add: handleProxyDone_def split_beta Let_def g1_def [symmetric] g3_def [symmetric])
  then show ?thesis using that [of g3] s3 panic r by simp
qed

lemma handleProxyDone_sound:
  assumes "sound g" shows "sound (fst (handleProxyDone g e c nc msg))"
proof (cases "pendingJobs g (msg_JobID msg)")
  case (Some job)
  show ?thesis
  proof (cases "pj_NodeID job = nc_NodeID nc")
    case True
    obtain i out usd p f where m: "meter_job (bill g) (pj_Model job) (pj_LastChunk job) = ((i, out), usd, p, f)"
      by (metis prod.collapse)
    have ok: "tokens_ok i" "tokens_ok out" "capped p f"
      using meter_job_ok [OF _ m] assms by (simp_all add: sound_def)
    from Some True m show ?thesis
    proof (rule handleProxyDone_store [of g msg job nc i out usd p f e c])
      fix g3 assume g3: "db g3 = db g" "bill (fst (handleProxyDone g e c nc msg)) = bill g" and
        d: "db (fst (handleProxyDone g e c nc msg)) = (if snd (close_chan g (pj_DoneCh job)) then db g
          else if \<not> snd (record_job g3 e job i out p f) then db (fst (record_job g3 e job i out p f))
          else db (fst (charge_user (fst (record_job g3 e job i out p f)) e job (wrap64 (p + f)))))"
      have "books_ok (db g3)" using assms g3(1) by (simp add: sound_def)
      then have "books_ok (db (fst (handleProxyDone g e c nc msg)))"
        using record_job_books [OF _ ok(3,1,2), of g3 e job] assms unfolding d
        by (auto simp: sound_def intro!: charge_books [OF _ ok(3,1,2), of g3 e job] simp: prod_eq_iff)
      then show ?thesis using assms g3(2) by (simp add: sound_def)
    qed
  qed (use assms Some in \<open>simp add: handleProxyDone_def\<close>)
qed (use assms in \<open>simp add: handleProxyDone_def\<close>)

lemma settle_expired_sound: assumes "sound g" shows "sound (fst (settle_expired g e job))"
proof -
  define g1 where "g1 = decrUserJobs g (pj_UserKey job)"
  obtain i out gr p f where m: "meter_job (bill g1) (pj_Model job) (pj_LastChunk job) = ((i, out), gr, p, f)"
    by (metis prod.collapse)
  have s: "db g1 = db g" "bill g1 = bill g" by (simp_all add: g1_def)
  have "books_ok (db (fst (record_job g1 e job i out p f)))"
    using record_job_books [OF _ meter_job_ok(3,1,2) [OF _ m]] assms s by (simp add: sound_def)
  then show ?thesis
    using assms s m by (simp add: settle_expired_def sound_def Let_def g1_def [symmetric])
qed

lemma settle_all_sound: "sound g \<Longrightarrow> sound (fst (settle_all g e js))"
proof (induction js arbitrary: g)
  case (Cons job js)
  then show ?case using settle_expired_sound [OF Cons.prems] by (simp add: split_beta)
qed simp

lemma remove_expired_quiet:
  "db (fst (remove_expired g now ids)) = db g \<and> bill (fst (remove_expired g now ids)) = bill g"
proof (induction g now ids rule: remove_expired.induct)
  case (2 g now k ks)
  then show ?case
    by (auto simp: split_beta Let_def prod_eq_iff split: option.split)
qed simp

lemma cleanup_tick_sound: "sound g \<Longrightarrow> sound (fst (cleanup_tick g e))"
proof -
  assume s: "sound g"
  obtain g1 js p where r: "remove_expired g (e_now e) (e_order e) = (g1, js, p)" by (metis prod.collapse)
  have "sound g1" using sound_cong [of g1 g] remove_expired_quiet [of g "e_now e" "e_order e"] s by (simp add: r)
  then show ?thesis using settle_all_sound [of g1 e js] by (simp add: cleanup_tick_def r)
qed

text \<open>
  The steps that settle no job make at most one operation of the other users of the database.
\<close>

fun settles_none :: "gw_event \<Rightarrow> bool" where
  "settles_none (EvMessage e c m) = (msg_Type m \<noteq> ''proxy_done'')"
| "settles_none (EvCleanup e) = False"
| "settles_none _ = True"

definition quiet :: "Gateway \<Rightarrow> Gateway \<Rightarrow> bool" where
  "quiet g g' \<longleftrightarrow> (db g' = db g \<or> (\<exists>op. shared_op op \<and> op_ok (db g) op \<and> db g' = db_step (db g) op)) \<and>
     (engine_ok (bill g) \<longrightarrow> engine_ok (bill g'))"

lemma quietI: "db g' = db g \<Longrightarrow> bill g' = bill g \<Longrightarrow> quiet g g'"
  by (simp add: quiet_def)

lemma messages_quiet:
  assumes "msg_Type msg \<noteq> ''proxy_done''" shows "quiet g (fst (handle_msg g e c msg))"
proof (cases "conns g c")
  case (Some nc)
  have "quiet g (fst (handleHeartbeat g e c nc msg))" "quiet g (fst (handleReject g nc msg))"
    "quiet g (fst (handleProxyChunk g nc msg))" "quiet g (fst (handleAccept g nc msg))"
    by (rule quietI; simp add: handleHeartbeat_def handleReject_def handleProxyChunk_def handleAccept_def Let_def split_beta
        split: option.split)+
  then show ?thesis using assms Some by (auto simp: handle_msg_def quiet_def)
qed (simp add: handle_msg_def quiet_def)

lemma AssignJob_db:
  "db (fst (AssignJob g e n j m k b f)) = db g \<and> bill (fst (AssignJob g e n j m k b f)) = bill g"
proof (cases "snd (incrUserJobs g k)")
  case True
  then obtain g1 where g1: "incrUserJobs g k = (g1, True)" by (metis prod.collapse)
  have f1: "db g1 = db g" "bill g1 = bill g" using incrUserJobs_frame(7,8) [of g k] by (simp_all add: g1)
  show ?thesis
  proof (cases "nodes g1 n")
    case None
    then show ?thesis using AssignJob_refused(2) [OF g1 None] f1 by simp
  next
    case (Some c)
    obtain h ok where h: "AssignJob g e n j m k b f =
       (if \<not> ok then (decrUserJobs (h\<lparr>pendingJobs := (pendingJobs h)(j := None)\<rparr>) k, Inl ErrSend)
        else (h, Inr (next_chan g, Suc (next_chan g))))" "db h = db g" "bill h = bill g"
      by (rule AssignJob_sending [OF g1 Some, of e j m b f]) assumption
    then show ?thesis by simp
  qed
qed (simp add: AssignJob_refused(1))

lemma AssignJob_quiet: "quiet g (fst (AssignJob g e n j m k b f))"
  using AssignJob_db by (intro quietI) simp_all

lemma gw_exec_quiet:
  assumes "ev_ok g ev" "settles_none ev" shows "quiet g (fst (gw_exec g ev))"
proof (cases ev)
  case (EvRegister e r)
  have "db (fst (HandleRegister g e r)) = db g \<or>
      (\<exists>reg. db (fst (HandleRegister g e r)) = db_step (db g) (OpRegisterNode (e_db e DbRegisterNode) reg (e_now e)))"
    by (auto simp: HandleRegister_def Let_def split_beta split: option.split)
  moreover have "bill (fst (HandleRegister g e r)) = bill g"
    by (simp add: HandleRegister_def Let_def split_beta split: option.split)
  moreover have "shared_op (OpRegisterNode dr n t)" "op_ok (db g) (OpRegisterNode dr n t)" for dr n t by simp_all
  ultimately show ?thesis using EvRegister unfolding quiet_def by fastforce
next
  case (EvMessage e c m)
  then show ?thesis
    using messages_quiet [of m g e c] assms(2) by (simp add: quiet_def split_beta ws_panicked_def)
next
  case (EvAssign e n j m k b f)
  then show ?thesis using AssignJob_quiet by simp
next
  case (EvFetchPrice resp)
  then show ?thesis using assms by (simp add: quiet_def engine_ok_def wf_engine_def)
next
  case (EvDatabase op)
  then show ?thesis using assms by (auto simp: quiet_def)
qed (use assms(2) in \<open>auto simp: quiet_def HandleWS_connect_def HandleWS_disconnect_def ping_def Let_def
    split: option.split sum.split\<close>)

lemma quiet_sound: "quiet g g' \<Longrightarrow> sound g \<Longrightarrow> sound g'"
  using books_shared by (auto simp: quiet_def sound_def)

lemma gw_exec_sound:
  assumes "sound g" "ev_ok g ev" shows "sound (fst (gw_exec g ev))"
proof (cases "settles_none ev")
  case True
  then show ?thesis using quiet_sound gw_exec_quiet assms by blast
next
  case False
  then show ?thesis
    using handleProxyDone_sound [OF assms(1)] cleanup_tick_sound [OF assms(1)] assms(1)
    by (cases ev) (auto simp: handle_msg_def split_beta ws_panicked_def sound_def split: option.split)
qed

lemma reachable_sound:
  "reachable d b g \<Longrightarrow> books_ok d \<Longrightarrow> engine_ok b \<Longrightarrow> sound g"
proof (induction rule: reachable.induct)
  case start
  then show ?case by (simp add: sound_def New_gateway_def)
next
  case (step g ev g')
  then have "sound (fst (gw_exec g ev))" using gw_exec_sound by (auto elim: gw_stepE)
  then show ?case using step.hyps(2) by (auto elim!: gw_stepE)
qed

section \<open>Properties of settlement\<close>

lemma example_books: "books_ok example_db"
proof -
  have "db_step empty_db (OpRegisterNode no_faults example_node 0) = example_db"
    by (simp add: RegisterNode_def no_faults_def example_db_def example_node_def empty_db_def Let_def)
  then have "ledger_run (\<lambda>_. 0) example_db"
    using ledger_run.step [OF ledger_run.init, of "OpRegisterNode no_faults example_node 0"] by simp
  then show ?thesis
    by (rule books_okI) (simp_all add: billed_def example_db_def empty_db_def)
qed

lemma example_engine: "engine_ok (New (Fin 5) None)"
  using New_wf [of "Fin 5" None]
  by (simp add: engine_ok_def priced_def BtcPrice_def New_def Price_def NewPriceTracker_def fetch_def)

text \<open>
  In every state the gateway can reach, whatever nodes and buyers send and whatever statements of the
  database fail, each buyer's balance is what was credited to them less what they were charged, it is
  not negative, and they were charged at most the cost of the recorded jobs of theirs that were not
  free.
\<close>

theorem buyers_charged_for_jobs:
  assumes "reachable d b g" "books_ok d" "engine_ok b"
  shows "\<exists>charged. \<forall>k bal. accounts (db g) k = Some bal \<longrightarrow>
    bal = credited_to (db g) k - charged k \<and> 0 \<le> bal \<and> 0 \<le> charged k \<and> charged k \<le> billed (db g) k"
proof -
  have "books_ok (db g)" using reachable_sound [OF assms] by (simp add: sound_def)
  then obtain sp where sp: "ledger_run sp (db g)" "\<And>k. sp k \<le> billed (db g) k" by (auto simp: books_ok_def)
  then show ?thesis
    using ledger_books [OF sp(1)] by (intro exI [of _ sp]) (auto simp: books_balance_def)
qed

theorem buyers_charged_for_jobs_witness:
  "\<exists>charged. \<forall>k. case accounts (db example_busy) k of None \<Rightarrow> True
     | Some bal \<Rightarrow> bal = credited_to (db example_busy) k - charged k"
proof -
  obtain charged where "\<forall>k bal. accounts (db example_busy) k = Some bal \<longrightarrow>
    bal = credited_to (db example_busy) k - charged k \<and> 0 \<le> bal \<and> 0 \<le> charged k \<and> charged k \<le> billed (db example_busy) k"
    using buyers_charged_for_jobs [OF example_reachable example_books example_engine] by blast
  then show ?thesis by (intro exI [of _ charged]) (simp split: option.split)
qed

text \<open>
  Every job in the database of a reachable state is complete, metered at 0 to 100000 tokens each way and
  cost between 0 and 200 sats, no part of it negative, and no job id is recorded twice.
\<close>

theorem recorded_jobs_capped:
  assumes "reachable d b g" "books_ok d" "engine_ok b"
  shows "distinct (map j_job_id (tbl_jobs (db g))) \<and>
    (\<forall>j\<in>set (tbl_jobs (db g)). j_status j = ''complete'' \<and> tokens_ok (j_tokens_in j) \<and> tokens_ok (j_tokens_out j) \<and>
       0 \<le> j_earned_msats j \<and> 0 \<le> j_fee_msats j \<and> j_earned_msats j + j_fee_msats j \<le> maxEarningsPerJobMsats)"
proof -
  have ok: "books_ok (db g)" using reachable_sound [OF assms] by (simp add: sound_def)
  then have "wf_db (db g)" using ledger_run_wf wf_db_run by (fastforce simp: books_ok_def)
  then show ?thesis
    using ok by (auto simp: books_ok_def row_ok_def capped_def wf_db_def maxEarningsPerJobMsats_def)
qed

theorem recorded_jobs_capped_witness:
  "distinct (map j_job_id (tbl_jobs (db example_busy)))"
  using recorded_jobs_capped [OF example_reachable example_books example_engine] by blast

text \<open>
  A node can only finish or stream its own jobs: a \<open>proxy_done\<close> or \<open>proxy_chunk\<close> for a job of another
  node changes nothing.
\<close>

theorem only_owner_completes:
  assumes "conns g c = Some nc" "pendingJobs g (msg_JobID msg) = Some job" "pj_NodeID job \<noteq> nc_NodeID nc"
    "msg_Type msg = ''proxy_done'' \<or> msg_Type msg = ''proxy_chunk''"
  shows "handle_msg g e c msg = (g, False)"
  using assms by (auto simp: handle_msg_def handleProxyDone_def handleProxyChunk_def)

theorem only_owner_completes_witness:
  "handle_msg (example_busy\<lparr>conns := [7 \<mapsto> (new_conn example_node)\<lparr>nc_NodeID := ''node-0002''\<rparr>]\<rparr>) example_env 7
     (zero_msg\<lparr>msg_Type := ''proxy_done'', msg_JobID := ''j1''\<rparr>) =
   (example_busy\<lparr>conns := [7 \<mapsto> (new_conn example_node)\<lparr>nc_NodeID := ''node-0002''\<rparr>]\<rparr>, False)"
  by (rule only_owner_completes [where job = example_job and nc = "(new_conn example_node)\<lparr>nc_NodeID := ''node-0002''\<rparr>"])
     (simp_all add: example_busy_state(1) example_job_def new_conn_def)

text \<open>
  C37: The same does not hold for a rejection: any connected node can reject the pending job of any
  other, which closes the buyer's stream and forgets the job without pay.
\<close>

theorem any_node_rejects:
  assumes "reachable d b g" "conns g c = Some nc" "pendingJobs g j = Some job"
  shows "\<exists>g'. handle_msg g e c (zero_msg\<lparr>msg_Type := ''reject'', msg_JobID := j\<rparr>) = (g', False) \<and>
    pendingJobs g' = (pendingJobs g)(j := None) \<and> tbl_jobs (db g') = tbl_jobs (db g) \<and>
    (\<exists>ch. chans g' (pj_DoneCh job) = Some ch \<and> closed ch)"
proof -
  have "channels_open g" using reachable_inv [OF assms(1)] by (simp add: gw_inv_def)
  then obtain ch where ch: "close_chan g (pj_DoneCh job) =
      (g\<lparr>chans := (chans g)(pj_DoneCh job \<mapsto> ch\<lparr>closed := True\<rparr>)\<rparr>, False)"
    using close_pending [OF _ assms(3)] by metis
  then show ?thesis
    by (simp add: handle_msg_def assms(2) handleReject_def assms(3) ch)
qed

theorem any_node_rejects_witness:
  "\<exists>g'. fst (handle_msg example_busy example_env 0 (zero_msg\<lparr>msg_Type := ''reject'', msg_JobID := ''j1''\<rparr>)) = g' \<and>
     pendingJobs g' = Map.empty"
proof -
  obtain nc where nc: "conns example_busy 0 = Some nc"
    by (simp add: example_busy_def example_connected_eq AssignJob_def incrUserJobs_def user_jobs_def
      maxConcurrentPerUser_def make_chan_def Send_def example_new_conn example_start_def New_gateway_def
      example_env_def update_conn_def split_beta)
  have "pendingJobs example_busy ''j1'' = Some example_job" by (simp add: example_busy_state(1))
  from any_node_rejects [OF example_reachable nc this, of example_env] show ?thesis
    by (auto simp: example_busy_state(1))
qed

end
