(* ===== verification/System.thy ===== *)
theory System
  imports Server Streams Topup Settlement
begin

text \<open>
  The whole process: requests, the messages of the nodes, and the goroutines beside them, the clean-up of old
  jobs, the invoice watcher, the payout engine, the price tracker and the sweeps of the two limiters. What the
  process does to the gateway's state are steps of the gateway, so what holds in every state the gateway
  can reach holds for the process.
\<close>

section \<open>Steps of the process\<close>

datatype event =
  Http serve_env http_message
| Message env nat WSMsg
| Hangup nat
| Ping nat bool
| JobCleanup env
| Receive nat
| PriceTick "string option"
| WatchTick watch_env
| PayoutTick payout_env
| LimiterTick "string list" time
| RegLimitTick "string list" time

definition watch_step :: "net \<Rightarrow> watch_env \<Rightarrow> Process \<Rightarrow> Process \<times> bool" where
  "watch_step net e s =
     (let (db1, w, panic) = watcher_tick (map_option (\<lambda>c. CheckInvoice c net) (ln s)) e (db (gw s)) (calls s)
      in (s\<lparr>gw := (gw s)\<lparr>db := db1\<rparr>, calls := w\<rparr>, panic))"

definition payout_step :: "net \<Rightarrow> payout_env \<Rightarrow> Process \<Rightarrow> Process" where
  "payout_step net e s =
     (case payouts s of
        None \<Rightarrow> s
      | Some pe \<Rightarrow>
          (let (pe1, db1, w) = payout_tick (map_option (\<lambda>c. PayAddress c net) (ln s)) e (pe, db (gw s), calls s)
           in s\<lparr>gw := (gw s)\<lparr>db := db1\<rparr>, payouts := Some pe1, calls := w\<rparr>))"

definition at_gateway :: "gw_event \<Rightarrow> Process \<Rightarrow> Process \<times> bool" where
  "at_gateway ev s = (let (g, panic) = gw_exec (gw s) ev in (s\<lparr>gw := g\<rparr>, panic))"

text \<open>The new state, and whether the process ended. The watcher runs only when LND is configured.\<close>

fun run_event :: "net \<Rightarrow> event \<Rightarrow> Process \<Rightarrow> Process \<times> bool" where
  "run_event net (Http e m) s = (fst (ServeHTTP net e m s), False)"
| "run_event net (Message e c m) s = at_gateway (EvMessage e c m) s"
| "run_event net (Hangup c) s = at_gateway (EvDisconnect c) s"
| "run_event net (Ping c ok) s = at_gateway (EvPing c ok) s"
| "run_event net (JobCleanup e) s = at_gateway (EvCleanup e) s"
| "run_event net (Receive ch) s = at_gateway (EvReceive ch) s"
| "run_event net (PriceTick resp) s = at_gateway (EvFetchPrice resp) s"
| "run_event net (WatchTick e) s = watch_step net e s"
| "run_event net (PayoutTick e) s = (payout_step net e s, False)"
| "run_event net (LimiterTick ips now) s =
     (s\<lparr>srv := (srv s)\<lparr>sv_limiter := cleanup (sv_limiter (srv s)) ips now\<rparr>\<rparr>, False)"
| "run_event net (RegLimitTick ips now) s = (s\<lparr>pub := cleanupRegLimit (pub s) ips now\<rparr>, False)"

text \<open>
  What the surroundings see to: UUIDs are fresh, all invoices together stay within 64 bits, a map is ranged over
  once, the price service quotes a bitcoin at a dollar or more.
\<close>

fun event_ok :: "event \<Rightarrow> Process \<Rightarrow> bool" where
  "event_ok (Http e m) s \<longleftrightarrow>
     pendingJobs (gw s) (ae_uuid (se_api e)) = None \<and> invoiced (db (gw s)) + 100000000 \<le> max_int64"
| "event_ok (JobCleanup e) s \<longleftrightarrow> enumerates (e_order e) (pendingJobs (gw s))"
| "event_ok (PriceTick resp) s \<longleftrightarrow> priced ((bill (gw s))\<lparr>prices := fetch resp (prices (bill (gw s)))\<rparr>)"
| "event_ok _ s \<longleftrightarrow> True"

inductive process_step :: "net \<Rightarrow> Process \<Rightarrow> Process \<Rightarrow> bool" where
  step: "event_ok ev s \<Longrightarrow> run_event net ev s = (s', False) \<Longrightarrow> process_step net s s'"

inductive process_run :: "net \<Rightarrow> flags \<Rightarrow> BuildInfo \<Rightarrow> DB \<Rightarrow> string option \<Rightarrow> time \<Rightarrow> Process \<Rightarrow> bool"
  for net fl b db0 quoted now where
  start: "process_run net fl b db0 quoted now (main_go fl b db0 quoted now)"
| step: "process_run net fl b db0 quoted now s \<Longrightarrow> process_step net s s' \<Longrightarrow> process_run net fl b db0 quoted now s'"

section \<open>What the parts do to the gateway\<close>

inductive gw_steps :: "Gateway \<Rightarrow> Gateway \<Rightarrow> bool" where
  stay [simp, intro]: "gw_steps g g"
| step: "gw_steps g g1 \<Longrightarrow> gw_step g1 ev g2 \<Longrightarrow> gw_steps g g2"

lemma gw_steps_one: "gw_step g ev g' \<Longrightarrow> gw_steps g g'"
  by (rule gw_steps.step [OF gw_steps.stay])

lemma gw_steps_trans: "gw_steps g1 g2 \<Longrightarrow> gw_steps g g1 \<Longrightarrow> gw_steps g g2"
  by (induction rule: gw_steps.induct) (auto intro: gw_steps.step)

lemma gw_steps_reachable: "gw_steps g g' \<Longrightarrow> reachable d b g \<Longrightarrow> reachable d b g'"
  by (induction rule: gw_steps.induct) (auto intro: reachable.step)

text \<open>Operations on the database that need nothing from their callers.\<close>

fun free_op :: "db_op \<Rightarrow> bool" where
  "free_op (OpCreateInvoice d h k a b now) = False"
| "free_op op = shared_op op"

lemma gw_steps_db: "\<forall>op\<in>set ops. free_op op \<Longrightarrow> gw_steps g (g\<lparr>db := db_run (db g) ops\<rparr>)"
proof (induction ops rule: rev_induct)
  case (snoc op ops)
  have "shared_op op" "op_ok (db_run (db g) ops) op" using snoc.prems by (cases op; simp)+
  then have "gw_step (g\<lparr>db := db_run (db g) ops\<rparr>) (EvDatabase op) (g\<lparr>db := db_run (db g) (ops @ [op])\<rparr>)"
    by (intro gw_step.step) simp_all
  then show ?case using gw_steps.step snoc by simp
qed simp

lemma gw_steps_op:
  "shared_op op \<Longrightarrow> op_ok (db g) op \<Longrightarrow> gw_steps g (g\<lparr>db := db_step (db g) op\<rparr>)"
  by (rule gw_steps_one [of _ "EvDatabase op"], rule gw_step.step) simp_all

lemma chat_cases:
  assumes "HandleChatCompletions a g e ge r = (g', res)"
  shows "g' = g \<or> (\<exists>n m k b f. g' = fst (AssignJob g ge n (ae_uuid e) m k b f))"
  using assms
  by (auto simp: HandleChatCompletions_def route_chat_def Let_def split_beta split: option.splits sum.splits prod.splits
    if_splits admission.splits) (metis fst_conv)+

lemma chat_steps:
  assumes "HandleChatCompletions a g e ge r = (g', res)" "pendingJobs g (ae_uuid e) = None"
  shows "gw_steps g g'"
  using chat_cases [OF assms(1)]
proof
  assume "\<exists>n m k b f. g' = fst (AssignJob g ge n (ae_uuid e) m k b f)"
  then obtain n m k b f where g': "g' = fst (AssignJob g ge n (ae_uuid e) m k b f)" by blast
  show ?thesis
    by (rule gw_steps_one [of _ "EvAssign ge n (ae_uuid e) m k b f"], rule gw_step.step) (simp_all add: g' assms(2))
qed simp

lemma register_user_cases:
  assumes "HandleRegisterUser a g e r = (a', g', resp)"
  shows "g' = g \<or> (\<exists>d k u nm q. g' = g\<lparr>db := db_step (db g) (OpCreateUserKey d k u nm q)\<rparr>)"
  using assms by (auto simp: HandleRegisterUser_def Let_def split_beta split: if_splits option.splits) blast+

lemma register_user_steps:
  assumes "HandleRegisterUser a g e r = (a', g', resp)" shows "gw_steps g g'"
  using register_user_cases [OF assms] gw_steps_op [of "OpCreateUserKey _ _ _ _ _" g] by auto

lemma topup_steps:
  assumes "HandleTopUp invoicer a g w e r = (g', w', resp)" "invoiced (db g) + 100000000 \<le> max_int64"
  shows "gw_steps g g'"
  using assms(1)
proof (cases rule: HandleTopUp_cases)
  case (stored key sats create bolt11 h)
  let ?op = "OpCreateInvoice (ae_db e ApiCreateInvoice) h key (sats * 1000) bolt11 (ae_stamp e)"
  have "op_ok (db g) ?op" using stored(2-4) assms(2) by simp
  then show ?thesis using gw_steps_op [of ?op g] stored(7) by simp
qed simp

lemma dispatch_steps:
  assumes "pendingJobs (gw s) (ae_uuid (se_api e)) = None" "invoiced (db (gw s)) + 100000000 \<le> max_int64"
  shows "gw_steps (gw s) (gw (fst (dispatch net e h m s)))"
proof (cases h)
  case ToRegister
  show ?thesis
    by (rule gw_steps_one [of _ "EvRegister (se_gw e) (for_gateway m)"], rule gw_step.step)
       (simp_all add: ToRegister split_beta)
next
  case ToWS
  show ?thesis
    by (rule gw_steps_one [of _ "EvConnect (se_gw e) (h_api_key m)"], rule gw_step.step) (simp_all add: ToWS split_beta)
next
  case ToChat
  then show ?thesis using chat_steps [OF prod.collapse [symmetric] assms(1)] by (simp add: split_beta)
next
  case ToRegisterUser
  obtain a g resp where r: "HandleRegisterUser (pub s) (gw s) (se_api e) (for_api m) = (a, g, resp)" by (metis prod.collapse)
  then show ?thesis using register_user_steps [OF r] by (simp add: ToRegisterUser)
next
  case ToTopUp
  obtain g w resp where r: "HandleTopUp (invoicer_of net s) (pub s) (gw s) (calls s) (se_api e) (for_api m) = (g, w, resp)"
    by (metis prod.collapse)
  then show ?thesis using topup_steps [OF r assms(2)] by (simp add: ToTopUp)
qed simp_all

lemma ServeHTTP_steps:
  assumes "event_ok (Http e m) s" shows "gw_steps (gw s) (gw (fst (ServeHTTP net e m s)))"
proof -
  obtain rl r where r: "SecurityMiddleware (sv_limiter (srv s)) (sv_maxBody (srv s)) (for_middleware m) (se_limit e) = (rl, r)"
    by force
  let ?s1 = "s\<lparr>srv := (srv s)\<lparr>sv_limiter := rl\<rparr>\<rparr>"
  have "gw_steps (gw ?s1) (gw (fst (dispatch net e h m' ?s1)))" for h m'
    by (rule dispatch_steps) (use assms in simp_all)
  then show ?thesis by (simp add: ServeHTTP_def r Let_def split: served.split target.split)
qed

lemma watch_run:
  assumes "watch_step net e s = (s', p)"
  obtains ops where "gw s' = (gw s)\<lparr>db := db_run (db (gw s)) ops\<rparr>"
    "\<forall>op\<in>set ops. free_op op \<and> (\<forall>d n a h st t. op \<noteq> OpRecordPayout d n a h st t)"
proof -
  let ?fine = "\<lambda>op. free_op op \<and> (\<forall>d n a h st t. op \<noteq> OpRecordPayout d n a h st t)"
  obtain db1 w q where t: "watcher_tick (map_option (\<lambda>c. CheckInvoice c net) (ln s)) e (db (gw s)) (calls s) = (db1, w, q)"
    by (metis prod.collapse)
  have "\<exists>ops. (\<forall>op\<in>set ops. ?fine op) \<and> db1 = db_run (db (gw s)) ops"
  proof (cases "ln s")
    case None
    then show ?thesis using t by (intro exI [of _ "[]"]) (simp add: watcher_tick_def)
  next
    case (Some c)
    let ?ex = "OpExpireOldInvoices (we_expire e) (we_now e)"
    have "\<exists>cs. credits cs \<and> db1 = db_run (db_step (db (gw s)) ?ex) cs" by (rule tick_run) (use t Some in simp)
    then obtain cs where "credits cs" "db1 = db_run (db_step (db (gw s)) ?ex) cs" by blast
    then show ?thesis by (intro exI [of _ "?ex # cs"]) (auto simp: db_run_Cons credits_def)
  qed
  then show ?thesis using that assms by (auto simp: watch_step_def t)
qed

lemma watch_steps: "gw_steps (gw s) (gw (fst (watch_step net e s)))"
proof -
  obtain s' p where s: "watch_step net e s = (s', p)" by force
  show ?thesis
  proof (rule watch_run [OF s])
    fix ops
    assume g: "gw s' = (gw s)\<lparr>db := db_run (db (gw s)) ops\<rparr>"
      and "\<forall>op\<in>set ops. free_op op \<and> (\<forall>d n a h st t. op \<noteq> OpRecordPayout d n a h st t)"
    then have "\<forall>op\<in>set ops. free_op op" by blast
    then show ?thesis unfolding s fst_conv g by (rule gw_steps_db)
  qed
qed

lemma pay_nodes_run:
  "fold (pay_node pay e) ns (pe, spent, d, w) = (pe', spent', d', w') \<Longrightarrow>
   \<exists>ops. (\<forall>op\<in>set ops. free_op op) \<and> d' = db_run d ops"
proof (induction ns arbitrary: pe spent d w)
  case Nil
  then show ?case by (intro exI [of _ "[]"]) simp
next
  case (Cons n ns)
  obtain pe1 s1 d1 w1 where s: "pay_node pay e n (pe, spent, d, w) = (pe1, s1, d1, w1)" by (metis prod.collapse)
  have "\<exists>ops. (\<forall>op\<in>set ops. free_op op) \<and> d1 = db_run d ops"
    using s
  proof (cases rule: pay_node_cases)
    case (paid sats h)
    then show ?thesis
      by (intro exI [of _ "[OpRecordPayout (pe_record e (n_node_id n)) (n_node_id n) (wrap64 (sats * 1000)) h ''confirmed''
          (pe_paid_at e (n_node_id n))]"]) (simp add: db_run_def)
  qed (auto intro: exI [of _ "[]"])
  moreover have "fold (pay_node pay e) ns (pe1, s1, d1, w1) = (pe', spent', d', w')" using Cons.prems s by simp
  then have "\<exists>ops. (\<forall>op\<in>set ops. free_op op) \<and> d' = db_run d1 ops" by (rule Cons.IH)
  ultimately show ?case by (metis db_run_def foldl_append set_append Un_iff)
qed

lemma payout_run_ops: "\<exists>ops. (\<forall>op\<in>set ops. free_op op) \<and> gw (payout_step net e s) = (gw s)\<lparr>db := db_run (db (gw s)) ops\<rparr>"
proof (cases "payouts s")
  case None
  then show ?thesis by (intro exI [of _ "[]"]) (simp add: payout_step_def)
next
  case (Some pe)
  obtain pe1 db1 w1 where t: "payout_tick (map_option (\<lambda>c. PayAddress c net) (ln s)) e (pe, db (gw s), calls s) = (pe1, db1, w1)"
    by (metis prod.collapse)
  have "\<exists>ops. (\<forall>op\<in>set ops. free_op op) \<and> db1 = db_run (db (gw s)) ops"
  proof (cases "\<exists>c ns. ln s = Some c \<and> PendingPayouts (pe_query e) (db (gw s)) = Inr ns")
    case True
    then obtain c ns where c: "ln s = Some c" "PendingPayouts (pe_query e) (db (gw s)) = Inr ns" by blast
    obtain pe2 s2 d2 w2 where f: "fold (pay_node (PayAddress c net) e) ns
        (start_tick e pe, spentThisHour (start_tick e pe), db (gw s), calls s) = (pe2, s2, d2, w2)" by (metis prod.collapse)
    then show ?thesis using pay_nodes_run [OF f] t c by (simp add: payout_tick_def processPayouts_def Let_def)
  next
    case False
    then have "db1 = db (gw s)"
      using t by (cases "ln s"; cases "PendingPayouts (pe_query e) (db (gw s))") (auto simp: payout_tick_def processPayouts_def Let_def)
    then show ?thesis by (intro exI [of _ "[]"]) simp
  qed
  then show ?thesis by (auto simp: payout_step_def Some t)
qed

lemma payout_steps: "gw_steps (gw s) (gw (payout_step net e s))"
  using payout_run_ops [of net e s] gw_steps_db by auto

lemma payout_jobs: "tbl_jobs (db (gw (payout_step net e s))) = tbl_jobs (db (gw s))"
proof -
  have "\<forall>op\<in>set ops. free_op op \<Longrightarrow> tbl_jobs (db_run d ops) = tbl_jobs d" for ops d
  proof (induction ops rule: rev_induct)
    case (snoc op ops)
    have "shared_op op" using snoc.prems by (cases op) simp_all
    then show ?case using snoc jobs_shared by simp
  qed simp
  then show ?thesis using payout_run_ops [of net e s] by auto
qed

section \<open>The process refines the gateway\<close>

lemma at_gateway_step: "at_gateway ev s = (s', False) \<Longrightarrow> ev_ok (gw s) ev \<Longrightarrow> gw_steps (gw s) (gw s')"
  by (rule gw_steps_one [of _ ev], rule gw_step.step) (auto simp: at_gateway_def split: prod.splits)

lemma process_step_gateway:
  assumes "process_step net s s'" shows "gw_steps (gw s) (gw s')"
  using assms
proof cases
  case (step ev)
  show ?thesis
  proof (cases ev)
    case (Http e m)
    then show ?thesis using step ServeHTTP_steps [of e m s net] by simp
  next
    case (WatchTick e)
    then show ?thesis using step watch_steps [of s net e] by simp
  next
    case (PayoutTick e)
    then show ?thesis using step payout_steps [of s net e] by simp
  qed (use step in \<open>auto dest!: at_gateway_step\<close>)
qed

lemma process_run_reachable:
  "process_run net fl b db0 quoted now s \<Longrightarrow> reachable db0 (New (fl_feePct fl) quoted) (gw s)"
proof (induction rule: process_run.induct)
  case start
  show ?case using reachable.start by (simp add: main_go_def Let_def)
next
  case (step s s')
  then show ?case using gw_steps_reachable process_step_gateway by blast
qed

section \<open>The parts beside the gateway\<close>

definition guards_ok :: "Process \<Rightarrow> bool" where
  "guards_ok s \<longleftrightarrow> limit (sv_limiter (srv s)) = 60 \<and> window (sv_limiter (srv s)) = 60000000000 \<and> sv_maxBody (srv s) = 1048576 \<and>
     (\<forall>pe. payouts s = Some pe \<longrightarrow> within_cap 10000 pe)"

lemma guards_cong:
  "srv s' = srv s \<Longrightarrow> payouts s' = payouts s \<Longrightarrow> guards_ok s \<Longrightarrow> guards_ok s'"
  by (simp add: guards_ok_def)

lemma at_gateway_frame: "srv (fst (at_gateway ev s)) = srv s" "payouts (fst (at_gateway ev s)) = payouts s"
  by (simp_all add: at_gateway_def split_beta)

lemma dispatch_frame: "srv (fst (dispatch net e h m s)) = srv s" "payouts (fst (dispatch net e h m s)) = payouts s"
  by (cases h; simp add: split_beta)+

lemma ServeHTTP_guards:
  assumes "guards_ok s" shows "guards_ok (fst (ServeHTTP net e m s))"
proof -
  obtain rl r where r: "SecurityMiddleware (sv_limiter (srv s)) (sv_maxBody (srv s)) (for_middleware m) (se_limit e) = (rl, r)"
    by force
  then have "limit rl = limit (sv_limiter (srv s))" "window rl = window (sv_limiter (srv s))"
    by (auto simp: SecurityMiddleware_def Allow_def Let_def split: if_splits)
  then have "guards_ok (s\<lparr>srv := (srv s)\<lparr>sv_limiter := rl\<rparr>\<rparr>)" (is "guards_ok ?s1")
    using assms by (simp add: guards_ok_def)
  then show ?thesis
    using guards_cong [of _ ?s1] dispatch_frame [where s = ?s1]
    by (simp add: ServeHTTP_def r Let_def split: served.split target.split)
qed

lemma pay_nodes_within:
  assumes "0 < m" "m \<le> 2 ^ 62"
  shows "fold (pay_node pay e) ns (pe, spentThisHour pe, d, w) = (pe', spent', d', w') \<Longrightarrow> within_cap m pe \<Longrightarrow> within_cap m pe'"
proof (induction ns arbitrary: pe d w)
  case (Cons n ns)
  obtain pe1 s1 d1 w1 where s: "pay_node pay e n (pe, spentThisHour pe, d, w) = (pe1, s1, d1, w1)" by (metis prod.collapse)
  then show ?case using pay_node_within [OF assms Cons.prems(2) refl s] Cons by simp
qed simp

lemma payout_guards: assumes "guards_ok s" shows "guards_ok (payout_step net e s)"
proof (cases "payouts s")
  case (Some pe)
  then have pe: "within_cap 10000 pe" "within_cap 10000 (start_tick e pe)"
    using assms by (auto simp: guards_ok_def within_cap_def start_tick_def)
  have "within_cap 10000 (fst (payout_tick client e (pe, d, w)))" for client d w
  proof (cases client)
    case (Some pay)
    obtain pe1 d1 w1 where p: "processPayouts pay e (pe, d, w) = (pe1, d1, w1)" by (metis prod.collapse)
    then have "within_cap 10000 pe1"
      by (cases rule: processPayouts_fold) (use pe pay_nodes_within [of 10000 pay e] in auto)
    then show ?thesis by (simp add: payout_tick_def Some p)
  qed (simp add: payout_tick_def pe(1))
  then show ?thesis using assms Some by (simp add: guards_ok_def payout_step_def split_beta)
qed (use assms in \<open>simp add: payout_step_def\<close>)

lemma process_step_guards:
  assumes "process_step net s s'" "guards_ok s" shows "guards_ok s'"
  using assms(1)
proof cases
  case (step ev)
  then have s': "s' = fst (run_event net ev s)" by simp
  show ?thesis
  proof (cases ev)
    case (Http e m)
    then show ?thesis using s' ServeHTTP_guards [OF assms(2)] by simp
  next
    case (PayoutTick e)
    then show ?thesis using s' payout_guards [OF assms(2)] by simp
  next
    case (LimiterTick ips now)
    then show ?thesis using s' assms(2) by (simp add: guards_ok_def cleanup_def)
  qed (rule guards_cong [OF _ _ assms(2)]; simp add: s' at_gateway_frame watch_step_def split_beta)+
qed

lemma process_run_guards: "process_run net fl b db0 quoted now s \<Longrightarrow> guards_ok s"
proof (induction rule: process_run.induct)
  case start
  show ?case
    by (simp add: main_go_def Let_def guards_ok_def NewServer_def NewRateLimiter_def within_cap_def NewPayoutEngine_def
        split: option.split)
next
  case (step s s')
  then show ?case using process_step_guards by blast
qed

section \<open>What nodes earned and were paid\<close>

text \<open>A change of the database that touches no payout and only adds jobs at the end.\<close>

definition grows :: "DB \<Rightarrow> DB \<Rightarrow> bool" where
  "grows d d' \<longleftrightarrow> tbl_payouts d' = tbl_payouts d \<and> (\<exists>js. tbl_jobs d' = tbl_jobs d @ js)"

lemma grows_refl [simp]: "grows d d"
  by (simp add: grows_def)

lemma grows_trans: "grows d d1 \<Longrightarrow> grows d1 d2 \<Longrightarrow> grows d d2"
  by (auto simp: grows_def)

lemma grows_op:
  assumes "\<forall>dr n a h st t. op \<noteq> OpRecordPayout dr n a h st t" shows "grows d (db_step d op)"
proof (cases op)
  case (OpCreditInvoice dr h)
  then show ?thesis by (cases rule: CreditInvoice_cases [of dr d h]) (simp_all add: grows_def add_balance_def set_credited_def)
qed (use assms in \<open>auto simp: grows_def RegisterNode_def Let_def CreateUserKey_def CreateInvoice_def ExpireOldInvoices_def
  RecordJob_def DeductBalance_def add_balance_def split: option.split\<close>)

lemma grows_run: "\<forall>op\<in>set ops. \<forall>dr n a h st t. op \<noteq> OpRecordPayout dr n a h st t \<Longrightarrow> grows d (db_run d ops)"
  by (induction ops arbitrary: d) (auto simp: db_run_Cons intro: grows_trans [OF grows_op])

lemma grows_record: "grows (db g) (db (fst (record_job g e job i out p f)))"
  by (auto simp: record_job_def RecordJob_def grows_def split_beta)

lemma grows_charge: "grows (db g) (db (fst (charge_user g e job t)))"
  by (auto simp: charge_user_def DeductBalance_def add_balance_def grows_def split_beta Let_def split: option.split)

lemma grows_done: "grows (db g) (db (fst (handleProxyDone g e c nc msg)))"
proof (cases "\<exists>job. pendingJobs g (msg_JobID msg) = Some job \<and> pj_NodeID job = nc_NodeID nc")
  case True
  then obtain job where job: "pendingJobs g (msg_JobID msg) = Some job" "pj_NodeID job = nc_NodeID nc" by blast
  obtain i out usd p f where m: "meter_job (bill g) (pj_Model job) (pj_LastChunk job) = ((i, out), usd, p, f)"
    by (metis prod.collapse)
  obtain g3 where g3: "db g3 = db g" and
    d: "db (fst (handleProxyDone g e c nc msg)) =
      (if snd (close_chan g (pj_DoneCh job)) then db g
       else if \<not> snd (record_job g3 e job i out p f) then db (fst (record_job g3 e job i out p f))
       else db (fst (charge_user (fst (record_job g3 e job i out p f)) e job (wrap64 (p + f)))))"
    by (rule handleProxyDone_store [OF job m]) blast
  have r: "grows (db g) (db (fst (record_job g3 e job i out p f)))" using grows_record [of g3] by (simp add: g3)
  then show ?thesis unfolding d using grows_trans [OF r grows_charge] by simp
qed (auto simp: handleProxyDone_def split: option.split)

lemma grows_settle: "grows (db g) (db (fst (settle_all g e js)))"
proof (induction js arbitrary: g)
  case (Cons job js)
  have "grows (db g) (db (fst (settle_expired g e job)))"
    using grows_record [of "decrUserJobs g (pj_UserKey job)"] by (simp add: settle_expired_def Let_def split_beta)
  then show ?case using grows_trans [OF _ Cons.IH] by (simp add: split_beta)
qed simp

lemma grows_gateway:
  assumes "\<forall>op. ev \<noteq> EvDatabase op" shows "grows (db g) (db (fst (gw_exec g ev)))"
proof (cases "settles_none ev")
  case True
  show ?thesis
  proof (cases ev)
    case (EvRegister e r)
    have "db (fst (HandleRegister g e r)) = db g \<or>
        (\<exists>reg. db (fst (HandleRegister g e r)) = db_step (db g) (OpRegisterNode (e_db e DbRegisterNode) reg (e_now e)))"
      by (auto simp: HandleRegister_def Let_def split_beta split: option.split)
    then show ?thesis using EvRegister grows_op [of "OpRegisterNode _ _ _" "db g"] by fastforce
  next
    case (EvMessage e c m)
    have "db (fst (handle_msg g e c m)) = db g" if "msg_Type m \<noteq> ''proxy_done''"
      using that by (auto simp: handle_msg_def handleHeartbeat_def handleReject_def handleProxyChunk_def handleAccept_def
        Let_def split_beta split: option.split)
    then show ?thesis using True by (simp add: EvMessage split_beta ws_panicked_def)
  next
    case (EvAssign e n j m k b f)
    then show ?thesis using AssignJob_db [of g e n j m k b f] by simp
  qed (use assms(1) True in \<open>auto simp: HandleWS_connect_def HandleWS_disconnect_def ping_def Let_def split: option.split sum.split\<close>)
next
  case False
  then consider e c m where "ev = EvMessage e c m" "msg_Type m = ''proxy_done''" | e where "ev = EvCleanup e"
    by (cases ev) auto
  then show ?thesis
  proof cases
    case 1
    then show ?thesis using grows_done by (auto simp: handle_msg_def split_beta ws_panicked_def split: option.split)
  next
    case 2
    obtain g1 js p where r: "remove_expired g (e_now e) (e_order e) = (g1, js, p)" by (metis prod.collapse)
    then have "db g1 = db g" using remove_expired_quiet [of g "e_now e" "e_order e"] by simp
    then show ?thesis using grows_settle [of g1 e js] by (simp add: 2 cleanup_tick_def r)
  qed
qed

text \<open>Every event of the process but a tick of the payout engine.\<close>

lemma grows_dispatch: "grows (db (gw s)) (db (gw (fst (dispatch net e h m s))))"
proof (cases h)
  case ToRegister
  then show ?thesis
    using grows_gateway [of "EvRegister (se_gw e) (for_gateway m)" "gw s"] by (simp add: split_beta)
next
  case ToWS
  then show ?thesis
    using grows_gateway [of "EvConnect (se_gw e) (h_api_key m)" "gw s"] by (simp add: split_beta)
next
  case ToChat
  obtain g' res where c: "HandleChatCompletions (pub s) (gw s) (se_api e) (se_gw e) (for_api m) = (g', res)" by force
  have "grows (db (gw s)) (db g')"
    using chat_cases [OF c] AssignJob_db by auto
  then show ?thesis using c by (simp add: ToChat split_beta)
next
  case ToRegisterUser
  obtain a g' resp where r: "HandleRegisterUser (pub s) (gw s) (se_api e) (for_api m) = (a, g', resp)" by (metis prod.collapse)
  have "grows (db (gw s)) (db g')"
    using register_user_cases [OF r] grows_op [of "OpCreateUserKey _ _ _ _ _" "db (gw s)"] by fastforce
  then show ?thesis using r by (simp add: ToRegisterUser)
next
  case ToTopUp
  obtain g' w' resp where r: "HandleTopUp (invoicer_of net s) (pub s) (gw s) (calls s) (se_api e) (for_api m) = (g', w', resp)"
    by (metis prod.collapse)
  then have "grows (db (gw s)) (db g')"
    by (cases rule: HandleTopUp_cases) (auto simp: CreateInvoice_def grows_def)
  then show ?thesis using r by (simp add: ToTopUp)
qed simp_all

lemma grows_process:
  assumes "run_event net ev s = (s', False)" "\<forall>e. ev \<noteq> PayoutTick e"
  shows "grows (db (gw s)) (db (gw s'))"
proof -
  have at: "grows (db (gw s)) (db (gw (fst (at_gateway v s))))" if "\<forall>op. v \<noteq> EvDatabase op" for v
    using grows_gateway [OF that] by (simp add: at_gateway_def split_beta)
  have s': "s' = fst (run_event net ev s)" using assms(1) by simp
  show ?thesis
  proof (cases ev)
    case (Http e m)
    obtain rl r where r: "SecurityMiddleware (sv_limiter (srv s)) (sv_maxBody (srv s)) (for_middleware m) (se_limit e) = (rl, r)"
      by force
    let ?s1 = "s\<lparr>srv := (srv s)\<lparr>sv_limiter := rl\<rparr>\<rparr>"
    have "grows (db (gw s)) (db (gw (fst (dispatch net e h m' ?s1))))" for h m'
      using grows_dispatch [of ?s1 net e h m'] by simp
    then show ?thesis by (simp add: s' Http ServeHTTP_def r Let_def split: served.split target.split)
  next
    case (WatchTick e)
    then show ?thesis using assms(1) grows_run by (auto elim!: watch_run)
  qed (use assms(2) at in \<open>simp_all add: s'\<close>)
qed

text \<open>A tick of the payout engine.\<close>

lemma payout_step_solvent:
  assumes "solvent (db (gw s))" shows "solvent (db (gw (payout_step net e s)))"
proof (cases "payouts s")
  case (Some pe)
  obtain pe1 db1 w1 where t: "payout_tick (map_option (\<lambda>c. PayAddress c net) (ln s)) e (pe, db (gw s), calls s) = (pe1, db1, w1)"
    by (metis prod.collapse)
  have "solvent db1"
  proof (cases "ln s")
    case None
    then show ?thesis using t assms by (simp add: payout_tick_def)
  next
    case (Some c)
    then have "processPayouts (PayAddress c net) e (pe, db (gw s), calls s) = (pe1, db1, w1)" using t by (simp add: payout_tick_def)
    then show ?thesis
    proof (cases rule: processPayouts_fold)
      case (queried ns spent')
      then show ?thesis using pay_nodes_solvent [OF assms queried(2)] by simp
    qed (use assms in simp)
  qed
  then show ?thesis by (simp add: payout_step_def Some t)
qed (use assms in \<open>simp add: payout_step_def\<close>)

definition all_earned :: "DB \<Rightarrow> int" where
  "all_earned d = sum_list (map j_earned_msats (tbl_jobs d))"

lemma grows_solvent:
  assumes "grows d d'" "\<forall>j\<in>set (tbl_jobs d'). 0 \<le> j_earned_msats j" "all_earned d' \<le> max_int64"
  shows "all_earned d \<le> all_earned d'" "solvent d \<Longrightarrow> solvent d'"
proof -
  obtain js where js: "tbl_jobs d' = tbl_jobs d @ js" "tbl_payouts d' = tbl_payouts d" using assms(1) by (auto simp: grows_def)
  have pos: "0 \<le> sum_list (map j_earned_msats (filter P js))" for P
    using assms(2) by (intro sum_list_nonneg) (auto simp: js(1))
  show "all_earned d \<le> all_earned d'" using pos [of "\<lambda>_. True"] by (simp add: all_earned_def js)
  have "owed d n \<le> owed d' n" for n
    using pos by (simp add: owed_def earned_by_def paid_out_def js)
  moreover assume "solvent d"
  ultimately show "solvent d'"
    using assms(2,3) js(2) unfolding solvent_def all_earned_def by (metis order_trans)
qed

lemma process_run_solvent:
  assumes "books_ok db0" "engine_ok (New (fl_feePct fl) quoted)" "solvent db0"
  shows "process_run net fl b db0 quoted now s \<Longrightarrow> all_earned (db (gw s)) \<le> max_int64 \<Longrightarrow> solvent (db (gw s))"
proof (induction rule: process_run.induct)
  case start
  then show ?case using assms(3) by (simp add: main_go_def Let_def New_gateway_def)
next
  case (step s s')
  have "sound (gw s')"
    by (rule reachable_sound [OF process_run_reachable [OF process_run.step [OF step(1,2)]] assms(1,2)])
  then have rows: "\<forall>j\<in>set (tbl_jobs (db (gw s'))). 0 \<le> j_earned_msats j"
    by (auto simp: sound_def books_ok_def row_ok_def capped_def)
  from step(2) obtain ev where ev: "event_ok ev s" "run_event net ev s = (s', False)" by (auto elim: process_step.cases)
  show ?case
  proof (cases "\<exists>e. ev = PayoutTick e")
    case True
    then obtain e where s': "s' = payout_step net e s" using ev(2) by auto
    then show ?thesis using payout_step_solvent [of s net e] payout_jobs [of net e s] step by (simp add: all_earned_def)
  next
    case False
    then have g: "grows (db (gw s)) (db (gw s'))" using grows_process [OF ev(2)] by blast
    show ?thesis using grows_solvent [OF g rows step.prems] step.IH step.prems by linarith
  qed
qed

section \<open>Properties\<close>

text \<open>
  C5: the process refines the gateway: whatever requests, messages and ticks it is given, and whatever the network
  answers, the state of the gateway inside it, the database and the billing engine included, is one that the
  gateway's own steps reach.
\<close>

theorem process_refines_gateway:
  assumes "process_run net fl b db0 quoted now s"
  shows "reachable db0 (New (fl_feePct fl) quoted) (gw s) \<and>
    (\<forall>s'. process_step net s s' \<longrightarrow> gw_steps (gw s) (gw s'))"
  using process_run_reachable [OF assms] process_step_gateway by blast

text \<open>A run: a node connects, then a buyer's request is served by it.\<close>

definition node_message :: http_message where
  "node_message = example_message\<lparr>h_Method := ''GET'', h_Path := ''/v1/gateway/ws'', h_api_key := ''key''\<rparr>"

definition chat_message :: http_message where
  \<open>chat_message = \<lparr>h_Method = ''POST'', h_Path = ''/v1/chat/completions'', h_RemoteAddr = ''a'', h_XRealIp = '''',
     h_Authorization = ''Bearer rc_user'', h_XPlayground = ''true'', h_api_key = '''', h_Body = ''{"model":"m"}'',
     h_BodyErr = False\<rparr>\<close>

definition serve_calm :: serve_env where
  "serve_calm = \<lparr>se_limit = 0, se_gw = example_env\<lparr>e_order := [''node-0001'']\<rparr>, se_api = chat_env\<rparr>"

definition chat_build :: BuildInfo where
  "chat_build = \<lparr>bi_Version = ''0.2.0'', bi_Commit = ''dev''\<rparr>"

lemma system_routes:
  "mux ''GET'' ''/v1/gateway/ws'' = Handler ToWS" "mux ''POST'' ''/v1/chat/completions'' = Handler ToChat"
  "exempt ''/v1/gateway/ws'' = False" "exempt ''/v1/chat/completions'' = False"
  by code_simp+

lemma ServeHTTP_allowed:
  assumes "mux (h_Method m) (h_Path m) = Handler h" "\<not> exempt (h_Path m)"
    "Allow (sv_limiter (srv s)) (client_ip (for_middleware m)) (se_limit e) = (rl, True)"
    "sv_maxBody (srv s) = 1048576" "length (h_Body m) \<le> 1048576"
  shows "ServeHTTP net e m s = dispatch net e h m (s\<lparr>srv := (srv s)\<lparr>sv_limiter := rl\<rparr>\<rparr>)"
  using assms by (simp add: ServeHTTP_def SecurityMiddleware_def for_middleware_def limit_body_def)

lemma example_process:
  "\<exists>s. process_run net example_flags chat_build chat_db None 0 s \<and> pendingJobs (gw s) ''j1'' \<noteq> None"
proof -
  let ?s0 = "main_go example_flags chat_build chat_db None 0"
  have s0: "gw ?s0 = New_gateway chat_db (New (Fin 5) None)" "pub ?s0 = chat_api" "srv ?s0 = NewServer '':8080''"
    by (simp_all add: main_go_def example_flags_def chat_build_def chat_api_def New_api_def SetAssigner_def SetNodeCounter_def)
  have calm: "se_gw serve_calm = example_env\<lparr>e_order := [''node-0001'']\<rparr>" "se_api serve_calm = chat_env"
    by (simp_all add: serve_calm_def)
  have i: "invoiced chat_db = 0" by (simp add: chat_db_def invoiced_def empty_db_def)
  obtain rl1 where l1: "Allow (sv_limiter (srv ?s0)) (client_ip (for_middleware node_message)) (se_limit serve_calm) = (rl1, True)"
    "limit rl1 = 60" "window rl1 = 60000000000" "requests rl1 ''a'' = None"
    by (simp add: s0 NewServer_def NewRateLimiter_def Allow_def entries_of_def for_middleware_def node_message_def
        example_message_def client_ip_def)
  let ?s1 = "fst (ServeHTTP net serve_calm node_message ?s0)"
  have "ServeHTTP net serve_calm node_message ?s0 = dispatch net serve_calm ToWS node_message
      (?s0\<lparr>srv := (srv ?s0)\<lparr>sv_limiter := rl1\<rparr>\<rparr>)"
    by (rule ServeHTTP_allowed [OF _ _ l1(1)])
       (simp_all add: node_message_def system_routes s0 NewServer_def example_message_def)
  moreover have "fst (HandleWS_connect (gw ?s0) (example_env\<lparr>e_order := [''node-0001'']\<rparr>) ''key'') = chat_gateway"
    by (simp add: s0 chat_gateway_def HandleWS_connect_def example_env_def split: sum.split)
  ultimately have s1: "gw ?s1 = chat_gateway" "pub ?s1 = chat_api" "sv_limiter (srv ?s1) = rl1" "sv_maxBody (srv ?s1) = 1048576"
    by (simp_all add: split_beta serve_calm_def node_message_def s0 NewServer_def)
  have "process_step net ?s0 ?s1"
    by (rule process_step.step [of "Http serve_calm node_message"])
       (simp_all add: s0 New_gateway_def i)
  then have r1: "process_run net example_flags chat_build chat_db None 0 ?s1"
    by (rule process_run.step [OF process_run.start])
  obtain rl2 where l2: "Allow (sv_limiter (srv ?s1)) (client_ip (for_middleware chat_message)) (se_limit serve_calm) = (rl2, True)"
    using l1 by (simp add: s1 Allow_def entries_of_def for_middleware_def chat_message_def client_ip_def)
  let ?s2 = "fst (ServeHTTP net serve_calm chat_message ?s1)"
  have d: "ServeHTTP net serve_calm chat_message ?s1 = dispatch net serve_calm ToChat chat_message
      (?s1\<lparr>srv := (srv ?s1)\<lparr>sv_limiter := rl2\<rparr>\<rparr>)"
    by (rule ServeHTTP_allowed [OF _ _ l2]) (simp_all add: chat_message_def system_routes s1)
  obtain g' where g': "HandleChatCompletions chat_api chat_gateway chat_env (example_env\<lparr>e_order := [''node-0001'']\<rparr>) chat_request =
      (g', Streaming 0 1)" using chat_served by blast
  have "for_api chat_message = chat_request" by (simp add: for_api_def chat_message_def chat_request_def)
  then have s2: "gw ?s2 = g'" unfolding d by (simp add: s1 calm g' split_beta)
  have "pendingJobs g' ''j1'' \<noteq> None"
    using g' by (rule HandleChat_streaming) (auto dest!: AssignJob_assigned simp: chat_env_def)
  moreover have "process_step net ?s1 ?s2"
    by (rule process_step.step [of "Http serve_calm chat_message"])
       (simp_all add: s1 chat_gateway_eq New_gateway_def i)
  ultimately show ?thesis using process_run.step [OF r1] s2 by blast
qed

theorem process_refines_gateway_witness:
  "\<exists>g. reachable chat_db (New (Fin 5) None) g \<and> pendingJobs g ''j1'' \<noteq> None"
proof -
  obtain s where s: "process_run (\<lambda>w call. NetError) example_flags chat_build chat_db None 0 s" "pendingJobs (gw s) ''j1'' \<noteq> None"
    using example_process by blast
  then show ?thesis using process_refines_gateway [OF s(1)] by (auto simp: example_flags_def)
qed

text \<open>
  C2: the money is safe in every state of the whole process, whatever it is asked and the network answers: each
  buyer's balance is what was credited to them less what they were charged, not negative, and the charges are
  covered by their recorded jobs; no node has more payouts recorded than it earned; and the payout engine keeps
  its hourly count between nothing and the cap of 10000 sats that it was started with. All earnings together
  are taken to stay within 64 bits.
\<close>

theorem process_solvent:
  assumes "process_run net fl b db0 quoted now s" "books_ok db0" "engine_ok (New (fl_feePct fl) quoted)"
    and "solvent db0" "all_earned (db (gw s)) \<le> max_int64"
  shows "(\<exists>charged. \<forall>k bal. accounts (db (gw s)) k = Some bal \<longrightarrow> bal = credited_to (db (gw s)) k - charged k \<and> 0 \<le> bal \<and>
       0 \<le> charged k \<and> charged k \<le> billed (db (gw s)) k) \<and>
    (\<forall>n. 0 \<le> paid_out (db (gw s)) n \<and> paid_out (db (gw s)) n \<le> earned_by (db (gw s)) n) \<and>
    (\<forall>pe. payouts s = Some pe \<longrightarrow> maxPerHour pe = 10000 \<and> 0 \<le> spentThisHour pe \<and> spentThisHour pe \<le> 10000)"
proof -
  note r = process_run_reachable [OF assms(1)]
  have "books_ok (db (gw s))" using reachable_sound [OF r assms(2,3)] by (simp add: sound_def)
  then obtain sp where sp: "ledger_run sp (db (gw s))" "\<And>k. sp k \<le> billed (db (gw s)) k" by (auto simp: books_ok_def)
  then have "\<exists>charged. \<forall>k bal. accounts (db (gw s)) k = Some bal \<longrightarrow> bal = credited_to (db (gw s)) k - charged k \<and> 0 \<le> bal \<and>
       0 \<le> charged k \<and> charged k \<le> billed (db (gw s)) k"
    using ledger_books [OF sp(1)] by (intro exI [of _ sp]) (auto simp: books_balance_def)
  then show ?thesis
    using solvent_bounds(3,4) [OF process_run_solvent [OF assms(2-4,1,5)]] process_run_guards [OF assms(1)]
    by (simp add: guards_ok_def within_cap_def)
qed

text \<open>A process with LND pays a node that has earned 150 sats.\<close>

definition lnd_flags :: flags where
  "lnd_flags = \<lparr>fl_addr = '':8080'', fl_lndAddr = ''lnd:8080'', fl_lndMacaroon = Some [CHR 0x00], fl_lndTLS = '''', fl_feePct = Fin 5\<rparr>"

definition owing_job :: Job where
  "owing_job = due_job\<lparr>j_earned_msats := 150000\<rparr>"

definition owing_db :: DB where
  "owing_db = empty_db\<lparr>tbl_nodes := [due_node], tbl_jobs := [owing_job]\<rparr>"

lemma owing_books: "books_ok owing_db"
proof -
  let ?ops = "[OpRegisterNode no_faults due_node 0, OpRecordJob no_faults owing_job 0 None]"
  have "db_step (db_step empty_db (?ops ! 0)) (?ops ! 1) = owing_db"
    by (simp add: RegisterNode_def RecordJob_def no_faults_def owing_db_def due_node_def owing_job_def due_job_def empty_db_def
        Let_def secs_def)
  then have "ledger_run (\<lambda>_. 0) owing_db"
    using ledger_run.step [OF ledger_run.step [OF ledger_run.init, of "?ops ! 0"], of "?ops ! 1"] by simp
  then show ?thesis
    by (rule books_okI) (simp_all add: billed_def owing_db_def owing_job_def due_job_def empty_db_def row_ok_def capped_def
        tokens_ok_def maxEarningsPerJobMsats_def)
qed

lemma owing_facts: "solvent owing_db" "owed owing_db m = (if m = ''node-0001'' then 150000 else 0)"
proof -
  show o: "owed owing_db m = (if m = ''node-0001'' then 150000 else 0)" for m
    by (simp add: owed_def earned_by_def paid_out_def owing_db_def owing_job_def due_job_def completed_by_def empty_db_def)
  show "solvent owing_db" unfolding solvent_def o by (simp add: owing_db_def owing_job_def due_job_def empty_db_def)
qed

lemma owing_tick:
  "\<exists>w. processPayouts (PayAddress test_lnd paying_net) calm_env (NewPayoutEngine 10000 0, owing_db, []) =
    ((NewPayoutEngine 10000 0)\<lparr>spentThisHour := 150\<rparr>,
     fst (RecordPayout no_faults owing_db ''node-0001'' 150000 ''010203'' ''confirmed'' 7), w)"
proof -
  let ?n = "payout_row due_node"
  have n: "n_node_id ?n = ''node-0001''" "n_lightning_addr ?n = ''bob@x.y''" "n_redeem_threshold ?n = 100"
    by (simp_all add: payout_row_def due_node_def)
  have q: "PendingPayouts no_faults owing_db = Inr [?n]"
    using owing_facts
    by (simp add: PendingPayouts_def due_def solvent_unpaid Let_def no_faults_def deliver_def due_node_def owing_db_def)
  have "payable calm_env ?n 10000 0 owing_db 150"
    by (simp add: payable_solvent owing_facts n no_faults_def in_int64_def)
  then show ?thesis
    using paying_net_pays(1) [of 150 "[]"]
    by (simp add: processPayouts_def q start_tick_def pay_node_pays NewPayoutEngine_def n confirmed_def split_beta Let_def
        in_int64_def)
qed

theorem process_solvent_witness:
  "\<exists>s pe. process_run paying_net lnd_flags chat_build owing_db None 0 s \<and> paid_out (db (gw s)) ''node-0001'' = 150000 \<and>
     150000 \<le> earned_by (db (gw s)) ''node-0001'' \<and> payouts s = Some pe \<and> spentThisHour pe = 150 \<and> spentThisHour pe \<le> 10000"
proof -
  let ?start = "main_go lnd_flags chat_build owing_db None 0" and ?run = "process_run paying_net lnd_flags chat_build owing_db None 0"
  let ?s = "payout_step paying_net calm_env ?start"
  let ?d = "fst (RecordPayout no_faults owing_db ''node-0001'' 150000 ''010203'' ''confirmed'' 7)"
  have "hex_encode [CHR 0x00] = ''00''" "Contains ''lnd:8080'' '':''" by code_simp+
  then have s0: "ln ?start = Some test_lnd" "payouts ?start = Some (NewPayoutEngine 10000 0)" "calls ?start = []" "db (gw ?start) = owing_db"
    by (simp_all add: main_go_def lnd_flags_def NewLND_def New_gateway_def Let_def)
  obtain w where "processPayouts (PayAddress test_lnd paying_net) calm_env (NewPayoutEngine 10000 0, owing_db, []) =
      ((NewPayoutEngine 10000 0)\<lparr>spentThisHour := 150\<rparr>, ?d, w)" using owing_tick by blast
  then have s: "db (gw ?s) = ?d" "payouts ?s = Some ((NewPayoutEngine 10000 0)\<lparr>spentThisHour := 150\<rparr>)"
    by (simp_all add: payout_step_def s0 payout_tick_def)
  have r: "?run ?s"
    by (rule process_run.step [OF process_run.start], rule process_step.step [of "PayoutTick calm_env"]) simp_all
  have e: "engine_ok (New (fl_feePct lnd_flags) None)" using example_engine by (simp add: lnd_flags_def)
  have "all_earned (db (gw ?s)) \<le> max_int64"
    unfolding s(1) by (simp add: all_earned_def RecordPayout_def no_faults_def owing_db_def owing_job_def due_job_def)
  note safe = process_solvent [OF r owing_books e owing_facts(1) this]
  have p: "paid_out (db (gw ?s)) ''node-0001'' = 150000"
    unfolding s(1) by (simp add: RecordPayout_def no_faults_def paid_out_def paid_to_def owing_db_def empty_db_def)
  have "150000 \<le> earned_by (db (gw ?s)) ''node-0001''" using safe p by metis
  moreover have "spentThisHour ((NewPayoutEngine 10000 0)\<lparr>spentThisHour := 150\<rparr>) \<le> 10000" using safe s(2) by blast
  ultimately show ?thesis using r p s(2) by fastforce
qed

end
