(* ===== verification/Lives.thy ===== *)
theory Lives
  imports System
begin

text \<open>
  The lives of the gateway: \<open>main\<close> from the command line on, opening the database file, binding the port, and what
  a sequence of processes, each started on the file the one before it left, does to the books. Command-line
  flags are taken as parsed by the standard library. A process can end at any moment, by a signal, a crash of its
  own or the machine's; SQLite writes through, so the file is then what the process had in its tables.
\<close>

section \<open>Opening the database\<close>

text \<open>The files by path. Every statement of the migration is \<open>CREATE ... IF NOT EXISTS\<close>: only a new file changes.\<close>

type_synonym disk = "string \<rightharpoonup> DB"

definition migrate :: "DB option \<Rightarrow> DB" where
  "migrate file = (case file of None \<Rightarrow> empty_db | Some d \<Rightarrow> d)"

definition Open :: "driver \<Rightarrow> disk \<Rightarrow> string \<Rightarrow> db_error + DB" where
  "Open d disk path =
     (if fails d 0 then Inl ErrDriver
      else if fails d 1 then Inl ErrDriver
      else Inr (migrate (disk path)))"

section \<open>Starting\<close>

record command =
  c_showVersion :: bool
  c_dbPath :: string
  c_flags :: flags

definition default_command :: command where
  "default_command = \<lparr>c_showVersion = False, c_dbPath = ''routecat.db'',
     c_flags = \<lparr>fl_addr = '':8080'', fl_lndAddr = '''', fl_lndMacaroon = None, fl_lndTLS = '''', fl_feePct = Fin 5\<rparr>\<rparr>"

text \<open>What the process finds: the driver, the answer to the first price request, the clock, the ports it can bind.\<close>

record launch_env =
  l_db :: driver
  l_quoted :: "string option"
  l_now :: time
  l_listen :: "string \<Rightarrow> bool"

datatype listen_error = ErrListen

text \<open>\<open>Start\<close> up to the call of \<open>Serve\<close>, whose requests are the events of the process.\<close>

definition Start :: "(string \<Rightarrow> bool) \<Rightarrow> Server \<Rightarrow> listen_error option" where
  "Start listen s = (if listen (sv_addr s) then None else Some ErrListen)"

datatype outcome =
  Printed string
| FatalDatabase db_error
| FatalServer listen_error
| Serving Process

definition version :: string where "version = ''0.2.0''"

definition main :: "command \<Rightarrow> string \<Rightarrow> launch_env \<Rightarrow> disk \<Rightarrow> outcome" where
  "main cmd commit e disk =
     (if c_showVersion cmd then Printed (''routecat '' @ version @ '' ('' @ commit @ '')'' @ [newline])
      else (case Open (l_db e) disk (c_dbPath cmd) of
          Inl err \<Rightarrow> FatalDatabase err
        | Inr db0 \<Rightarrow>
            (let s = main_go (c_flags cmd) \<lparr>bi_Version = version, bi_Commit = commit\<rparr> db0 (l_quoted e) (l_now e)
             in case Start (l_listen e) (srv s) of
                  Some err \<Rightarrow> FatalServer err
                | None \<Rightarrow> Serving s)))"

lemma main_Serving:
  assumes "main cmd commit e disk = Serving s"
  shows "\<not> c_showVersion cmd \<and> l_listen e (fl_addr (c_flags cmd)) \<and>
    s = main_go (c_flags cmd) \<lparr>bi_Version = version, bi_Commit = commit\<rparr> (migrate (disk (c_dbPath cmd))) (l_quoted e) (l_now e)"
  using assms
  by (auto simp: main_def Open_def Start_def main_go_def NewServer_def Let_def split: if_splits sum.splits option.splits)

section \<open>One life after the other\<close>

text \<open>
  A service: from no file at all, each life starts on what the last one left, with its own flags, network and
  surroundings, and ends anywhere: after any number of steps, in a step that panics, or at once because the port
  is taken. The engine's fee and first price are as the gateway's own steps demand.
\<close>

inductive service :: "disk \<Rightarrow> bool" where
  fresh: "service Map.empty"
| life: "service disk \<Longrightarrow> main cmd commit e disk = Serving s0 \<Longrightarrow> engine_ok (bill (gw s0)) \<Longrightarrow>
    (process_step net)\<^sup>*\<^sup>* s0 s \<Longrightarrow> service (disk(c_dbPath cmd \<mapsto> db (gw s)))"
| crash: "service disk \<Longrightarrow> main cmd commit e disk = Serving s0 \<Longrightarrow> engine_ok (bill (gw s0)) \<Longrightarrow>
    (process_step net)\<^sup>*\<^sup>* s0 s \<Longrightarrow> event_ok ev s \<Longrightarrow> run_event net ev s = (s', True) \<Longrightarrow>
    service (disk(c_dbPath cmd \<mapsto> db (gw s')))"
| port_taken: "service disk \<Longrightarrow> main cmd commit e disk = FatalServer err \<Longrightarrow>
    service (disk(c_dbPath cmd \<mapsto> migrate (disk (c_dbPath cmd))))"

text \<open>The books survive every step, the one that ends the process included.\<close>

lemma migrate_books: "(\<And>d. f = Some d \<Longrightarrow> books_ok d) \<Longrightarrow> books_ok (migrate f)"
proof (cases f)
  case None
  moreover have "books_ok empty_db"
    by (rule books_okI [OF ledger_run.init]) (simp_all add: billed_def empty_db_def)
  ultimately show ?thesis by (simp add: migrate_def)
qed (simp add: migrate_def)

lemma gw_steps_sound: "gw_steps g g' \<Longrightarrow> sound g \<Longrightarrow> sound g'"
proof (induction rule: gw_steps.induct)
  case (step g g1 ev g2)
  then show ?case using gw_exec_sound [of g1 ev] by (auto elim!: gw_stepE)
qed

lemma process_steps_sound: "(process_step net)\<^sup>*\<^sup>* s0 s \<Longrightarrow> sound (gw s0) \<Longrightarrow> sound (gw s)"
  by (induction rule: rtranclp_induct) (auto intro: gw_steps_sound process_step_gateway)

lemma crash_sound:
  assumes "run_event net ev s = (s', True)" "event_ok ev s" "sound (gw s)" shows "sound (gw s')"
proof -
  have gws: "sound (gw s')" if "at_gateway gev s = (s', True)" "ev_ok (gw s) gev" for gev
    using gw_exec_sound [OF assms(3) that(2)] that(1) by (auto simp: at_gateway_def split: prod.splits)
  show ?thesis
  proof (cases ev)
    case (WatchTick e)
    then have "gw_steps (gw s) (gw s')" using watch_steps [of s net e] assms(1) by simp
    then show ?thesis using gw_steps_sound assms(3) by blast
  qed (use assms gws in auto)
qed

lemma main_sound:
  assumes "main cmd commit e disk = Serving s0" "engine_ok (bill (gw s0))" "\<And>d. disk (c_dbPath cmd) = Some d \<Longrightarrow> books_ok d"
  shows "sound (gw s0)"
proof -
  have "db (gw s0) = migrate (disk (c_dbPath cmd))"
    using main_Serving [OF assms(1)] by (simp add: main_go_def New_gateway_def Let_def)
  then show ?thesis using assms(2) migrate_books [OF assms(3)] by (simp add: sound_def)
qed

lemma service_books_ok: "service disk \<Longrightarrow> disk path = Some d \<Longrightarrow> books_ok d"
proof (induction arbitrary: path d rule: service.induct)
  case (life disk cmd commit e s0 net s)
  have "sound (gw s)" by (rule process_steps_sound [OF life(4) main_sound [OF life(2,3) life.IH]])
  then show ?case using life.IH life.prems by (auto simp: sound_def split: if_splits)
next
  case (crash disk cmd commit e s0 net s ev s')
  have "sound (gw s)" by (rule process_steps_sound [OF crash(4) main_sound [OF crash(2,3) crash.IH]])
  then have "sound (gw s')" using crash_sound crash(5,6) by blast
  then show ?case using crash.IH crash.prems by (auto simp: sound_def split: if_splits)
next
  case (port_taken disk cmd commit e err)
  then show ?case using migrate_books [OF port_taken.IH] by (auto split: if_splits)
qed simp

section \<open>Properties\<close>

text \<open>
  C1: whatever happens over any number of lives of the gateway, from a new file on, in the database left behind:
  each balance is what was credited less what was charged, and not negative; nobody was charged more than the
  cost of their recorded jobs; no job is recorded twice, and each within the caps.
\<close>

theorem service_books:
  assumes "service disk" "disk path = Some d"
  shows "(\<exists>charged. \<forall>k bal. accounts d k = Some bal \<longrightarrow>
      bal = credited_to d k - charged k \<and> 0 \<le> bal \<and> 0 \<le> charged k \<and> charged k \<le> billed d k) \<and>
    distinct (map j_job_id (tbl_jobs d)) \<and>
    (\<forall>j\<in>set (tbl_jobs d). j_status j = ''complete'' \<and> tokens_ok (j_tokens_in j) \<and> tokens_ok (j_tokens_out j) \<and>
       0 \<le> j_earned_msats j \<and> 0 \<le> j_fee_msats j \<and> j_earned_msats j + j_fee_msats j \<le> maxEarningsPerJobMsats)"
proof -
  have ok: "books_ok d" by (rule service_books_ok [OF assms])
  then obtain sp where sp: "ledger_run sp d" "\<And>k. sp k \<le> billed d k" by (auto simp: books_ok_def)
  have "\<exists>charged. \<forall>k bal. accounts d k = Some bal \<longrightarrow>
      bal = credited_to d k - charged k \<and> 0 \<le> bal \<and> 0 \<le> charged k \<and> charged k \<le> billed d k"
    using ledger_books [OF sp(1)] sp(2) by (intro exI [of _ sp]) (auto simp: books_balance_def)
  moreover have "wf_db d" using ledger_run_wf wf_db_run ok by (fastforce simp: books_ok_def)
  ultimately show ?thesis using ok by (auto simp: books_ok_def row_ok_def capped_def wf_db_def maxEarningsPerJobMsats_def)
qed

text \<open>A user registers in a first life, and still has their account after a restart.\<close>

definition first_user :: http_message where
  \<open>first_user = \<lparr>h_Method = ''POST'', h_Path = ''/v1/auth/register'', h_RemoteAddr = ''a'', h_XRealIp = '''',
     h_Authorization = '''', h_XPlayground = '''', h_api_key = '''', h_Body = ''{"name":"x"}'', h_BodyErr = False\<rparr>\<close>

definition calm_launch :: launch_env where
  "calm_launch = \<lparr>l_db = no_faults, l_quoted = None, l_now = 0, l_listen = (\<lambda>_. True)\<rparr>"

lemma default_starts:
  "main default_command ''dev'' calm_launch disk =
     Serving (main_go example_flags chat_build (migrate (disk ''routecat.db'')) None 0)"
  by (simp add: main_def default_command_def calm_launch_def Open_def no_faults_def Start_def version_def chat_build_def
      example_flags_def)

lemma default_gateway:
  "gw (main_go example_flags b d None 0) = New_gateway d (New (Fin 5) None)"
  "pub (main_go example_flags b d None 0) = SetNodeCounter (SetAssigner ((New_api b)\<lparr>rt_wired := True\<rparr>))"
  "srv (main_go example_flags b d None 0) = NewServer '':8080''"
  "engine_ok (bill (gw (main_go example_flags b d None 0)))"
  using example_engine by (simp_all add: main_go_def example_flags_def New_gateway_def)

definition user_db :: DB where
  "user_db = empty_db\<lparr>tbl_api_keys :=
     [\<lparr>k_key = ''rc_6b31'', k_user_id = ''id'', k_name = ''x'', k_quota_daily = 10, k_balance_msats = 0\<rparr>]\<rparr>"

lemma first_life: "service [''routecat.db'' \<mapsto> user_db]"
proof -
  let ?s0 = "main_go example_flags chat_build empty_db None 0"
  let ?e = "\<lparr>se_limit = 0, se_gw = example_env, se_api = reg_env 1 ''k1''\<rparr>"
  let ?s1 = "fst (ServeHTTP net ?e first_user ?s0)"
  have m: "mux (h_Method first_user) (h_Path first_user) = Handler ToRegisterUser" "\<not> exempt (h_Path first_user)"
    by code_simp+
  obtain rl where l: "Allow (sv_limiter (srv ?s0)) (client_ip (for_middleware first_user)) (se_limit ?e) = (rl, True)"
    by (simp add: default_gateway NewServer_def NewRateLimiter_def Allow_def entries_of_def)
  have "ServeHTTP net ?e first_user ?s0 = dispatch net ?e ToRegisterUser first_user (?s0\<lparr>srv := (srv ?s0)\<lparr>sv_limiter := rl\<rparr>\<rparr>)"
    by (rule ServeHTTP_allowed [OF m l]) (simp_all add: default_gateway NewServer_def first_user_def)
  moreover have "for_api first_user = reg_request" by (simp add: for_api_def first_user_def reg_request_def)
  moreover have "decode_first dec_name (q_Body reg_request) '''' = (''x'', False)" "''rc_'' @ hex_encode ''k1'' = ''rc_6b31''"
    by code_simp+
  ultimately have s1: "db (gw ?s1) = user_db"
    by (simp add: split_beta default_gateway HandleRegisterUser_def reg_request_def reg_env_def RegAllow_def reg_ip_def New_api_def
        SetNodeCounter_def SetAssigner_def entries_of_def New_gateway_def CreateUserKey_def no_faults_def user_db_def empty_db_def
        Let_def)
  have "process_step net ?s0 ?s1"
    by (rule process_step.step [of "Http ?e first_user"])
       (simp_all add: default_gateway New_gateway_def invoiced_def empty_db_def)
  then have r: "(process_step net)\<^sup>*\<^sup>* ?s0 ?s1" by blast
  have "main default_command ''dev'' calm_launch Map.empty = Serving ?s0" by (simp add: default_starts migrate_def)
  from service.life [OF service.fresh this default_gateway(4) r] show ?thesis
    unfolding s1 by (simp add: default_command_def)
qed

theorem service_books_witness:
  "service [''routecat.db'' \<mapsto> user_db] \<and> accounts user_db ''rc_6b31'' = Some 0 \<and> credited_to user_db ''rc_6b31'' = 0"
proof -
  have a: "accounts user_db ''rc_6b31'' = Some 0" by (simp add: accounts_def user_db_def)
  have "\<exists>charged. \<forall>k bal. accounts user_db k = Some bal \<longrightarrow>
      bal = credited_to user_db k - charged k \<and> 0 \<le> bal \<and> 0 \<le> charged k \<and> charged k \<le> billed user_db k"
    using service_books [OF first_life, of "''routecat.db''" user_db] by (metis fun_upd_same)
  then obtain charged where c: "0 = credited_to user_db ''rc_6b31'' - charged ''rc_6b31''"
      "0 \<le> charged ''rc_6b31''" "charged ''rc_6b31'' \<le> billed user_db ''rc_6b31''"
    using a by fastforce
  have "billed user_db ''rc_6b31'' = 0" by (simp add: billed_def user_db_def empty_db_def)
  then show ?thesis using c first_life a by simp
qed

section \<open>The hourly cap does not outlive the process\<close>

lemma main_run:
  assumes "main cmd commit e disk = Serving s0" "(process_step net)\<^sup>*\<^sup>* s0 s"
  shows "\<exists>b d. process_run net (c_flags cmd) b d (l_quoted e) (l_now e) s"
proof -
  let ?run = "process_run net (c_flags cmd) \<lparr>bi_Version = version, bi_Commit = commit\<rparr> (migrate (disk (c_dbPath cmd)))
    (l_quoted e) (l_now e)"
  have "?run s" using assms(2)
  proof (induction rule: rtranclp_induct)
    case base
    then show ?case using process_run.start main_Serving [OF assms(1)] by metis
  qed (rule process_run.step)
  then show ?thesis by blast
qed

text \<open>When the hour is spent, a tick pays nobody.\<close>

lemma spent_hour_pays_nobody:
  assumes "fold (pay_node pay e) ns (pe, m, d, w) = (pe', spent', d', w')"
    and "maxPerHour pe = m" "spentThisHour pe = m" "0 < m" "m \<le> 2 ^ 62" "solvent d"
  shows "owed d' k = owed d k"
  using assms
proof (induction ns arbitrary: pe d w)
  case (Cons n ns)
  obtain pe1 s1 d1 w1 where s: "pay_node pay e n (pe, m, d, w) = (pe1, s1, d1, w1)" by (metis prod.collapse)
  have "maxPerHour pe1 = m \<and> spentThisHour pe1 = m \<and> s1 = m \<and> owed d1 k = owed d k"
    using s
  proof (cases rule: pay_node_cases)
    case (paid sats h)
    then have "sats = 0" using payable_bounds [OF paid(1)] Cons.prems by simp
    then show ?thesis using paid(4) Cons.prems(2-5) by (simp add: RecordPayout_owed in_int64_def)
  qed (use Cons.prems in auto)
  moreover have "solvent d1" using pays_out_solvent [OF Cons.prems(6) pay_node_pays_out [OF Cons.prems(6) s]] .
  ultimately show ?case using Cons.IH [of pe1 d1 w1] Cons.prems s by simp
qed simp

text \<open>
  C33: the hourly cap is the process's, not the service's: when a process has paid its 10000 sats, a tick leaves the
  nodes that are due alone, but the same tick pays them once the process has been restarted, although the hour is
  not over.
\<close>

theorem restart_forgets_cap:
  assumes "main cmd commit e1 disk = Serving s0" "(process_step net)\<^sup>*\<^sup>* s0 s1"
    and "payouts s1 = Some pe" "spentThisHour pe = 10000" "pe_since e - hourStart pe \<le> hour"
    and "main cmd commit e2 (disk(c_dbPath cmd \<mapsto> db (gw s1))) = Serving s2" "pe_since e - l_now e2 \<le> hour"
    and "ln s2 = Some c" "\<And>w. confirmed (snd (PayAddress c net w (n_lightning_addr n) (owed (db (gw s1)) (n_node_id n) div 1000)))"
    and "solvent (db (gw s1))" "wf_db (db (gw s1))" "PendingPayouts (pe_query e) (db (gw s1)) = Inr ns" "n \<in> set ns"
    and "0 < n_redeem_threshold n" "due_sats (db (gw s1)) ns \<le> 10000"
    and "\<not> fails (pe_balance e (n_node_id n)) 0" "\<not> fails (pe_balance e (n_node_id n)) 1"
      "\<not> fails (pe_record e (n_node_id n)) 0"
  shows "owed (db (gw (payout_step net e s1))) (n_node_id n) = owed (db (gw s1)) (n_node_id n) \<and>
    owed (db (gw (payout_step net e s2))) (n_node_id n) = owed (db (gw s1)) (n_node_id n) mod 1000"
proof
  let ?d = "db (gw s1)" and ?k = "n_node_id n"
  have "guards_ok s1" using main_run [OF assms(1,2)] process_run_guards by blast
  then have m: "maxPerHour pe = 10000" using assms(3) by (auto simp: guards_ok_def within_cap_def)
  have st: "start_tick e pe = pe" using assms(5) by (simp add: start_tick_def)
  show "owed (db (gw (payout_step net e s1))) ?k = owed ?d ?k"
  proof (cases "ln s1")
    case (Some c1)
    obtain pe' d' w' where p: "processPayouts (PayAddress c1 net) e (pe, ?d, calls s1) = (pe', d', w')" by (metis prod.collapse)
    then have "owed d' ?k = owed ?d ?k"
    proof (cases rule: processPayouts_fold)
      case (queried ns' spent')
      then show ?thesis
        using spent_hour_pays_nobody [of "PayAddress c1 net" e ns' pe 10000 ?d "calls s1"] m assms(4,10) by (simp add: st)
    qed simp
    then show ?thesis using p by (simp add: payout_step_def assms(3) Some payout_tick_def)
  qed (simp add: payout_step_def assms(3) payout_tick_def)
  have s2: "db (gw s2) = ?d" "payouts s2 = Some (NewPayoutEngine 10000 (l_now e2))"
    using main_Serving [OF assms(6)] assms(8)
    by (auto simp: main_go_def New_gateway_def migrate_def Let_def split: if_splits sum.splits)
  obtain pe' d' w' where p: "processPayouts (PayAddress c net) e (NewPayoutEngine 10000 (l_now e2), ?d, calls s2) = (pe', d', w')"
    by (metis prod.collapse)
  have "owed d' ?k = owed ?d ?k mod 1000"
    by (rule tick_pays_due [OF assms(10-14,16-18,9) _ _ p]) (use assms(7,15) in \<open>simp_all add: start_tick_def NewPayoutEngine_def\<close>)
  then show "owed (db (gw (payout_step net e s2))) ?k = owed ?d ?k mod 1000"
    using p by (simp add: payout_step_def s2 assms(8) payout_tick_def)
qed

text \<open>
  A node is owed 10000 sats, another 250. The first tick pays the one, and its hour is spent; after a restart at
  once the other is paid as well.
\<close>

definition two_db :: DB where
  "two_db = empty_db\<lparr>tbl_nodes := [due_node, due_node\<lparr>n_node_id := ''node-0002'', n_api_key := ''k2''\<rparr>],
     tbl_jobs := [due_job\<lparr>j_earned_msats := 10000000\<rparr>, due_job\<lparr>j_job_id := ''j2'', j_node_id := ''node-0002''\<rparr>]\<rparr>"

definition one_paid :: DB where
  "one_paid = fst (RecordPayout no_faults two_db ''node-0001'' 10000000 ''010203'' ''confirmed'' 7)"

definition lnd_command :: command where
  "lnd_command = default_command\<lparr>c_flags := example_flags\<lparr>fl_lndAddr := ''lnd'', fl_lndMacaroon := Some [CHR 0x00]\<rparr>\<rparr>"

lemma two_db_owed:
  "owed two_db k = (if k = ''node-0001'' then 10000000 else if k = ''node-0002'' then 250500 else 0)" "solvent two_db"
  "owed one_paid k = (if k = ''node-0002'' then 250500 else 0)" "solvent one_paid"
proof -
  show o: "owed two_db k = (if k = ''node-0001'' then 10000000 else if k = ''node-0002'' then 250500 else 0)" for k
    by (simp add: owed_def earned_by_def paid_out_def two_db_def due_job_def completed_by_def empty_db_def)
  show s: "solvent two_db" unfolding solvent_def o by (simp add: two_db_def due_job_def empty_db_def)
  show "solvent one_paid" unfolding one_paid_def by (rule RecordPayout_solvent [OF s]) (simp_all add: o)
  show "owed one_paid k = (if k = ''node-0002'' then 250500 else 0)" for k
    by (simp add: one_paid_def RecordPayout_owed o no_faults_def)
qed

lemma two_db_due:
  "PendingPayouts no_faults two_db = Inr [payout_row due_node, payout_row (due_node\<lparr>n_node_id := ''node-0002'', n_api_key := ''k2''\<rparr>)]"
  "PendingPayouts no_faults one_paid = Inr [payout_row (due_node\<lparr>n_node_id := ''node-0002'', n_api_key := ''k2''\<rparr>)]"
proof -
  let ?n2 = "due_node\<lparr>n_node_id := ''node-0002'', n_api_key := ''k2''\<rparr>"
  have nodes: "tbl_nodes two_db = [due_node, ?n2]" "tbl_nodes one_paid = [due_node, ?n2]"
    by (simp_all add: one_paid_def RecordPayout_def two_db_def)
  have n: "n_node_id due_node = ''node-0001''" "n_lightning_addr due_node \<noteq> ''''" "n_redeem_threshold due_node = 100"
    by (simp_all add: due_node_def)
  have d: "due d x \<longleftrightarrow> n_redeem_threshold x * 1000 \<le> owed d (n_node_id x)" if "solvent d" for d x
    using that by (simp add: due_def solvent_unpaid)
  have u: "unpaid two_db k \<noteq> None" "unpaid one_paid k \<noteq> None" for k by (simp_all add: solvent_unpaid two_db_owed)
  show "PendingPayouts no_faults two_db = Inr [payout_row due_node, payout_row ?n2]"
    "PendingPayouts no_faults one_paid = Inr [payout_row ?n2]"
    by (simp_all add: PendingPayouts_def nodes n u d two_db_owed no_faults_def deliver_def Let_def)
qed

lemma lnd_start:
  "main lnd_command ''dev'' calm_launch disk =
     Serving (main_go (c_flags lnd_command) chat_build (migrate (disk ''routecat.db'')) None 0)"
  "ln (main_go (c_flags lnd_command) chat_build d None 0) = Some test_lnd"
  "payouts (main_go (c_flags lnd_command) chat_build d None 0) = Some (NewPayoutEngine 10000 0)"
  "db (gw (main_go (c_flags lnd_command) chat_build d None 0)) = d"
  "calls (main_go (c_flags lnd_command) chat_build d None 0) = []"
proof -
  have h: "NewLND ''lnd'' (Some [CHR 0x00]) '''' = Inr test_lnd" by code_simp
  show "main lnd_command ''dev'' calm_launch disk =
     Serving (main_go (c_flags lnd_command) chat_build (migrate (disk ''routecat.db'')) None 0)"
    by (simp add: main_def lnd_command_def default_command_def calm_launch_def Open_def no_faults_def Start_def version_def
        chat_build_def)
  show "ln (main_go (c_flags lnd_command) chat_build d None 0) = Some test_lnd"
    "payouts (main_go (c_flags lnd_command) chat_build d None 0) = Some (NewPayoutEngine 10000 0)"
    "db (gw (main_go (c_flags lnd_command) chat_build d None 0)) = d"
    "calls (main_go (c_flags lnd_command) chat_build d None 0) = []"
    by (simp_all add: main_go_def lnd_command_def default_command_def example_flags_def h New_gateway_def Let_def)
qed

lemma first_tick:
  assumes "s0 = main_go (c_flags lnd_command) chat_build two_db None 0" "s1 = payout_step paying_net calm_env s0"
  shows "payouts s1 = Some ((NewPayoutEngine 10000 0)\<lparr>spentThisHour := 10000\<rparr>)" "db (gw s1) = one_paid"
proof -
  let ?n1 = "payout_row due_node" and ?n2 = "payout_row (due_node\<lparr>n_node_id := ''node-0002'', n_api_key := ''k2''\<rparr>)"
  let ?pay = "PayAddress test_lnd paying_net" and ?pe = "NewPayoutEngine 10000 0"
  have n: "n_node_id ?n1 = ''node-0001''" "n_lightning_addr ?n1 = ''bob@x.y''" "n_node_id ?n2 = ''node-0002''"
    "n_redeem_threshold ?n1 = 100" by (simp_all add: payout_row_def due_node_def)
  have "payable calm_env ?n1 10000 0 two_db 10000"
    by (simp add: payable_solvent two_db_owed n no_faults_def in_int64_def)
  then have p1: "pay_node ?pay calm_env ?n1 (?pe, 0, two_db, []) =
      (?pe\<lparr>spentThisHour := 10000\<rparr>, 10000, one_paid, fst (?pay [] ''bob@x.y'' 10000))"
    using paying_net_pays(1) [of 10000 "[]"]
    by (simp add: pay_node_pays NewPayoutEngine_def n confirmed_def split_beta Let_def in_int64_def one_paid_def)
  have "\<not> payable calm_env ?n2 10000 10000 one_paid sats" for sats
    by (cases "sats = 250") (simp_all add: payable_solvent two_db_owed n in_int64_def)
  then have p2: "pay_node ?pay calm_env ?n2 (?pe\<lparr>spentThisHour := 10000\<rparr>, 10000, one_paid, w) =
      (?pe\<lparr>spentThisHour := 10000\<rparr>, 10000, one_paid, w)" for w
    by (intro pay_node_skip) (simp add: NewPayoutEngine_def)
  have "start_tick calm_env ?pe = ?pe" "spentThisHour ?pe = 0" by (simp_all add: start_tick_def NewPayoutEngine_def)
  then have "processPayouts ?pay calm_env (?pe, two_db, []) =
      (?pe\<lparr>spentThisHour := 10000\<rparr>, one_paid, fst (?pay [] ''bob@x.y'' 10000))"
    by (simp add: processPayouts_def two_db_due p1 p2)
  then show "payouts s1 = Some (?pe\<lparr>spentThisHour := 10000\<rparr>)" "db (gw s1) = one_paid"
    by (simp_all add: assms payout_step_def lnd_start payout_tick_def)
qed

theorem restart_forgets_cap_witness:
  "\<exists>s1 s2. owed (db (gw s1)) ''node-0002'' = 250500 \<and>
     main lnd_command ''dev'' calm_launch [''routecat.db'' \<mapsto> db (gw s1)] = Serving s2 \<and>
     owed (db (gw (payout_step paying_net calm_env s1))) ''node-0002'' = 250500 \<and>
     owed (db (gw (payout_step paying_net calm_env s2))) ''node-0002'' = 500"
proof -
  define s0 where "s0 = main_go (c_flags lnd_command) chat_build two_db None 0"
  define s1 where "s1 = payout_step paying_net calm_env s0"
  define s2 where "s2 = main_go (c_flags lnd_command) chat_build one_paid None 0"
  let ?n = "payout_row (due_node\<lparr>n_node_id := ''node-0002'', n_api_key := ''k2''\<rparr>)"
  note t = first_tick [OF s0_def s1_def]
  have n: "n_node_id ?n = ''node-0002''" "n_lightning_addr ?n = ''bob@x.y''" "n_redeem_threshold ?n = 100"
    by (simp_all add: payout_row_def due_node_def)
  have path: "c_dbPath lnd_command = ''routecat.db''" by (simp add: lnd_command_def default_command_def)
  have m: "main lnd_command ''dev'' calm_launch [''routecat.db'' \<mapsto> two_db] = Serving s0"
    "main lnd_command ''dev'' calm_launch ([''routecat.db'' \<mapsto> two_db](c_dbPath lnd_command \<mapsto> db (gw s1))) = Serving s2"
    unfolding path t(2) by (simp_all add: lnd_start(1) migrate_def s0_def s2_def)
  have "process_step paying_net s0 s1" by (rule process_step.step [of "PayoutTick calm_env"]) (simp_all add: s1_def)
  then have r: "(process_step paying_net)\<^sup>*\<^sup>* s0 s1" by blast
  have wf: "wf_db one_paid" by (simp add: wf_db_def one_paid_def two_db_def due_node_def due_job_def empty_db_def RecordPayout_def)
  have "owed (db (gw (payout_step paying_net calm_env s1))) (n_node_id ?n) = owed (db (gw s1)) (n_node_id ?n) \<and>
      owed (db (gw (payout_step paying_net calm_env s2))) (n_node_id ?n) = owed (db (gw s1)) (n_node_id ?n) mod 1000"
    by (rule restart_forgets_cap [OF m(1) r t(1) _ _ m(2), where c = test_lnd and ns = "[?n]"])
       (simp_all add: t(2) n two_db_owed two_db_due wf NewPayoutEngine_def calm_launch_def s2_def lnd_start confirmed_def
         paying_net_pays no_faults_def [THEN arg_cong [where f = fails]] due_sats_def)
  then show ?thesis
    using m(2) by (intro exI [of _ s1] exI [of _ s2]) (simp add: n t(2) two_db_owed path)
qed

end
