(* ===== verification/Register.thy ===== *)
theory Register
  imports Nodes
begin

text \<open>
  Registration and connection together: \<open>HandleRegister\<close> stores a node, \<open>HandleWS\<close> finds it by its key and
  takes its models from the row.
\<close>

section \<open>What registration stores\<close>

text \<open>The requests that get past the checks of \<open>HandleRegister\<close>.\<close>

definition accepted :: "request \<Rightarrow> RegisterPayload \<Rightarrow> bool" where
  "accepted r reg \<longleftrightarrow> r_Method r = ''POST'' \<and> HasPrefix (r_Authorization r) ''Bearer '' \<and>
     (\<exists>body. r_Body r = Some body \<and> unmarshal dec_register body zero_reg = (reg, False)) \<and>
     reg_APIKey reg = TrimPrefix (r_Authorization r) ''Bearer '' \<and>
     (reg_LightningAddress reg = '''' \<or> isValidLightningAddress (reg_LightningAddress reg)) \<and>
     minRedeemThresholdSats \<le> reg_RedeemThreshold reg"

lemma HandleRegister_accepted:
  assumes "accepted r reg"
  shows "HandleRegister g e r =
    (let (db', dberr) = RegisterNode (e_db e DbRegisterNode) (db g) (node_of_reg reg) (e_now e)
     in (g\<lparr>db := db'\<rparr>, if dberr \<noteq> None then (500, ''internal error'') else (201, '''')))"
  using assms by (auto simp: accepted_def HandleRegister_def Let_def not_less)

lemma HandleRegister_created:
  assumes "HandleRegister g e r = (g', (201, b))"
  obtains reg where "accepted r reg" "g' = g\<lparr>db := fst (RegisterNode (e_db e DbRegisterNode) (db g) (node_of_reg reg) (e_now e))\<rparr>"
    "snd (RegisterNode (e_db e DbRegisterNode) (db g) (node_of_reg reg) (e_now e)) = None"
proof -
  obtain body where body: "r_Body r = Some body" using assms by (auto simp: HandleRegister_def Let_def split: if_splits option.splits)
  obtain reg err where d: "unmarshal dec_register body zero_reg = (reg, err)" by force
  show ?thesis
    using assms by (intro that [of reg]) (auto simp: HandleRegister_def body d accepted_def Let_def split_beta split: if_splits)
qed

lemma node_of_reg_simps [simp]:
  "n_node_id (node_of_reg reg) = reg_NodeID reg" "n_api_key (node_of_reg reg) = reg_APIKey reg"
  "n_models (node_of_reg reg) = enc_strings (reg_Models reg)" "n_lightning_addr (node_of_reg reg) = reg_LightningAddress reg"
  by (simp_all add: node_of_reg_def)

section \<open>Properties\<close>

text \<open>
  C22: a node that registers under a new id can connect with its key, and the gateway then knows it under its id
  with exactly the models it registered.
\<close>

theorem registered_node_connects:
  assumes "HandleRegister g e r = (g', (201, b))" "accepted r reg"
    and "\<forall>n\<in>set (tbl_nodes (db g)). n_node_id n \<noteq> reg_NodeID reg" "reg_APIKey reg \<noteq> ''''"
    and "\<forall>ms. reg_Models reg = Some ms \<longrightarrow> list_all valid_utf8 ms"
    and "\<not> fails (e_db e' DbNodeByAPIKey) 0" "e_send e'"
  shows "\<exists>g'' c nc. HandleWS_connect g' e' (reg_APIKey reg) = (g'', Inr c) \<and> nodes g'' (reg_NodeID reg) = Some c \<and>
    conns g'' c = Some nc \<and> nc_NodeID nc = reg_NodeID reg \<and>
    nc_Models nc = (case reg_Models reg of None \<Rightarrow> [] | Some ms \<Rightarrow> ms) \<and>
    (next_conn g' \<notin> ran (nodes g') \<longrightarrow> \<not> nc_cancelled nc)"
proof -
  obtain reg' where reg': "accepted r reg'"
    "g' = g\<lparr>db := fst (RegisterNode (e_db e DbRegisterNode) (db g) (node_of_reg reg') (e_now e))\<rparr>"
    "snd (RegisterNode (e_db e DbRegisterNode) (db g) (node_of_reg reg') (e_now e)) = None"
    using HandleRegister_created [OF assms(1)] by blast
  then have [simp]: "reg' = reg" using assms(2) by (auto simp: accepted_def)
  let ?n = "(node_of_reg reg)\<lparr>n_last_seen := e_now e\<rparr>"
  have new: "\<not> list_ex (\<lambda>r. n_node_id r = reg_NodeID reg) (tbl_nodes (db g))"
    using assms(3) by (simp add: list_ex_iff)
  then have db': "tbl_nodes (db g') = tbl_nodes (db g) @ [?n]" "\<not> list_ex (\<lambda>r. n_api_key r = reg_APIKey reg) (tbl_nodes (db g))"
    using reg'(2,3) by (auto simp: RegisterNode_def Let_def split: if_splits)
  then have "find (\<lambda>n. n_api_key n = reg_APIKey reg) (tbl_nodes (db g')) = Some ?n"
    by (simp add: find_append list_ex_find)
  then have look: "NodeByAPIKey (e_db e' DbNodeByAPIKey) (db g') (reg_APIKey reg) = Inr (?n\<lparr>n_last_seen := zero_time\<rparr>)"
    using assms(6) by (simp add: NodeByAPIKey_def)
  let ?nc = "new_conn (?n\<lparr>n_last_seen := zero_time\<rparr>)"
  have models: "nc_Models ?nc = (case reg_Models reg of None \<Rightarrow> [] | Some ms \<Rightarrow> ms)"
    using enc_strings_roundtrip [of "reg_Models reg"] assms(5) by (auto simp: new_conn_def)
  have id: "nc_NodeID ?nc = reg_NodeID reg" "\<not> nc_cancelled ?nc" by (simp_all add: new_conn_def)
  show ?thesis
    using look assms(4,7) models id
    by (cases "nodes g' (reg_NodeID reg)")
       (auto simp: HandleWS_connect_def Let_def update_conn_def ran_def)
qed

text \<open>
  C36: registration does not ask who owns a node: a request with any key of its own replaces the address the node's
  earnings are paid to, and every other detail but its key, and is answered like a new registration.
\<close>

theorem registration_takeover:
  assumes "accepted r reg" "\<not> fails (e_db e DbRegisterNode) 0" "wf_db (db g)"
    and "n \<in> set (tbl_nodes (db g))" "n_node_id n = reg_NodeID reg"
  shows "\<exists>g' n'. HandleRegister g e r = (g', (201, '''')) \<and> n' \<in> set (tbl_nodes (db g')) \<and> n_node_id n' = n_node_id n \<and>
    n_api_key n' = n_api_key n \<and> n_lightning_addr n' = reg_LightningAddress reg \<and>
    (\<forall>m\<in>set (tbl_nodes (db g')). n_node_id m = n_node_id n \<longrightarrow> m = n')"
proof -
  let ?n = "(node_of_reg reg)\<lparr>n_last_seen := e_now e\<rparr>"
  let ?rows = "map (\<lambda>r. if n_node_id r = reg_NodeID reg then upsert_node ?n r else r) (tbl_nodes (db g))"
  have "list_ex (\<lambda>r. n_node_id r = reg_NodeID reg) (tbl_nodes (db g))"
    using assms(4,5) by (auto simp: list_ex_iff)
  then have ans: "HandleRegister g e r = (g\<lparr>db := (db g)\<lparr>tbl_nodes := ?rows\<rparr>\<rparr>, (201, ''''))"
    using assms(2) by (simp add: HandleRegister_accepted [OF assms(1)] RegisterNode_def Let_def)
  have mem: "upsert_node ?n n \<in> set ?rows" using assms(4,5) by force
  have uniq: "m = upsert_node ?n n" if m: "m \<in> set ?rows" "n_node_id m = n_node_id n" for m
  proof -
    obtain m0 where m0: "m0 \<in> set (tbl_nodes (db g))" "m = (if n_node_id m0 = reg_NodeID reg then upsert_node ?n m0 else m0)"
      using m(1) by auto
    then have "n_node_id m0 = n_node_id n" using m(2) assms(5) by (auto simp: upsert_node_def split: if_splits)
    then have "m0 = n" using assms(3,4) m0(1) by (auto simp: wf_db_def distinct_map dest: inj_onD)
    then show ?thesis using m0(2) assms(5) by simp
  qed
  show ?thesis
  proof (intro exI conjI ballI impI)
    show "HandleRegister g e r = (g\<lparr>db := (db g)\<lparr>tbl_nodes := ?rows\<rparr>\<rparr>, (201, ''''))" by (rule ans)
    show "m = upsert_node ?n n" if "m \<in> set (tbl_nodes (db (g\<lparr>db := (db g)\<lparr>tbl_nodes := ?rows\<rparr>\<rparr>)))"
      "n_node_id m = n_node_id n" for m using uniq [of m] that by simp
  qed (use mem in \<open>simp_all add: upsert_node_def\<close>)
qed

section \<open>An example\<close>

definition join_body :: string where
  \<open>join_body = ''{"node_id":"node-0001","api_key":"key2","models":["m","l3"],"lightning_address":"eve@x.yz",'' @
     ''"redeem_threshold_sats":100}''\<close>

definition join_request :: request where
  "join_request = \<lparr>r_Method = ''POST'', r_Authorization = ''Bearer key2'', r_Path = ''/v1/gateway/register'',
     r_api_key = '''', r_Body = Some join_body\<rparr>"

definition join_reg :: RegisterPayload where
  "join_reg = zero_reg\<lparr>reg_NodeID := ''node-0001'', reg_APIKey := ''key2'', reg_Models := Some [''m'', ''l3''],
     reg_LightningAddress := ''eve@x.yz'', reg_RedeemThreshold := 100\<rparr>"

lemma join_accepted: "accepted join_request join_reg"
proof -
  have d: "unmarshal dec_register join_body zero_reg = (join_reg, False)" by code_simp
  have a: "isValidLightningAddress ''eve@x.yz''" by code_simp
  show ?thesis
    unfolding accepted_def
    by (simp add: join_request_def d HasPrefix_def TrimPrefix_def minRedeemThresholdSats_def)
       (simp add: join_reg_def zero_reg_def a)
qed

theorem registered_node_connects_witness:
  "\<forall>bl. \<exists>g' c nc. fst (HandleRegister (New_gateway empty_db bl) example_env join_request) = g' \<and>
     snd (HandleWS_connect g' example_env ''key2'') = Inr c \<and>
     conns (fst (HandleWS_connect g' example_env ''key2'')) c = Some nc \<and> nc_Models nc = [''m'', ''l3'']"
proof (intro allI)
  fix bl
  obtain g' where g': "HandleRegister (New_gateway empty_db bl) example_env join_request = (g', (201, ''''))"
    by (simp add: HandleRegister_accepted [OF join_accepted] RegisterNode_def example_env_def no_faults_def New_gateway_def
        empty_db_def Let_def)
  have v: "list_all valid_utf8 [''m'', ''l3'']" by code_simp
  have x: "\<forall>n\<in>set (tbl_nodes (db (New_gateway empty_db bl))). n_node_id n \<noteq> reg_NodeID join_reg"
    "reg_APIKey join_reg = ''key2''" "reg_Models join_reg = Some [''m'', ''l3'']"
    "\<not> fails (e_db example_env DbNodeByAPIKey) 0" "e_send example_env"
    by (simp_all add: New_gateway_def empty_db_def join_reg_def example_env_def no_faults_def)
  obtain g'' c nc where "HandleWS_connect g' example_env ''key2'' = (g'', Inr c)" "conns g'' c = Some nc"
      "nc_Models nc = [''m'', ''l3'']"
    using registered_node_connects [OF g' join_accepted x(1) _ _ x(4,5)] v x(2,3) by auto
  then show "\<exists>g' c nc. fst (HandleRegister (New_gateway empty_db bl) example_env join_request) = g' \<and>
     snd (HandleWS_connect g' example_env ''key2'') = Inr c \<and>
     conns (fst (HandleWS_connect g' example_env ''key2'')) c = Some nc \<and> nc_Models nc = [''m'', ''l3'']" by (simp add: g')
qed

theorem registration_takeover_witness:
  "\<exists>n'. n' \<in> set (tbl_nodes (db (fst (HandleRegister example_start example_env join_request)))) \<and>
     n_node_id n' = ''node-0001'' \<and> n_api_key n' = ''key'' \<and> n_lightning_addr n' = ''eve@x.yz''"
proof -
  have "wf_db example_db" by (simp add: wf_db_def example_db_def empty_db_def)
  then obtain g' n' where "HandleRegister example_start example_env join_request = (g', (201, ''''))"
      "n' \<in> set (tbl_nodes (db g'))" "n_node_id n' = n_node_id example_node" "n_api_key n' = n_api_key example_node"
      "n_lightning_addr n' = reg_LightningAddress join_reg"
    using registration_takeover [OF join_accepted, of example_env example_start example_node]
    by (auto simp: example_env_def no_faults_def example_start_def New_gateway_def example_db_def example_node_def join_reg_def)
  then show ?thesis by (auto simp: example_node_def join_reg_def)
qed

end
