(* ===== verification/Completion.thy ===== *)
theory Completion
  imports Settlement
begin

text \<open>
  The end of a job, as its parties see it: what \<open>handleProxyDone\<close> does to the books, to the slots of the
  buyer and to the channels, when the database works and when it does not.
\<close>

section \<open>From the message to the books\<close>

lemma earned_recorded:
  assumes "tbl_jobs d' = tbl_jobs d @ [r]" "j_status r = ''complete''"
  shows "earned_by d' n = earned_by d n + (if j_node_id r = n then j_earned_msats r else 0)"
  using assms by (simp add: earned_by_def completed_by_def)

lemma record_job_works:
  assumes "e_db e (DbRecordJob (pj_JobID job)) = no_faults" "\<forall>r\<in>set (tbl_jobs (db g)). j_job_id r \<noteq> pj_JobID job"
  shows "record_job g e job i out p f = (g\<lparr>db := (db g)\<lparr>tbl_jobs := tbl_jobs (db g) @
      [(job_row job i out p f)\<lparr>j_started_at := secs (pj_StartedAt job), j_completed_at := Some (secs (e_now e))\<rparr>]\<rparr>\<rparr>, True)"
  using assms by (auto simp: record_job_def RecordJob_def no_faults_def job_row_def list_ex_iff)

lemma charge_user_works:
  assumes "e_db e DbDeductBalance = no_faults" "funded d" "0 \<le> t"
    and "pj_FreeTier job \<or> (\<exists>b. accounts d (pj_UserKey job) = Some b \<and> t \<le> b)"
  shows "\<exists>d'. (\<forall>g. db g = d \<longrightarrow> charge_user g e job t = (g\<lparr>db := d'\<rparr>, False)) \<and> tbl_jobs d' = tbl_jobs d \<and>
    tbl_payouts d' = tbl_payouts d \<and>
    accounts d' k = (if k = pj_UserKey job \<and> \<not> pj_FreeTier job then map_option (\<lambda>b. b - t) (accounts d k) else accounts d k)"
proof (cases "t > 0 \<and> \<not> pj_FreeTier job")
  case True
  then obtain b where b: "accounts d (pj_UserKey job) = Some b" "t \<le> b" using assms(4) by blast
  have "DeductBalance no_faults d (pj_UserKey job) t = (add_balance d (pj_UserKey job) (- t), None)"
    using b by (simp add: DeductBalance_accounts no_faults_def)
  moreover note funded_withdraw(1) [OF assms(2) b(1) assms(3) b(2)]
  ultimately show ?thesis
    using True b(1) by (intro exI [of _ "add_balance d (pj_UserKey job) (- t)"]) (simp add: charge_user_def assms(1))
next
  case False
  then have "\<forall>g. db g = d \<longrightarrow> charge_user g e job t = (g\<lparr>db := d\<rparr>, False)" by (auto simp: charge_user_def)
  then show ?thesis using False assms(3,4) by (intro exI [of _ d]) (auto simp: map_option.identity)
qed

text \<open>A cost the balance does not cover is not charged at all.\<close>

lemma charge_user_refused:
  assumes "accounts (db g) (pj_UserKey job) = Some b" "b < t" "6 \<le> length (pj_UserKey job)"
  shows "charge_user g e job t = (g\<lparr>db := db g\<rparr>, False)"
  using assms by (auto simp: charge_user_def DeductBalance_accounts)

text \<open>The handler up to the message to the node, when nothing panics.\<close>

lemma handleProxyDone_settles:
  assumes "pendingJobs g (msg_JobID msg) = Some job" "pj_NodeID job = nc_NodeID nc" "\<not> snd (close_chan g (pj_DoneCh job))"
    and "meter_job (bill g) (pj_Model job) (pj_LastChunk job) = ((i, out), usd, p, f)"
  shows "\<exists>g3. db g3 = db g \<and> bill g3 = bill g \<and>
    (\<forall>g4. record_job g3 e job i out p f = (g4, False) \<longrightarrow> handleProxyDone g e c nc msg = (g4, False)) \<and>
    (\<forall>g4 g5. record_job g3 e job i out p f = (g4, True) \<and> charge_user g4 e job (wrap64 (p + f)) = (g5, False) \<longrightarrow>
       db (fst (handleProxyDone g e c nc msg)) = db g5 \<and> \<not> snd (handleProxyDone g e c nc msg))"
proof -
  define g1 where "g1 = g\<lparr>pendingJobs := (pendingJobs g)(msg_JobID msg := None)\<rparr>"
  obtain g2 panic where g2: "close_chan g1 (pj_DoneCh job) = (g2, panic)" by force
  have "\<not> panic" using assms(3) g2 by (auto simp: close_chan_def g1_def split: option.splits if_splits)
  define g3 where "g3 = decrUserJobs g2 (pj_UserKey job)"
  have "db g2 = db g1" "bill g2 = bill g1"
    using close_chan_frame(7,8) [of g1 "pj_DoneCh job"] unfolding g2 by (simp_all only: fst_conv)
  then have s3: "db g3 = db g" "bill g3 = bill g" by (simp_all add: g1_def g3_def)
  show ?thesis
    using s3 g2 \<open>\<not> panic\<close> assms(1,2,4)
    by (intro exI [of _ g3]) (auto simp: handleProxyDone_def split_beta Let_def g1_def [symmetric] g3_def [symmetric])
qed

text \<open>The row of a finished job, and the database with it.\<close>

definition done_row :: "env \<Rightarrow> PendingJob \<Rightarrow> int \<Rightarrow> int \<Rightarrow> int64 \<Rightarrow> int64 \<Rightarrow> Job" where
  "done_row e job i out p f = (job_row job i out p f)\<lparr>j_started_at := secs (pj_StartedAt job),
     j_completed_at := Some (secs (e_now e))\<rparr>"

abbreviation recorded_db :: "DB \<Rightarrow> env \<Rightarrow> PendingJob \<Rightarrow> int \<Rightarrow> int \<Rightarrow> int64 \<Rightarrow> int64 \<Rightarrow> DB" where
  "recorded_db d e job i out p f \<equiv> d\<lparr>tbl_jobs := tbl_jobs d @ [done_row e job i out p f]\<rparr>"

lemma accounts_recorded [simp]: "accounts (d\<lparr>tbl_jobs := js\<rparr>) = accounts d"
  by (simp add: accounts_def fun_eq_iff)

lemma sound_funded: "sound g \<Longrightarrow> funded (db g)"
  using ledger_books books_funded by (auto simp: sound_def books_ok_def)

lemma busy_user:
  assumes "slots_held [] g" "pendingJobs g j = Some job" shows "0 < user_jobs g (pj_UserKey job)"
proof -
  have "j \<in> slots g (pj_UserKey job)" using assms(2) by (auto simp: slots_def)
  moreover have "finite (slots g (pj_UserKey job))"
    using assms(1) by (auto simp: slots_held_def slots_def dom_def elim: finite_subset [rotated])
  ultimately have "0 < card (slots g (pj_UserKey job))" by (auto simp: card_gt_0_iff)
  then show ?thesis using assms(1) by (simp add: slots_held_def)
qed

text \<open>All but the charge, which leaves the database \<open>d5\<close>.\<close>

lemma done_recorded:
  assumes "reachable d b g" "books_ok d" "engine_ok b"
    and "conns g c = Some nc" "msg_Type msg = ''proxy_done''"
    and "pendingJobs g (msg_JobID msg) = Some job" "pj_NodeID job = nc_NodeID nc"
    and "\<forall>cl. e_db e cl = no_faults" "\<forall>r\<in>set (tbl_jobs (db g)). j_job_id r \<noteq> msg_JobID msg"
    and "meter_job (bill g) (pj_Model job) (pj_LastChunk job) = ((i, out), usd, p, f)"
    and "handle_msg g e c msg = (g', panic)"
    and "\<And>h. db h = recorded_db (db g) e job i out p f \<Longrightarrow> charge_user h e job (p + f) = (h\<lparr>db := d5\<rparr>, False)"
    and "tbl_jobs d5 = tbl_jobs (db g) @ [done_row e job i out p f]" "tbl_payouts d5 = tbl_payouts (db g)"
  shows "\<not> panic \<and> db g' = d5 \<and>
    earned_by (db g') n = earned_by (db g) n + (if n = pj_NodeID job then p else 0) \<and>
    paid_out (db g') n = paid_out (db g) n \<and>
    pendingJobs g' = (pendingJobs g)(msg_JobID msg := None) \<and>
    user_jobs g' k = user_jobs g k - (if k = pj_UserKey job then 1 else 0) \<and>
    (\<exists>ch. chans g' (pj_DoneCh job) = Some ch \<and> closed ch)"
proof -
  have s: "sound g" by (rule reachable_sound [OF assms(1-3)])
  have inv: "channels_open g" "slots_held [] g" using reachable_inv [OF assms(1)] by (simp_all add: gw_inv_def)
  have id: "pj_JobID job = msg_JobID msg" using inv(1) assms(6) by (simp add: channels_open_def)
  obtain g1 where cl: "close_chan g (pj_DoneCh job) = (g1, False)"
    using inv(1) assms(6) by (force simp: channels_open_def close_chan_def)
  have np: "\<not> snd (close_chan g (pj_DoneCh job))" by (simp add: cl)
  have pf: "wrap64 (p + f) = p + f"
    using meter_job_ok(3) [OF _ assms(10)] s by (simp add: sound_def capped_def in_int64_def)
  have r: "handleProxyDone g e c nc msg = (g', panic)" using assms(4,5,11) by (simp add: handle_msg_def)
  obtain g3 where g3: "db g3 = db g" and h: "\<And>g4 g5. record_job g3 e job i out p f = (g4, True) \<and>
      charge_user g4 e job (wrap64 (p + f)) = (g5, False) \<Longrightarrow> db g' = db g5 \<and> \<not> panic"
    using handleProxyDone_settles [OF assms(6,7) np assms(10), of e c] unfolding r by auto
  let ?g4 = "g3\<lparr>db := recorded_db (db g) e job i out p f\<rparr>"
  have "record_job g3 e job i out p f = (?g4, True)"
    using record_job_works [of e job g3 i out p f] assms(8,9) id by (simp add: g3 done_row_def)
  moreover have "charge_user ?g4 e job (wrap64 (p + f)) = (?g4\<lparr>db := d5\<rparr>, False)" using assms(12) [of ?g4] pf by simp
  ultimately have db: "db g' = d5" "\<not> panic" using h by fastforce+
  note m = handleProxyDone_maps [OF r assms(6,7) np]
  have "user_jobs g' k = user_jobs (decrUserJobs g (pj_UserKey job)) k" using m(2) by (simp add: user_jobs_def)
  moreover have "earned_by d5 n = earned_by (db g) n + (if n = pj_NodeID job then p else 0)"
    using earned_recorded [OF assms(13), of n] by (auto simp: done_row_def job_row_def)
  moreover have "\<exists>ch. chans g' (pj_DoneCh job) = Some ch \<and> closed ch"
    using m(3) cl by (auto simp: close_chan_def split: option.splits if_splits)
  ultimately show ?thesis
    using assms(13,14) m(1) db busy_user [OF inv(2) assms(6)] user_jobs_decr [of g "pj_UserKey job" k]
    by (simp add: paid_out_def)
qed

section \<open>Properties\<close>

text \<open>
  C3: when its node reports the end of a job and the database works, the job is recorded once with the tokens of
  the last usage report, the node has earned its share, the buyer of a paid job has paid both shares and
  nobody else anything, the job and one slot of the buyer are gone, and the stream of the answer is told to end.
\<close>

theorem done_settles:
  assumes "reachable d b g" "books_ok d" "engine_ok b"
    and "conns g c = Some nc" "msg_Type msg = ''proxy_done''"
    and "pendingJobs g (msg_JobID msg) = Some job" "pj_NodeID job = nc_NodeID nc"
    and "\<forall>cl. e_db e cl = no_faults" "\<forall>r\<in>set (tbl_jobs (db g)). j_job_id r \<noteq> msg_JobID msg"
    and "meter_job (bill g) (pj_Model job) (pj_LastChunk job) = ((i, out), usd, p, f)"
    and "pj_FreeTier job \<or> (\<exists>bal. accounts (db g) (pj_UserKey job) = Some bal \<and> p + f \<le> bal)"
    and "handle_msg g e c msg = (g', panic)"
  shows "\<not> panic \<and>
    tbl_jobs (db g') = tbl_jobs (db g) @
      [(job_row job i out p f)\<lparr>j_started_at := secs (pj_StartedAt job), j_completed_at := Some (secs (e_now e))\<rparr>] \<and>
    earned_by (db g') n = earned_by (db g) n + (if n = pj_NodeID job then p else 0) \<and>
    paid_out (db g') n = paid_out (db g) n \<and>
    accounts (db g') k = (if k = pj_UserKey job \<and> \<not> pj_FreeTier job
      then map_option (\<lambda>bal. bal - (p + f)) (accounts (db g) k) else accounts (db g) k) \<and>
    pendingJobs g' = (pendingJobs g)(msg_JobID msg := None) \<and>
    user_jobs g' k = user_jobs g k - (if k = pj_UserKey job then 1 else 0) \<and>
    (\<exists>ch. chans g' (pj_DoneCh job) = Some ch \<and> closed ch)"
proof -
  have s: "sound g" by (rule reachable_sound [OF assms(1-3)])
  have pf: "0 \<le> p + f" using meter_job_ok(3) [OF _ assms(10)] s by (simp add: sound_def capped_def)
  let ?d4 = "recorded_db (db g) e job i out p f"
  have "funded ?d4" using sound_funded [OF s] by (simp add: funded_def)
  then obtain d5 where d5: "\<And>h. db h = ?d4 \<Longrightarrow> charge_user h e job (p + f) = (h\<lparr>db := d5\<rparr>, False)"
      "tbl_jobs d5 = tbl_jobs (db g) @ [done_row e job i out p f]" "tbl_payouts d5 = tbl_payouts (db g)"
      "accounts d5 k = (if k = pj_UserKey job \<and> \<not> pj_FreeTier job then map_option (\<lambda>b. b - (p + f)) (accounts (db g) k)
         else accounts (db g) k)"
    using charge_user_works [of e ?d4 "p + f" job k] assms(8,11) pf by auto
  note r = done_recorded [OF assms(1-10,12) d5(1-3), of n k]
  then have "db g' = d5" by blast
  then have "tbl_jobs (db g') = tbl_jobs (db g) @ [done_row e job i out p f]"
    "accounts (db g') k = (if k = pj_UserKey job \<and> \<not> pj_FreeTier job
      then map_option (\<lambda>bal. bal - (p + f)) (accounts (db g) k) else accounts (db g) k)" using d5(2,4) by simp_all
  with r show ?thesis unfolding done_row_def by blast
qed

text \<open>
  A job that cannot be recorded, because the database fails or has its id already, is not paid for by anybody; its
  slot is free and its stream ends all the same.
\<close>

theorem unrecorded_done_is_free:
  assumes "channels_open g" "pendingJobs g (msg_JobID msg) = Some job" "pj_NodeID job = nc_NodeID nc"
    and "fails (e_db e (DbRecordJob (pj_JobID job))) 0 \<or> (\<exists>r\<in>set (tbl_jobs (db g)). j_job_id r = pj_JobID job)"
    and "handleProxyDone g e c nc msg = (g', panic)"
  shows "\<not> panic \<and> db g' = db g \<and> pendingJobs g' = (pendingJobs g)(msg_JobID msg := None) \<and>
    userJobs g' = userJobs (decrUserJobs g (pj_UserKey job))"
proof -
  obtain g1 where cl: "close_chan g (pj_DoneCh job) = (g1, False)"
    using assms(1,2) by (force simp: channels_open_def close_chan_def)
  then have np: "\<not> snd (close_chan g (pj_DoneCh job))" by simp
  obtain i out usd p f where m: "meter_job (bill g) (pj_Model job) (pj_LastChunk job) = ((i, out), usd, p, f)"
    by (metis prod.collapse)
  obtain g3 where g3: "db g3 = db g" "\<And>g4. record_job g3 e job i out p f = (g4, False) \<Longrightarrow> (g', panic) = (g4, False)"
    using handleProxyDone_settles [OF assms(2,3) np m, of e c] unfolding assms(5) by auto
  have "record_job g3 e job i out p f = (g3, False)"
    using assms(4) g3(1) by (auto simp: record_job_def RecordJob_def job_row_def list_ex_iff)
  then show ?thesis using g3 handleProxyDone_maps(1,2) [OF assms(5,2,3) np] by simp
qed

text \<open>A buyer with \<open>m\<close> msats has a job done for 1000 prompt and 500 completion tokens: it costs 100 msats.\<close>

definition paid_db :: "int \<Rightarrow> DB" where
  "paid_db m = empty_db\<lparr>tbl_nodes := [example_node],
     tbl_api_keys := [\<lparr>k_key = ''rc_user'', k_user_id = ''u'', k_name = ''n'', k_quota_daily = 10, k_balance_msats = m\<rparr>],
     tbl_invoices := [\<lparr>i_payment_hash = ''h'', i_user_key = ''rc_user'', i_amount_msats = m, i_bolt11 = ''lnbc'',
       i_status = ''credited'', i_created_at = 0\<rparr>]\<rparr>"

definition paid_engine :: Engine where
  "paid_engine = (New (Fin 5) None)\<lparr>prices := \<lparr>price = Fin 65000\<rparr>\<rparr>"

definition paid_connected :: "int \<Rightarrow> Gateway" where
  "paid_connected m = fst (HandleWS_connect (New_gateway (paid_db m) paid_engine) example_env ''key'')"

definition paid_busy :: "int \<Rightarrow> Gateway" where
  "paid_busy m = fst (AssignJob (paid_connected m) example_env ''node-0001'' ''j1'' ''qwen2.5:7b'' ''rc_user'' ''body'' False)"

definition usage_chunk :: string where
  \<open>usage_chunk = ''data: {"usage":{"prompt_tokens":1000,"completion_tokens":500}}''\<close>

definition usage_msg :: WSMsg where
  "usage_msg = zero_msg\<lparr>msg_Type := ''proxy_chunk'', msg_JobID := ''j1'', msg_Data := usage_chunk\<rparr>"

definition end_msg :: WSMsg where
  "end_msg = zero_msg\<lparr>msg_Type := ''proxy_done'', msg_JobID := ''j1''\<rparr>"

definition paid_told :: "int \<Rightarrow> Gateway" where
  "paid_told m = fst (gw_exec (paid_busy m) (EvMessage example_env 0 usage_msg))"

lemma paid_books:
  assumes "0 \<le> m" "in_int64 m" shows "books_ok (paid_db m)"
proof -
  note defs = CreateUserKey_def CreateInvoice_def CreditInvoice_def add_balance_def RegisterNode_def example_node_def
    set_credited_def empty_db_def no_faults_def accounts_def invoiced_def sql_int_def in_int64_def
  let ?db = "db_step (db_step (db_step (db_step empty_db (OpRegisterNode no_faults example_node 0))
    (OpCreateUserKey no_faults ''rc_user'' ''u'' ''n'' 10)) (OpCreateInvoice no_faults ''h'' ''rc_user'' m ''lnbc'' 0))
    (OpCreditInvoice no_faults ''h'')"
  have "\<exists>sp. ledger_run sp ?db \<and> sp = (\<lambda>_. 0)"
    by (rule exI, rule conjI, (rule ledger_run.step)+, rule ledger_run.init) (use assms in \<open>simp_all add: defs\<close>)
  moreover have "?db = paid_db m" using assms by (simp add: paid_db_def defs secs_def Let_def)
  ultimately have "ledger_run (\<lambda>_. 0) (paid_db m)" by simp
  then show ?thesis by (rule books_okI) (simp_all add: billed_def paid_db_def empty_db_def)
qed

lemma paid_engine_ok: "engine_ok paid_engine"
  using New_wf [of "Fin 5" None]
  by (simp add: engine_ok_def paid_engine_def priced_def BtcPrice_def Price_def good_btc_def wf_engine_def)

lemma paid_meter:
  "meter_job paid_engine ''qwen2.5:7b'' usage_chunk = ((1000, 500), Fin (1199038364791121 / 18446744073709551616), 95, 5)"
proof -
  have "parseUsage usage_chunk = (1000, 500)" by code_simp
  moreover have "Calculate paid_engine = Calculate (New (Fin 5) None)"
    by (simp add: fun_eq_iff Calculate_def paid_engine_def New_def Let_def)
  ultimately show ?thesis
    using example_Calculate(1)
    by (simp add: meter_job_def capTokens_eq BtcPrice_def Price_def paid_engine_def capEarnings_def wrap64_def
        maxEarningsPerJobMsats_def)
qed

lemma paid_connected_eq:
  "paid_connected m = (New_gateway (paid_db m) paid_engine)\<lparr>conns := [0 \<mapsto> new_conn (example_node\<lparr>n_last_seen := zero_time\<rparr>)],
     next_conn := 1, nodes := [''node-0001'' \<mapsto> 0]\<rparr>"
  by (simp add: paid_connected_def HandleWS_connect_def New_gateway_def example_env_def NodeByAPIKey_def paid_db_def
      example_node_def no_faults_def Let_def)

lemma paid_busy_state:
  "pendingJobs (paid_busy m) = [''j1'' \<mapsto> example_job\<lparr>pj_Model := ''qwen2.5:7b'', pj_UserKey := ''rc_user''\<rparr>]"
  "user_jobs (paid_busy m) ''rc_user'' = 1" "db (paid_busy m) = (paid_db m)" "bill (paid_busy m) = paid_engine"
  "\<exists>nc. conns (paid_busy m) 0 = Some nc \<and> nc_NodeID nc = ''node-0001''"
  by (simp_all add: paid_busy_def paid_connected_eq AssignJob_def incrUserJobs_def user_jobs_def
      maxConcurrentPerUser_def make_chan_def Send_def example_new_conn New_gateway_def
      example_env_def example_job_def update_conn_def split_beta)

lemma usage_line: "last_chunk usage_chunk old = usage_chunk"
proof -
  have "Contains usage_chunk usage_mark" "find (\<lambda>line. Contains line usage_mark) (Split usage_chunk newline) = Some usage_chunk"
    by code_simp+
  then show ?thesis by (simp add: last_chunk_def)
qed

lemma paid_told_state:
  "pendingJobs (paid_told m) = [''j1'' \<mapsto> example_job\<lparr>pj_Model := ''qwen2.5:7b'', pj_UserKey := ''rc_user'', pj_LastChunk := usage_chunk\<rparr>]"
  "user_jobs (paid_told m) ''rc_user'' = 1" "db (paid_told m) = (paid_db m)" "bill (paid_told m) = paid_engine"
  "\<exists>nc. conns (paid_told m) 0 = Some nc \<and> nc_NodeID nc = ''node-0001''"
  using paid_busy_state [of m]
  by (auto simp: paid_told_def handle_msg_def usage_msg_def handleProxyChunk_def example_job_def usage_line user_jobs_def Let_def)

lemma paid_steps:
  "gw_step (New_gateway (paid_db m) paid_engine) (EvConnect example_env ''key'') (paid_connected m)"
  "gw_step (paid_connected m) (EvAssign example_env ''node-0001'' ''j1'' ''qwen2.5:7b'' ''rc_user'' ''body'' False) (paid_busy m)"
  "gw_step (paid_busy m) (EvMessage example_env 0 usage_msg) (paid_told m)"
proof -
  show "gw_step (New_gateway (paid_db m) paid_engine) (EvConnect example_env ''key'') (paid_connected m)"
    by (rule gw_step.step) (simp_all add: paid_connected_def)
  show "gw_step (paid_connected m) (EvAssign example_env ''node-0001'' ''j1'' ''qwen2.5:7b'' ''rc_user'' ''body'' False) (paid_busy m)"
    by (rule gw_step.step) (simp_all add: paid_busy_def paid_connected_eq New_gateway_def)
  show "gw_step (paid_busy m) (EvMessage example_env 0 usage_msg) (paid_told m)"
    using paid_busy_state(1,5) [of m]
    by (auto intro!: gw_step.step simp: paid_told_def handle_msg_def usage_msg_def handleProxyChunk_def example_job_def Let_def)
qed

lemma paid_reachable: "reachable (paid_db m) paid_engine (paid_told m)"
  using reachable.step [OF reachable.step [OF reachable.step [OF reachable.start paid_steps(1)] paid_steps(2)] paid_steps(3)] .

text \<open>What the handler reads when the node reports the end of this job.\<close>

abbreviation paid_job :: PendingJob where
  "paid_job \<equiv> example_job\<lparr>pj_Model := ''qwen2.5:7b'', pj_UserKey := ''rc_user'', pj_LastChunk := usage_chunk\<rparr>"

lemma paid_reads:
  "msg_Type end_msg = ''proxy_done''" "msg_JobID end_msg = ''j1''" "pj_UserKey paid_job = ''rc_user''"
  "pj_Model paid_job = ''qwen2.5:7b''" "pj_LastChunk paid_job = usage_chunk" "pj_NodeID paid_job = ''node-0001''"
  "\<not> pj_FreeTier paid_job" "e_db example_env = (\<lambda>_. no_faults)"
  "accounts (paid_db m) ''rc_user'' = Some m" "earned_by (paid_db m) ''node-0001'' = 0" "tbl_jobs (paid_db m) = []"
  by (simp_all add: end_msg_def example_job_def example_env_def accounts_def earned_by_def paid_db_def empty_db_def)

theorem done_settles_witness:
  "case handle_msg (paid_told 1000000) example_env 0 end_msg of (g', panic) \<Rightarrow>
     \<not> panic \<and> accounts (db g') ''rc_user'' = Some 999900 \<and> earned_by (db g') ''node-0001'' = 95 \<and>
     user_jobs g' ''rc_user'' = 0 \<and> pendingJobs g' ''j1'' = None"
proof -
  obtain g' panic where r: "handle_msg (paid_told 1000000) example_env 0 end_msg = (g', panic)" by force
  obtain nc where nc: "conns (paid_told 1000000) 0 = Some nc" "nc_NodeID nc = ''node-0001''" using paid_told_state(5) by auto
  have "books_ok (paid_db 1000000)" by (rule paid_books) (simp_all add: in_int64_def)
  note s = done_settles [OF paid_reachable this paid_engine_ok nc(1), of end_msg paid_job example_env
      1000 500 "Fin (1199038364791121 / 18446744073709551616)" 95 5 g' panic "''node-0001''" "''rc_user''"]
  show ?thesis using s unfolding paid_reads paid_told_state(1-4) nc(2) paid_meter r by (simp add: paid_reads)
qed

end
