(* ===== verification/Leaks.thy ===== *)
theory Leaks
  imports Completion Crashes Api
begin

text \<open>
  Two ways a job is recorded, and its node paid, although the buyer is charged nothing: the balance does not cover
  the cost, or the node never reports the end.
\<close>

section \<open>A cost that the balance does not cover\<close>

text \<open>
  C30: when a job ends whose cost exceeds the balance of its buyer, the node earns its share all the same and
  the buyer is charged nothing; as long as anything is left the next request is admitted as a paid one.
\<close>

theorem underfunded_job_is_free:
  assumes "reachable d b g" "books_ok d" "engine_ok b"
    and "conns g c = Some nc" "msg_Type msg = ''proxy_done''"
    and "pendingJobs g (msg_JobID msg) = Some job" "pj_NodeID job = nc_NodeID nc"
    and "\<forall>cl. e_db e cl = no_faults" "\<forall>r\<in>set (tbl_jobs (db g)). j_job_id r \<noteq> msg_JobID msg"
    and "meter_job (bill g) (pj_Model job) (pj_LastChunk job) = ((i, out), usd, p, f)"
    and "accounts (db g) (pj_UserKey job) = Some bal" "0 < bal" "bal < p + f" "6 \<le> length (pj_UserKey job)"
    and "handle_msg g e c msg = (g', panic)"
  shows "\<not> panic \<and>
    earned_by (db g') n = earned_by (db g) n + (if n = pj_NodeID job then p else 0) \<and>
    accounts (db g') = accounts (db g) \<and>
    (\<forall>remaining. admit remaining (or_zero (UserBalance no_faults (db g') (pj_UserKey job))) False = Paid)"
proof -
  let ?d4 = "recorded_db (db g) e job i out p f"
  have charge: "\<And>h. db h = ?d4 \<Longrightarrow> charge_user h e job (p + f) = (h\<lparr>db := ?d4\<rparr>, False)"
  proof -
    fix h :: Gateway assume h: "db h = ?d4"
    show "charge_user h e job (p + f) = (h\<lparr>db := ?d4\<rparr>, False)"
      using charge_user_refused [of h job bal "p + f" e] assms(11,13,14) unfolding h by simp
  qed
  note r = done_recorded [OF assms(1-10,15) charge, of n, simplified]
  then have a: "accounts (db g') = accounts (db g)" by simp
  then have "UserBalance no_faults (db g') (pj_UserKey job) = Inr bal"
    using assms(11) by (simp add: UserBalance_accounts no_faults_def)
  then have "admit remaining (or_zero (UserBalance no_faults (db g') (pj_UserKey job))) False = Paid" for remaining
    using assms(12) by (simp add: admit_def or_zero_def)
  then show ?thesis using r a by blast
qed

text \<open>A balance of 50 msats, and a job that costs 100.\<close>

theorem underfunded_job_is_free_witness:
  "case handle_msg (paid_told 50) example_env 0 end_msg of (g', panic) \<Rightarrow>
     accounts (db g') ''rc_user'' = Some 50 \<and> earned_by (db g') ''node-0001'' = 95 \<and>
     admit 0 (or_zero (UserBalance no_faults (db g') ''rc_user'')) False = Paid"
proof -
  obtain g' panic where r: "handle_msg (paid_told 50) example_env 0 end_msg = (g', panic)" by force
  obtain nc where nc: "conns (paid_told 50) 0 = Some nc" "nc_NodeID nc = ''node-0001''" using paid_told_state(5) by auto
  have "books_ok (paid_db 50)" by (rule paid_books) (simp_all add: in_int64_def)
  note s = underfunded_job_is_free [OF paid_reachable this paid_engine_ok nc(1), of end_msg paid_job example_env
      1000 500 "Fin (1199038364791121 / 18446744073709551616)" 95 5 50 g' panic "''node-0001''"]
  show ?thesis using s unfolding paid_reads paid_told_state(1-4) nc(2) paid_meter r by (simp add: paid_reads)
qed

section \<open>A job whose end is never reported\<close>

text \<open>The jobs the clean-up takes away have each an id of their own.\<close>

lemma remove_expired_named:
  "remove_expired g now ids = (g', js, False) \<Longrightarrow> distinct ids \<Longrightarrow> \<forall>k job. pendingJobs g k = Some job \<longrightarrow> pj_JobID job = k \<Longrightarrow>
   db g' = db g \<and> bill g' = bill g \<and> distinct (map pj_JobID js) \<and> pj_JobID ` set js \<subseteq> set ids \<and> set js \<subseteq> ran (pendingJobs g)"
proof (induction g now ids arbitrary: g' js rule: remove_expired.induct)
  case (2 g now k ks)
  show ?case
  proof (cases "\<exists>job. pendingJobs g k = Some job \<and> expired_at now job")
    case False
    then have r: "remove_expired g now ks = (g', js, False)" using "2.prems"(1) by (auto split: option.splits)
    have "db g' = db g \<and> bill g' = bill g \<and> distinct (map pj_JobID js) \<and> pj_JobID ` set js \<subseteq> set ks \<and> set js \<subseteq> ran (pendingJobs g)"
    proof (cases "pendingJobs g k")
      case None
      then show ?thesis using "2.IH"(1) [OF _ r] "2.prems"(2,3) by simp
    next
      case (Some job)
      then show ?thesis using "2.IH"(2) [OF Some _ r] "2.prems"(2,3) \<open>\<not> (\<exists>job. _ job)\<close> by simp
    qed
    then show ?thesis by auto
  next
    case True
    then obtain job where job: "pendingJobs g k = Some job" "expired_at now job" by blast
    obtain g1 js' where c: "close_chan g (pj_DoneCh job) = (g1, False)" "js = job # js'"
      and r: "remove_expired (g1\<lparr>pendingJobs := (pendingJobs g1)(k := None)\<rparr>) now ks = (g', js', False)"
      using remove_expired_ConsE [OF "2.prems"(1) job] .
    have f: "pendingJobs g1 = pendingJobs g" "db g1 = db g" "bill g1 = bill g"
      using close_chan_frame(4,7,8) [of g "pj_DoneCh job"] by (simp_all add: c)
    have named: "pj_JobID job = k" using "2.prems"(3) job(1) by simp
    have "db g' = db g \<and> bill g' = bill g \<and> distinct (map pj_JobID js') \<and> pj_JobID ` set js' \<subseteq> set ks \<and>
        set js' \<subseteq> ran ((pendingJobs g)(k := None))"
      using "2.IH"(3) [OF job(1) _ refl c(1) [symmetric] _ r] "2.prems"(2,3) job(2) by (simp add: f fun_upd_def)
    moreover have "ran ((pendingJobs g)(k := None)) \<subseteq> ran (pendingJobs g)" by (auto simp: ran_def)
    moreover have "k \<notin> set ks" using "2.prems"(2) by simp
    ultimately show ?thesis unfolding c(2) using named job(1) by (auto intro: ranI)
  qed
qed simp

text \<open>Settling the expired jobs records each of them that used tokens, and touches no balance.\<close>

lemma settle_all_keeps:
  "bill (fst (settle_all g e js)) = bill g \<and> accounts (db (fst (settle_all g e js))) = accounts (db g) \<and>
   set (tbl_jobs (db g)) \<subseteq> set (tbl_jobs (db (fst (settle_all g e js))))"
proof (induction js arbitrary: g)
  case (Cons job js)
  have "bill (fst (settle_expired g e job)) = bill g \<and> accounts (db (fst (settle_expired g e job))) = accounts (db g) \<and>
    set (tbl_jobs (db g)) \<subseteq> set (tbl_jobs (db (fst (settle_expired g e job))))"
    by (auto simp: settle_expired_def record_job_def RecordJob_def split_beta Let_def)
  then show ?case using Cons by (auto simp: split_beta)
qed simp

lemma settle_all_calm:
  "\<forall>job\<in>set js. 8 \<le> length (pj_NodeID job) \<Longrightarrow> \<not> snd (settle_all g e js)"
proof (induction js arbitrary: g)
  case (Cons job js)
  then have "\<not> snd (settle_expired g e job)" by (simp add: settle_expired_def split_beta Let_def)
  then show ?case using Cons by (simp add: split_beta)
qed simp

lemma settle_expired_records:
  assumes "e_db e (DbRecordJob (pj_JobID job)) = no_faults" "\<forall>r\<in>set (tbl_jobs (db g)). j_job_id r \<noteq> pj_JobID job"
    and "meter_job (bill g) (pj_Model job) (pj_LastChunk job) = ((i, out), usd, p, f)"
  shows "tbl_jobs (db (fst (settle_expired g e job))) = tbl_jobs (db g) @
    (if wrap64 (i + out) > 0 then [done_row e job i out p f] else [])"
  using record_job_works [OF assms(1), of "decrUserJobs g (pj_UserKey job)" i out p f] assms(2,3)
  by (simp add: settle_expired_def Let_def done_row_def)

lemma settle_all_records:
  "settle_all g e js = (g', False) \<Longrightarrow> \<forall>cl. e_db e cl = no_faults \<Longrightarrow> distinct (map pj_JobID js) \<Longrightarrow>
   \<forall>job\<in>set js. \<forall>r\<in>set (tbl_jobs (db g)). j_job_id r \<noteq> pj_JobID job \<Longrightarrow> job \<in> set js \<Longrightarrow>
   meter_job (bill g) (pj_Model job) (pj_LastChunk job) = ((i, out), usd, p, f) \<Longrightarrow> wrap64 (i + out) > 0 \<Longrightarrow>
   done_row e job i out p f \<in> set (tbl_jobs (db g'))"
proof (induction js arbitrary: g)
  case (Cons j js)
  obtain i' out' usd' p' f' where m: "meter_job (bill g) (pj_Model j) (pj_LastChunk j) = ((i', out'), usd', p', f')"
    by (metis prod.collapse)
  obtain g1 where g1: "settle_expired g e j = (g1, False)" "settle_all g1 e js = (g', False)"
    using Cons.prems(1) by (auto simp: split_beta split: if_splits) (metis prod.collapse)
  have jobs: "tbl_jobs (db g1) = tbl_jobs (db g) @ (if wrap64 (i' + out') > 0 then [done_row e j i' out' p' f'] else [])"
    using settle_expired_records [OF _ _ m, of e] Cons.prems(2,4) by (simp add: g1)
  have b: "bill g1 = bill g" using settle_all_keeps [of g e "[j]"] by (simp add: g1)
  show ?case
  proof (cases "job = j")
    case True
    then have "done_row e job i out p f \<in> set (tbl_jobs (db g1))" using m jobs Cons.prems(6,7) by simp
    then show ?thesis using settle_all_keeps [of g1 e js] by (auto simp: g1)
  next
    case False
    have fresh: "\<forall>job\<in>set js. \<forall>r\<in>set (tbl_jobs (db g1)). j_job_id r \<noteq> pj_JobID job"
      using Cons.prems(3,4) jobs by (force simp: done_row_def job_row_def)
    show ?thesis
      using Cons.IH [OF g1(2) Cons.prems(2) _ fresh] Cons.prems(3,5-7) False by (simp add: b)
  qed
qed simp

text \<open>
  C31: a job whose node never reports the end is recorded by the clean-up with the tokens of the last usage report,
  so that its node earns its share, and no tick of the clean-up charges anybody.
\<close>

theorem expired_job_charges_nobody:
  assumes "reachable d b g" "enumerates (e_order e) (pendingJobs g)" "\<forall>cl. e_db e cl = no_faults"
    and "\<forall>k job. pendingJobs g k = Some job \<longrightarrow>
      8 \<le> length (pj_NodeID job) \<and> (\<forall>r\<in>set (tbl_jobs (db g)). j_job_id r \<noteq> k)"
    and "pendingJobs g j = Some job" "expired_at (e_now e) job"
    and "meter_job (bill g) (pj_Model job) (pj_LastChunk job) = ((i, out), usd, p, f)" "0 < wrap64 (i + out)"
    and "cleanup_tick g e = (g', panic)"
  shows "\<not> panic \<and> done_row e job i out p f \<in> set (tbl_jobs (db g')) \<and> accounts (db g') = accounts (db g)"
proof -
  have o: "channels_open g" using reachable_inv [OF assms(1)] by (simp add: gw_inv_def)
  then have named: "\<forall>k job. pendingJobs g k = Some job \<longrightarrow> pj_JobID job = k" by (simp add: channels_open_def)
  obtain g1 js p' where r': "remove_expired g (e_now e) (e_order e) = (g1, js, p')" by (metis prod.collapse)
  then have r: "remove_expired g (e_now e) (e_order e) = (g1, js, False)" using remove_expired_open [OF r' o] by simp
  have ids: "distinct (e_order e)" "set (e_order e) = dom (pendingJobs g)" using assms(2) by (auto simp: enumerates_def)
  have js: "db g1 = db g" "bill g1 = bill g" "distinct (map pj_JobID js)" "pj_JobID ` set js \<subseteq> dom (pendingJobs g)"
      "set js \<subseteq> ran (pendingJobs g)"
    using remove_expired_named [OF r ids(1) named] ids(2) by simp_all
  have fresh: "\<forall>job\<in>set js. \<forall>r\<in>set (tbl_jobs (db g1)). j_job_id r \<noteq> pj_JobID job"
    using assms(4) js(1,4) by (auto simp: dom_def)
  have "\<forall>job\<in>set js. 8 \<le> length (pj_NodeID job)" using assms(4) js(5) by (auto simp: ran_def)
  from settle_all_calm [OF this, of g1 e] have s: "settle_all g1 e js = (g', False)" "\<not> panic"
    using assms(9) by (auto simp: cleanup_tick_def r)
  have "job \<in> set js" by (rule remove_expired_collects [OF r ids(1) _ assms(5,6)]) (use ids(2) assms(5) in auto)
  from settle_all_records [OF s(1) assms(3) js(3) fresh this] show ?thesis
    using assms(7,8) settle_all_keeps [of g1 e js] s(2) by (simp add: js(1,2) s(1))
qed

text \<open>The node of the job that costs 100 msats falls silent: after ten minutes it has earned its share.\<close>

theorem expired_job_charges_nobody_witness:
  "case cleanup_tick (paid_told 1000000) (example_env\<lparr>e_now := 600000000001\<rparr>) of (g', panic) \<Rightarrow>
     accounts (db g') ''rc_user'' = Some 1000000 \<and> (\<exists>r\<in>set (tbl_jobs (db g')). j_earned_msats r = 95)"
proof -
  let ?e = "example_env\<lparr>e_now := 600000000001\<rparr>" and ?g = "paid_told 1000000"
  obtain g' panic where r: "cleanup_tick ?g ?e = (g', panic)" by force
  have o: "enumerates (e_order ?e) (pendingJobs ?g)"
    by (simp add: paid_told_state enumerates_def example_env_def)
  have x: "expired_at (e_now ?e) paid_job" by (simp add: expired_at_def example_job_def)
  have j: "pendingJobs ?g ''j1'' = Some paid_job" by (simp add: paid_told_state)
  have e: "\<forall>cl. e_db ?e cl = no_faults" by (simp add: example_env_def)
  have f: "\<forall>k job. pendingJobs ?g k = Some job \<longrightarrow> 8 \<le> length (pj_NodeID job) \<and> (\<forall>r\<in>set (tbl_jobs (db ?g)). j_job_id r \<noteq> k)"
    by (simp add: paid_told_state paid_reads example_job_def)
  note s = expired_job_charges_nobody [OF paid_reachable o e f j x _ _ r, of 1000 500
     "Fin (1199038364791121 / 18446744073709551616)" 95 5, unfolded paid_told_state(3,4) paid_reads paid_meter]
  have "0 < wrap64 (1000 + 500)" by (simp add: wrap64_def)
  then show ?thesis using s by (auto simp: r paid_reads done_row_def job_row_def intro!: bexI [of _ "done_row ?e paid_job 1000 500 95 5"])
qed

end
