(* ===== verification/Interleave.thy ===== *)
theory Interleave
  imports Slots "HOL-Library.Multiset"
begin

text \<open>
  The handlers that start and end jobs, interleaved at the grain of the code's locks. Elsewhere in the
  development a handler is one step; here it is a thread that goes through its critical sections one at a
  time, with those of any number of other threads in between: \<open>AssignJob\<close>, \<open>handleReject\<close>, the part of
  \<open>handleProxyDone\<close> up to the release of the slot, and the removal of one job by the clean-up. What these
  threads share is the gateway's \<open>pendingJobs\<close>, \<open>userJobs\<close> and channels.
\<close>

section \<open>Threads\<close>

text \<open>
  Where a thread stands: \<open>Asking\<close> to \<open>Failed\<close> are \<open>AssignJob\<close> before the slot is taken, before the node is
  looked up, before the job is made pending, before the message is sent, before the failed job is taken back; \<open>Rejecting\<close>, \<open>Finishing\<close> and
  \<open>Expiring\<close> are the other handlers before they look the job up; \<open>Closing\<close> is \<open>handleProxyDone\<close> before it
  closes the job's channel; \<open>Releasing\<close> is any of them before the call of \<open>decrUserJobs\<close>.
\<close>

datatype phase =
  Asking PendingJob
| Reserved PendingJob
| Found PendingJob
| Sending PendingJob
| Failed PendingJob
| Rejecting string
| Finishing string string
| Expiring string
| Closing PendingJob
| Releasing PendingJob
| Over

text \<open>
  The gateway, the threads, and the ids of the jobs whose message was sent. In a \<open>polite\<close> world the nodes answer
  for jobs they were sent, and the clean-up finds no job whose message is still being sent; otherwise a job
  can be taken away as soon as it is pending. Job ids are drawn at random by the caller of \<open>AssignJob\<close>, and are
  taken to be fresh. The clean-up removes all the expired jobs it finds in one critical section: here these are
  the steps of several threads \<open>Expiring\<close>, which may follow one another at once. A close of a closed channel
  would panic, and is no step.
\<close>

type_synonym world = "Gateway \<times> phase list \<times> string set"

definition with_channels :: "Gateway \<Rightarrow> PendingJob \<Rightarrow> Gateway \<times> PendingJob" where
  "with_channels g job =
     (let (g1, rc) = make_chan g 64; (g2, dc) = make_chan g1 0
      in (g2, job\<lparr>pj_ResponseCh := rc, pj_DoneCh := dc\<rparr>))"

definition put_job :: "Gateway \<Rightarrow> PendingJob \<Rightarrow> Gateway" where
  "put_job g job = g\<lparr>pendingJobs := (pendingJobs g)(pj_JobID job \<mapsto> job)\<rparr>"

definition take_job :: "Gateway \<Rightarrow> string \<Rightarrow> Gateway" where
  "take_job g j = g\<lparr>pendingJobs := (pendingJobs g)(j := None)\<rparr>"

inductive thread_step ::
  "bool \<Rightarrow> Gateway \<times> phase \<times> string set \<Rightarrow> Gateway \<times> phase \<times> string set \<Rightarrow> bool" for polite where
  full: "\<not> snd (incrUserJobs g (pj_UserKey job)) \<Longrightarrow> thread_step polite (g, Asking job, S) (g, Over, S)"
| reserve: "incrUserJobs g (pj_UserKey job) = (g', True) \<Longrightarrow> thread_step polite (g, Asking job, S) (g', Reserved job, S)"
| no_node: "nodes g (pj_NodeID job) = None \<Longrightarrow> thread_step polite (g, Reserved job, S) (g, Releasing job, S)"
| found: "nodes g (pj_NodeID job) = Some c \<Longrightarrow> thread_step polite (g, Reserved job, S) (g, Found job, S)"
| insert: "pendingJobs g (pj_JobID job) = None \<Longrightarrow> pj_JobID job \<notin> S \<Longrightarrow>
    with_channels g job = (g', job') \<Longrightarrow> thread_step polite (g, Found job, S) (put_job g' job', Sending job', S)"
| sent: "thread_step polite (g, Sending job, S) (g, Over, insert (pj_JobID job) S)"
| send_fails: "thread_step polite (g, Sending job, S) (g, Failed job, S)"
| take_back: "thread_step polite (g, Failed job, S) (take_job g (pj_JobID job), Releasing job, S)"
| reject: "pendingJobs g j = Some job \<Longrightarrow> polite \<longrightarrow> j \<in> S \<Longrightarrow> close_chan g (pj_DoneCh job) = (g', False) \<Longrightarrow>
    thread_step polite (g, Rejecting j, S) (take_job g' j, Releasing job, S)"
| expire: "pendingJobs g j = Some job \<Longrightarrow> polite \<longrightarrow> j \<in> S \<Longrightarrow> close_chan g (pj_DoneCh job) = (g', False) \<Longrightarrow>
    thread_step polite (g, Expiring j, S) (take_job g' j, Releasing job, S)"
| finish: "pendingJobs g j = Some job \<Longrightarrow> pj_NodeID job = n \<Longrightarrow> polite \<longrightarrow> j \<in> S \<Longrightarrow>
    thread_step polite (g, Finishing n j, S) (take_job g j, Closing job, S)"
| not_owner: "pendingJobs g j = Some job \<Longrightarrow> pj_NodeID job \<noteq> n \<Longrightarrow> thread_step polite (g, Finishing n j, S) (g, Over, S)"
| gone: "pendingJobs g j = None \<Longrightarrow> p \<in> {Rejecting j, Expiring j, Finishing n j} \<Longrightarrow>
    thread_step polite (g, p, S) (g, Over, S)"
| close: "close_chan g (pj_DoneCh job) = (g', False) \<Longrightarrow> thread_step polite (g, Closing job, S) (g', Releasing job, S)"
| release: "thread_step polite (g, Releasing job, S) (decrUserJobs g (pj_UserKey job), Over, S)"

inductive_cases thread_stepE: "thread_step polite (g, p, S) s"

text \<open>A new thread starts, or one of the threads makes its next step.\<close>

definition starts :: "phase \<Rightarrow> bool" where
  "starts p \<longleftrightarrow> (case p of Asking _ \<Rightarrow> True | Rejecting _ \<Rightarrow> True | Finishing _ _ \<Rightarrow> True | Expiring _ \<Rightarrow> True | _ \<Rightarrow> False)"

inductive world_step :: "bool \<Rightarrow> world \<Rightarrow> world \<Rightarrow> bool" for polite where
  spawn: "starts p \<Longrightarrow> world_step polite (g, T, S) (g, p # T, S)"
| run: "thread_step polite (g, p, S) (g', p', S') \<Longrightarrow> world_step polite (g, xs @ p # ys, S) (g', xs @ p' # ys, S')"

text \<open>Runs from a gateway without jobs, whatever nodes are connected.\<close>

inductive world_run :: "bool \<Rightarrow> world \<Rightarrow> bool" for polite where
  init: "pendingJobs g = Map.empty \<Longrightarrow> userJobs g = Map.empty \<Longrightarrow> chans g = Map.empty \<Longrightarrow> world_run polite (g, [], {})"
| step: "world_run polite w \<Longrightarrow> world_step polite w w' \<Longrightarrow> world_run polite w'"

section \<open>Slots held by threads\<close>

text \<open>The jobs whose slot a thread still has to give back.\<close>

fun owed_by :: "phase \<Rightarrow> PendingJob list" where
  "owed_by (Reserved job) = [job]"
| "owed_by (Found job) = [job]"
| "owed_by (Closing job) = [job]"
| "owed_by (Releasing job) = [job]"
| "owed_by _ = []"

text \<open>The jobs whose message is being sent, or could not be: they must still be pending, and not be sent yet.\<close>

fun unsent :: "phase \<Rightarrow> PendingJob list" where
  "unsent (Sending job) = [job]"
| "unsent (Failed job) = [job]"
| "unsent _ = []"

lemma with_channels_eq:
  "with_channels g job = (g', job') \<longleftrightarrow>
     g' = g\<lparr>chans := (chans g)(next_chan g \<mapsto> \<lparr>buffer = [], capacity = 64, closed = False\<rparr>,
              Suc (next_chan g) \<mapsto> \<lparr>buffer = [], capacity = 0, closed = False\<rparr>), next_chan := Suc (Suc (next_chan g))\<rparr> \<and>
     job' = job\<lparr>pj_ResponseCh := next_chan g, pj_DoneCh := Suc (next_chan g)\<rparr>"
  by (auto simp: with_channels_def make_chan_def)

lemma take_put_frame [simp]:
  "pendingJobs (take_job g j) = (pendingJobs g)(j := None)" "userJobs (take_job g j) = userJobs g"
  "chans (take_job g j) = chans g" "next_chan (take_job g j) = next_chan g" "nodes (take_job g j) = nodes g"
  "pendingJobs (put_job g job) = (pendingJobs g)(pj_JobID job \<mapsto> job)" "userJobs (put_job g job) = userJobs g"
  "chans (put_job g job) = chans g" "next_chan (put_job g job) = next_chan g" "nodes (put_job g job) = nodes g"
  by (simp_all add: take_job_def put_job_def)

lemma close_frame: "close_chan g ch = (g', p) \<Longrightarrow> pendingJobs g' = pendingJobs g \<and> userJobs g' = userJobs g \<and>
    next_chan g' = next_chan g \<and> nodes g' = nodes g"
  using close_chan_frame [of g ch] by simp

text \<open>\<open>R\<close> is what the other threads owe.\<close>

lemma thread_slots:
  assumes "thread_step polite (g, p, S) (g', p', S')" "slots_held (owed_by p @ R) g"
    and "\<forall>job\<in>set (unsent p). pendingJobs g (pj_JobID job) = Some job"
  shows "slots_held (owed_by p' @ R) g'"
  using assms(1)
proof cases
  case (reserve job)
  then show ?thesis using slots_taken assms(2) by simp
next
  case (insert job g1 job')
  have j: "pj_JobID job' = pj_JobID job" "pj_UserKey job' = pj_UserKey job" "pendingJobs g1 = pendingJobs g" "userJobs g1 = userJobs g"
    using insert by (auto simp: with_channels_eq)
  have "slots_held (job' # R) g"
    using slots_held_perm [of "job # R" "job' # R" g] assms(2) insert j(2) by simp
  then have "slots_held R (put_job g1 job')"
    by (rule slots_filled [where j = "pj_JobID job"]) (use insert j in simp_all)
  then show ?thesis using insert by simp
next
  case (take_back job)
  have "slots_held (job # R) (take_job g (pj_JobID job))"
    by (rule slots_removed [of R g "pj_JobID job"]) (use assms(2,3) take_back in simp_all)
  then show ?thesis using take_back by simp
next
  case (reject j job g1)
  have "slots_held (job # R) (take_job g1 j)"
    by (rule slots_removed [of R g j]) (use assms(2) reject close_frame in auto)
  then show ?thesis using reject by simp
next
  case (expire j job g1)
  have "slots_held (job # R) (take_job g1 j)"
    by (rule slots_removed [of R g j]) (use assms(2) expire close_frame in auto)
  then show ?thesis using expire by simp
next
  case (finish j job n)
  have "slots_held (job # R) (take_job g j)"
    by (rule slots_removed [of R g j]) (use assms(2) finish in simp_all)
  then show ?thesis using finish by simp
next
  case (close job)
  then show ?thesis
    using assms(2) close_frame [of g "pj_DoneCh job" g' False] slots_held_cong [of g' g "job # R"] by auto
next
  case (release job)
  then show ?thesis using assms(2) slots_released by simp
qed (use assms(2) in auto)

text \<open>\<open>U\<close> are the unsent jobs of the other threads.\<close>

definition unsent_ok :: "PendingJob list \<Rightarrow> Gateway \<Rightarrow> string set \<Rightarrow> bool" where
  "unsent_ok js g S \<longleftrightarrow> distinct (map pj_JobID js) \<and>
     (\<forall>job\<in>set js. pendingJobs g (pj_JobID job) = Some job \<and> pj_JobID job \<notin> S)"

lemma unsent_ok_Cons [simp]:
  "unsent_ok (job # U) g S \<longleftrightarrow> (\<forall>job'\<in>set U. pj_JobID job' \<noteq> pj_JobID job) \<and> pendingJobs g (pj_JobID job) = Some job \<and>
     pj_JobID job \<notin> S \<and> unsent_ok U g S"
  unfolding unsent_ok_def by (simp add: image_iff) metis

lemma unsent_kept:
  "unsent_ok U g S \<Longrightarrow>
   (\<And>job. job \<in> set U \<Longrightarrow> pj_JobID job \<notin> S \<Longrightarrow> pendingJobs g' (pj_JobID job) = pendingJobs g (pj_JobID job) \<and> pj_JobID job \<notin> S') \<Longrightarrow>
   unsent_ok U g' S'"
  by (auto simp: unsent_ok_def)

lemma unsent_fresh: "unsent_ok U g S \<Longrightarrow> pendingJobs g j = None \<Longrightarrow> \<forall>job\<in>set U. pj_JobID job \<noteq> j"
  by (auto simp: unsent_ok_def)

lemma thread_unsent:
  assumes "thread_step True (g, p, S) (g', p', S')" "unsent_ok (unsent p @ U) g S"
  shows "unsent_ok (unsent p' @ U) g' S'"
  using assms(1)
proof cases
  case (reserve job)
  then show ?thesis
    using assms(2) incrUserJobs_frame(4) [of g "pj_UserKey job"] by (auto intro: unsent_kept [of U g S])
next
  case (insert job g1 job')
  then have j: "pj_JobID job' = pj_JobID job" "pendingJobs g1 = pendingJobs g" by (auto simp: with_channels_eq)
  have u: "unsent_ok U g S" using assms(2) insert by simp
  have f: "\<forall>job'\<in>set U. pj_JobID job' \<noteq> pj_JobID job" by (rule unsent_fresh [OF u]) (use insert in simp)
  have "unsent_ok U g' S'" by (rule unsent_kept [OF u]) (use f insert j in auto)
  then show ?thesis using f insert j by simp
next
  case (take_back job)
  then show ?thesis using assms(2) by (auto intro: unsent_kept [of U g S])
next
  case (reject j job g1)
  then show ?thesis
    using assms(2) close_frame [of g "pj_DoneCh job" g1 False] by (auto intro: unsent_kept [of U g S])
next
  case (expire j job g1)
  then show ?thesis
    using assms(2) close_frame [of g "pj_DoneCh job" g1 False] by (auto intro: unsent_kept [of U g S])
next
  case (finish j job n)
  then show ?thesis using assms(2) by (auto intro: unsent_kept [of U g S])
next
  case (close job)
  then show ?thesis
    using assms(2) close_frame [of g "pj_DoneCh job" g' False] by (auto intro: unsent_kept [of U g S])
next
  case (sent job)
  then show ?thesis using assms(2) by (auto intro: unsent_kept [of U g S])
next
  case (release job)
  then show ?thesis using assms(2) by (auto intro: unsent_kept [of U g S])
qed (use assms(2) in auto)

section \<open>Channels that threads will close\<close>

fun to_close :: "phase \<Rightarrow> PendingJob list" where
  "to_close (Closing job) = [job]"
| "to_close _ = []"

text \<open>
  The done channels of pending jobs and of those about to be closed (\<open>cs\<close>) are open, and no two of these jobs
  share one.
\<close>

definition open_at :: "Gateway \<Rightarrow> nat \<Rightarrow> bool" where
  "open_at g ch \<longleftrightarrow> ch < next_chan g \<and> (\<exists>c. chans g ch = Some c \<and> \<not> closed c)"

definition chans_ok :: "PendingJob list \<Rightarrow> Gateway \<Rightarrow> bool" where
  "chans_ok cs g \<longleftrightarrow> own_done (pendingJobs g) \<and> distinct (map pj_DoneCh cs) \<and>
     (\<forall>j job. pendingJobs g j = Some job \<longrightarrow> open_at g (pj_DoneCh job) \<and> pj_DoneCh job \<notin> pj_DoneCh ` set cs) \<and>
     (\<forall>job\<in>set cs. open_at g (pj_DoneCh job))"

lemma open_close: "open_at g ch \<Longrightarrow> \<exists>g'. close_chan g ch = (g', False)"
  by (auto simp: open_at_def close_chan_def)

lemma open_after_close: "close_chan g ch = (g', False) \<Longrightarrow> open_at g ch' \<Longrightarrow> ch' \<noteq> ch \<Longrightarrow> open_at g' ch'"
  by (auto simp: open_at_def close_chan_def split: option.splits if_splits)

lemma chans_ok_cong:
  "pendingJobs g' = pendingJobs g \<Longrightarrow> chans g' = chans g \<Longrightarrow> next_chan g' = next_chan g \<Longrightarrow> chans_ok cs g' = chans_ok cs g"
  by (simp add: chans_ok_def open_at_def)

lemma chans_put:
  assumes "chans_ok cs g" "with_channels g job = (g1, job')"
  shows "chans_ok cs (put_job g1 job')"
proof -
  have old: "open_at g ch \<Longrightarrow> open_at (put_job g1 job') ch \<and> ch \<noteq> pj_DoneCh job'" for ch
    using assms(2) by (auto simp: with_channels_eq open_at_def)
  have new: "open_at (put_job g1 job') (pj_DoneCh job')"
    using assms(2) by (auto simp: with_channels_eq open_at_def)
  have p: "pendingJobs (put_job g1 job') = (pendingJobs g)(pj_JobID job' \<mapsto> job')"
    using assms(2) by (auto simp: with_channels_eq)
  have "own_done ((pendingJobs g)(pj_JobID job' \<mapsto> job'))"
    by (rule own_done_insert) (use assms(1) old in \<open>auto simp: chans_ok_def\<close>)
  moreover have "pj_DoneCh job' \<notin> pj_DoneCh ` set cs" using assms(1) old unfolding chans_ok_def by (metis imageE)
  ultimately show ?thesis using assms(1) old new unfolding chans_ok_def p by auto
qed

lemma chans_take: "chans_ok cs g \<Longrightarrow> chans_ok cs (take_job g j)"
  by (auto simp: chans_ok_def open_at_def own_done_delete)

lemma chans_taken_closed:
  assumes "chans_ok cs g" "pendingJobs g j = Some job" "close_chan g (pj_DoneCh job) = (g', False)"
  shows "chans_ok cs (take_job g' j)"
proof -
  have p: "pendingJobs g' = pendingJobs g" using close_frame [OF assms(3)] by simp
  have o: "open_at (take_job g' j) ch \<longleftrightarrow> open_at g' ch" for ch by (simp add: open_at_def)
  have "pj_DoneCh job' \<noteq> pj_DoneCh job" if "pendingJobs g j' = Some job'" "j' \<noteq> j" for j' job'
    using assms(1,2) that unfolding chans_ok_def own_done_def by metis
  then show ?thesis
    using assms(1,2) open_after_close [OF assms(3)] unfolding chans_ok_def o
    by (auto simp: p own_done_delete split: if_splits) (metis image_eqI)+
qed

lemma chans_taken_closing:
  assumes "chans_ok cs g" "pendingJobs g j = Some job" shows "chans_ok (job # cs) (take_job g j)"
proof -
  have "pj_DoneCh job' \<noteq> pj_DoneCh job" if "pendingJobs g j' = Some job'" "j' \<noteq> j" for j' job'
    using assms that unfolding chans_ok_def own_done_def by metis
  moreover have "open_at (take_job g j) = open_at g" by (simp add: open_at_def fun_eq_iff)
  ultimately show ?thesis using assms by (auto simp: chans_ok_def own_done_delete split: if_splits)
qed

lemma chans_closed:
  assumes "chans_ok (job # cs) g" "close_chan g (pj_DoneCh job) = (g', False)" shows "chans_ok cs g'"
proof -
  have "pendingJobs g' = pendingJobs g" using close_frame [OF assms(2)] by simp
  then show ?thesis using assms(1) open_after_close [OF assms(2)] by (auto simp: chans_ok_def) (metis image_eqI)+
qed

lemma thread_chans:
  assumes "thread_step polite (g, p, S) (g', p', S')" "chans_ok (to_close p @ C) g"
  shows "chans_ok (to_close p' @ C) g'"
  using assms(1)
proof cases
  case (reserve job)
  then have "pendingJobs g' = pendingJobs g" "chans g' = chans g" "next_chan g' = next_chan g"
    using incrUserJobs_frame [of g "pj_UserKey job"] by simp_all
  then show ?thesis using assms(2) reserve chans_ok_cong [of g' g C] by simp
next
  case (insert job g1 job')
  then show ?thesis using assms(2) chans_put by simp
next
  case (take_back job)
  then show ?thesis using assms(2) chans_take by simp
next
  case (reject j job g1)
  then show ?thesis using assms(2) chans_taken_closed by simp
next
  case (expire j job g1)
  then show ?thesis using assms(2) chans_taken_closed by simp
next
  case (finish j job n)
  then show ?thesis using assms(2) chans_taken_closing by simp
next
  case (close job)
  then show ?thesis using assms(2) chans_closed by simp
next
  case (release job)
  then show ?thesis using assms(2) chans_ok_cong [of g' g C] by simp
qed (use assms(2) in auto)

section \<open>Every interleaving\<close>

definition owed :: "phase list \<Rightarrow> PendingJob list" where "owed T = concat (map owed_by T)"
definition all_unsent :: "phase list \<Rightarrow> PendingJob list" where "all_unsent T = concat (map unsent T)"
definition all_closing :: "phase list \<Rightarrow> PendingJob list" where "all_closing T = concat (map to_close T)"

text \<open>The invariants do not depend on the order of the threads, so the one that runs can be brought to the front.\<close>

lemma unsent_ok_perm: assumes "mset U = mset V" shows "unsent_ok U g S = unsent_ok V g S"
proof -
  have "mset (map pj_JobID U) = mset (map pj_JobID V)" using assms by simp
  then show ?thesis using mset_eq_setD [OF assms] mset_eq_imp_distinct_iff by (simp only: unsent_ok_def) blast
qed

lemma chans_ok_perm: assumes "mset U = mset V" shows "chans_ok U g = chans_ok V g"
proof -
  have "mset (map pj_DoneCh U) = mset (map pj_DoneCh V)" using assms by simp
  then show ?thesis using mset_eq_setD [OF assms] mset_eq_imp_distinct_iff by (simp only: chans_ok_def) blast
qed

lemma slots_held_mset: "mset U = mset V \<Longrightarrow> slots_held U g = slots_held V g"
  by (rule slots_held_perm) (metis mset_filter owing_def size_mset)

lemma to_front: "mset (concat (map f (xs @ p # ys))) = mset (f p @ concat (map f (xs @ ys)))"
  by simp

lemma world_chans:
  "world_run polite w \<Longrightarrow> chans_ok (all_closing (fst (snd w))) (fst w)"
proof (induction rule: world_run.induct)
  case (init g)
  then show ?case by (simp add: chans_ok_def own_done_def all_closing_def)
next
  case (step w w')
  from step(2) show ?case
  proof cases
    case (spawn p g T S)
    then show ?thesis using step.IH by (cases p) (simp_all add: starts_def all_closing_def)
  next
    case (run g p S g' p' S' xs ys)
    show ?thesis
      using thread_chans [OF run(3), of "all_closing (xs @ ys)"] step.IH run(1,2)
        chans_ok_perm [OF to_front [of to_close xs p ys], of g] chans_ok_perm [OF to_front [of to_close xs p' ys], of g']
      by (simp add: all_closing_def)
  qed
qed

lemma world_slots:
  "world_run True w \<Longrightarrow> slots_held (owed (fst (snd w))) (fst w) \<and> unsent_ok (all_unsent (fst (snd w))) (fst w) (snd (snd w))"
proof (induction rule: world_run.induct)
  case (init g)
  then show ?case by (simp add: owed_def all_unsent_def slots_held_def slots_def user_jobs_def unsent_ok_def)
next
  case (step w w')
  from step(2) show ?case
  proof cases
    case (spawn p g T S)
    then show ?thesis using step.IH by (cases p) (simp_all add: starts_def owed_def all_unsent_def)
  next
    case (run g p S g' p' S' xs ys)
    have u: "unsent_ok (unsent p @ all_unsent (xs @ ys)) g S"
      using step.IH run(1,2) unsent_ok_perm [OF to_front [of unsent xs p ys], of g S] by (simp add: all_unsent_def)
    have "\<forall>job\<in>set (unsent p). pendingJobs g (pj_JobID job) = Some job" using u by (simp add: unsent_ok_def)
    then show ?thesis
      using thread_slots [OF run(3), of "owed (xs @ ys)"] thread_unsent [OF run(3) u] step.IH run(1,2)
        slots_held_mset [OF to_front [of owed_by xs p ys], of g] slots_held_mset [OF to_front [of owed_by xs p' ys], of g']
        unsent_ok_perm [OF to_front [of unsent xs p' ys], of g' S']
      by (simp add: owed_def all_unsent_def)
  qed
qed

section \<open>The handlers as schedules\<close>

text \<open>What the threads share, and a thread that runs without interruption.\<close>

definition same_shared :: "Gateway \<Rightarrow> Gateway \<Rightarrow> bool" where
  "same_shared g h \<longleftrightarrow> pendingJobs g = pendingJobs h \<and> userJobs g = userJobs h \<and> chans g = chans h \<and>
     next_chan g = next_chan h \<and> nodes g = nodes h"

abbreviation thread_run where "thread_run polite \<equiv> (thread_step polite)\<^sup>*\<^sup>*"

lemmas run_ends = r_into_rtranclp converse_rtranclp_into_rtranclp

lemma user_jobs_cong: "userJobs g = userJobs h \<Longrightarrow> user_jobs g = user_jobs h"
  by (simp add: user_jobs_def fun_eq_iff)

lemma decr_cong: "userJobs g = userJobs h \<Longrightarrow> userJobs (decrUserJobs g k) = userJobs (decrUserJobs h k)"
  by (simp add: decrUserJobs_def Let_def user_jobs_cong [of g h])

lemma assign_schedule:
  assumes "pendingJobs g j = None" "j \<notin> S"
  shows "\<exists>h S'. thread_run polite (g, Asking (assigned_job g e n j m k b f), S) (h, Over, S') \<and>
    same_shared h (fst (AssignJob g e n j m k b f))"
proof (cases "snd (incrUserJobs g k)")
  case False
  then have "thread_step polite (g, Asking (assigned_job g e n j m k b f), S) (g, Over, S)" by (intro thread_step.full) simp
  then show ?thesis using AssignJob_refused(1) [OF False] by (auto simp: same_shared_def)
next
  case True
  let ?job = "assigned_job g e n j m k b f"
  obtain g1 where g1: "incrUserJobs g k = (g1, True)" using True by (metis prod.collapse)
  have fr: "pendingJobs g1 = pendingJobs g" "chans g1 = chans g" "next_chan g1 = next_chan g" "nodes g1 = nodes g"
    using incrUserJobs_frame [of g k] by (simp_all add: g1)
  have r: "thread_step polite (g, Asking ?job, S) (g1, Reserved ?job, S)" using g1 by (intro thread_step.reserve) simp
  show ?thesis
  proof (cases "nodes g1 n")
    case None
    have "thread_step polite (g1, Reserved ?job, S) (g1, Releasing ?job, S)" by (rule thread_step.no_node) (simp add: None)
    then have "thread_run polite (g, Asking ?job, S) (decrUserJobs g1 k, Over, S)"
      using r thread_step.release [of polite g1 ?job S] by (auto intro!: run_ends)
    then show ?thesis using AssignJob_refused(2) [OF g1 None] by (auto simp: same_shared_def)
  next
    case (Some c)
    obtain h ok where h: "AssignJob g e n j m k b f =
         (if \<not> ok then (decrUserJobs (h\<lparr>pendingJobs := (pendingJobs h)(j := None)\<rparr>) k, Inl ErrSend)
          else (h, Inr (next_chan g, Suc (next_chan g))))"
      "pendingJobs h = (pendingJobs g)(j \<mapsto> ?job)"
      "chans h = (chans g)(next_chan g \<mapsto> \<lparr>buffer = [], capacity = 64, closed = False\<rparr>,
         Suc (next_chan g) \<mapsto> \<lparr>buffer = [], capacity = 0, closed = False\<rparr>)"
      "next_chan h = Suc (Suc (next_chan g))" "userJobs h = userJobs g1" "nodes h = nodes g"
      by (rule AssignJob_sending [OF g1 Some, of e j m b f]) assumption
    obtain g2 job' where w: "with_channels g1 ?job = (g2, job')" by force
    have j': "job' = ?job" using w fr by (auto simp: with_channels_eq assigned_job_def)
    let ?p = "put_job g2 ?job"
    have s: "same_shared ?p h" using w fr h by (auto simp: same_shared_def with_channels_eq)
    have q: "thread_run polite (g, Asking ?job, S) (?p, Sending ?job, S)"
      using r thread_step.found [of g1 ?job c polite S] thread_step.insert [of g1 ?job S g2 job' polite] w j' Some fr assms
      by (auto intro!: run_ends)
    show ?thesis
    proof (cases ok)
      case True
      then show ?thesis
        using s h(1) rtranclp.rtrancl_into_rtrancl [OF q thread_step.sent] by (auto simp: same_shared_def)
    next
      case False
      have "thread_run polite (?p, Sending ?job, S) (decrUserJobs (take_job ?p j) k, Over, S)"
        using thread_step.send_fails [of polite ?p ?job S] thread_step.take_back [of polite ?p ?job S]
          thread_step.release [of polite "take_job ?p j" ?job S] by (auto intro!: run_ends)
      moreover have "same_shared (decrUserJobs (take_job ?p j) k) (decrUserJobs (h\<lparr>pendingJobs := (pendingJobs h)(j := None)\<rparr>) k)"
        using s decr_cong [of "take_job ?p j" "h\<lparr>pendingJobs := (pendingJobs h)(j := None)\<rparr>" k] by (simp add: same_shared_def)
      ultimately show ?thesis using q False h(1) by (auto intro: rtranclp_trans)
    qed
  qed
qed

lemma reject_schedule:
  assumes "channels_open g"
  shows "\<exists>h S'. thread_run False (g, Rejecting (msg_JobID msg), S) (h, Over, S') \<and> same_shared h (fst (handleReject g nc msg))"
proof (cases "pendingJobs g (msg_JobID msg)")
  case None
  have "thread_step False (g, Rejecting (msg_JobID msg), S) (g, Over, S)" by (rule thread_step.gone [OF None]) simp
  then show ?thesis by (auto simp: handleReject_def None same_shared_def)
next
  case (Some job)
  obtain g1 where c: "close_chan g (pj_DoneCh job) = (g1, False)"
    using assms Some by (force simp: channels_open_def close_chan_def)
  have "thread_run False (g, Rejecting (msg_JobID msg), S) (decrUserJobs (take_job g1 (msg_JobID msg)) (pj_UserKey job), Over, S)"
    using thread_step.reject [OF Some _ c, of False S] thread_step.release [of False "take_job g1 (msg_JobID msg)" job S]
    by (auto intro!: run_ends)
  then show ?thesis by (auto simp: handleReject_def Some c same_shared_def take_job_def)
qed

lemma close_take: "close_chan (take_job g j) ch = (take_job (fst (close_chan g ch)) j, snd (close_chan g ch))"
  by (simp add: close_chan_def take_job_def split: option.split)

lemma finish_schedule:
  assumes "channels_open g"
  shows "\<exists>h S'. thread_run False (g, Finishing (nc_NodeID nc) (msg_JobID msg), S) (h, Over, S') \<and>
    same_shared h (fst (handleProxyDone g e c nc msg))"
proof (cases "\<exists>job. pendingJobs g (msg_JobID msg) = Some job \<and> pj_NodeID job = nc_NodeID nc")
  case False
  have "thread_step False (g, Finishing (nc_NodeID nc) (msg_JobID msg), S) (g, Over, S)"
  proof (cases "pendingJobs g (msg_JobID msg)")
    case None
    then show ?thesis by (rule thread_step.gone) simp
  next
    case (Some job)
    then show ?thesis by (rule thread_step.not_owner) (use False Some in simp)
  qed
  moreover have "fst (handleProxyDone g e c nc msg) = g" using False by (auto simp: handleProxyDone_def split: option.split)
  ultimately show ?thesis by (auto simp: same_shared_def)
next
  case True
  let ?j = "msg_JobID msg"
  obtain job where job: "pendingJobs g ?j = Some job" "pj_NodeID job = nc_NodeID nc" using True by blast
  obtain g1 where c: "close_chan g (pj_DoneCh job) = (g1, False)"
    using assms job(1) by (force simp: channels_open_def close_chan_def)
  let ?h = "decrUserJobs (take_job g1 ?j) (pj_UserKey job)"
  have "thread_step False (g, Finishing (nc_NodeID nc) ?j, S) (take_job g ?j, Closing job, S)"
    by (rule thread_step.finish [OF job]) simp
  moreover have "thread_step False (take_job g ?j, Closing job, S) (take_job g1 ?j, Releasing job, S)"
    by (rule thread_step.close) (simp add: close_take c)
  ultimately have "thread_run False (g, Finishing (nc_NodeID nc) ?j, S) (?h, Over, S)"
    using thread_step.release [of False "take_job g1 ?j" job S] by (auto intro!: run_ends)
  moreover have "same_shared ?h (fst (handleProxyDone g e c nc msg))"
  proof -
    obtain g' p where r: "handleProxyDone g e c nc msg = (g', p)" by force
    have "\<not> snd (close_chan g (pj_DoneCh job))" by (simp add: c)
    note m = handleProxyDone_maps [OF r job this]
    show ?thesis
      using m close_frame [OF c] decr_cong [of "take_job g1 ?j" g "pj_UserKey job"] by (simp add: same_shared_def r c)
  qed
  ultimately show ?thesis by blast
qed

text \<open>The clean-up: a thread for every expired job, all of them past the removal before the first gives its slot back.\<close>

abbreviation world_steps where "world_steps polite \<equiv> (world_step polite)\<^sup>*\<^sup>*"

lemma remove_schedule:
  "remove_expired g now ids = (g', js, False) \<Longrightarrow>
   world_steps False (g, T, S) (g', rev (map Releasing js) @ T, S)"
proof (induction g now ids arbitrary: g' js T rule: remove_expired.induct)
  case (2 g now k ks)
  show ?case
  proof (cases "\<exists>job. pendingJobs g k = Some job \<and> expired_at now job")
    case False
    then show ?thesis using 2 by (auto split: option.splits)
  next
    case True
    then obtain job where job: "pendingJobs g k = Some job" "expired_at now job" by blast
    obtain g1 js' where c: "close_chan g (pj_DoneCh job) = (g1, False)" "js = job # js'"
      and r: "remove_expired (take_job g1 k) now ks = (g', js', False)"
      unfolding take_job_def using remove_expired_ConsE [OF "2.prems" job] .
    have "world_step False (g, T, S) (g, Expiring k # T, S)" by (rule world_step.spawn) (simp add: starts_def)
    moreover have "world_step False (g, Expiring k # T, S) (take_job g1 k, Releasing job # T, S)"
      using world_step.run [OF thread_step.expire [OF job(1) _ c(1)], of False S "[]" T] by simp
    moreover have "world_steps False (take_job g1 k, Releasing job # T, S) (g', rev (map Releasing js') @ Releasing job # T, S)"
      using "2.IH"(3) [OF job(1) _ refl c(1) [symmetric], of g' js' "Releasing job # T"] job(2) r
      by (simp add: take_job_def)
    ultimately show ?thesis by (simp add: c(2) converse_rtranclp_into_rtranclp)
  qed
qed simp

lemma settle_schedule:
  "settle_all g e js = (g', False) \<Longrightarrow> same_shared h g \<Longrightarrow>
   \<exists>h'. world_steps False (h, rev (map Releasing js) @ T, S) (h', replicate (length js) Over @ T, S) \<and> same_shared h' g'"
proof (induction js arbitrary: g h T)
  case (Cons job js)
  let ?h = "decrUserJobs h (pj_UserKey job)"
  have r: "settle_all (fst (settle_expired g e job)) e js = (g', False)"
    using Cons.prems(1) by (simp add: split_beta split: if_splits)
  have "same_shared ?h (fst (settle_expired g e job))"
    using Cons.prems(2) decr_cong [of h g "pj_UserKey job"] by (simp add: same_shared_def)
  then obtain h' where h': "world_steps False (?h, rev (map Releasing js) @ Over # T, S)
      (h', replicate (length js) Over @ Over # T, S)" "same_shared h' g'"
    using Cons.IH [OF r] by blast
  have "world_step False (h, rev (map Releasing js) @ Releasing job # T, S) (?h, rev (map Releasing js) @ Over # T, S)"
    by (rule world_step.run [OF thread_step.release])
  then show ?case
    using h' by (auto simp: replicate_app_Cons_same intro: converse_rtranclp_into_rtranclp)
qed auto

lemma cleanup_schedule:
  assumes "cleanup_tick g e = (g', False)"
  shows "\<exists>h k. world_steps False (g, T, S) (h, replicate k Over @ T, S) \<and> same_shared h g'"
proof -
  obtain g1 js where r: "remove_expired g (e_now e) (e_order e) = (g1, js, False)" "settle_all g1 e js = (g', False)"
    using assms by (auto simp: cleanup_tick_def split: prod.splits if_splits)
  have "same_shared g1 g1" by (simp add: same_shared_def)
  then show ?thesis using remove_schedule [OF r(1), of T S] settle_schedule [OF r(2), of g1 T S] by (blast intro: rtranclp_trans)
qed

section \<open>Properties\<close>

text \<open>
  C6: however the critical sections of the handlers interleave, when nodes answer only for jobs they were sent
  and the clean-up takes only jobs whose message was sent, a user's counter is the number of their pending jobs and of the slots that threads hold for them, and at most
  three; and no thread closes a channel that is closed already.
\<close>

theorem limit_interleaved:
  assumes "world_run True (g, T, S)"
  shows "user_jobs g k = int (card {j. \<exists>job. pendingJobs g j = Some job \<and> pj_UserKey job = k}) +
      int (length (filter (\<lambda>job. pj_UserKey job = k) (owed T))) \<and>
    user_jobs g k \<le> maxConcurrentPerUser \<and>
    (\<forall>job. Closing job \<in> set T \<longrightarrow> \<not> snd (close_chan g (pj_DoneCh job))) \<and>
    (\<forall>j job. pendingJobs g j = Some job \<longrightarrow> \<not> snd (close_chan g (pj_DoneCh job)))"
proof -
  have s: "slots_held (owed T) g" using world_slots [OF assms] by simp
  have c: "chans_ok (all_closing T) g" using world_chans [OF assms] by simp
  have "\<not> snd (close_chan g (pj_DoneCh job))" if "Closing job \<in> set T" for job
    using c that open_close [of g "pj_DoneCh job"] by (force simp: chans_ok_def all_closing_def)
  moreover have "\<not> snd (close_chan g (pj_DoneCh job))" if "pendingJobs g j = Some job" for j job
    using c that open_close [of g "pj_DoneCh job"] by (force simp: chans_ok_def)
  ultimately show ?thesis
    using s by (simp add: slots_held_def slots_def owing_def maxConcurrentPerUser_def)
qed

text \<open>A thread's step wherever it stands, and a whole assignment at the front.\<close>

lemma run_at:
  "world_run polite (g, xs @ p # ys, S) \<Longrightarrow> thread_step polite (g, p, S) (g', p', S') \<Longrightarrow> world_run polite (g', xs @ p' # ys, S')"
  by (rule world_run.step, assumption, rule world_step.run)

lemma run_front:
  "world_run polite (g, p # ys, S) \<Longrightarrow> thread_step polite (g, p, S) (g', p', S') \<Longrightarrow> world_run polite (g', p' # ys, S')"
  using run_at [of polite g "[]"] by simp

lemma run_spawn: "world_run polite (g, T, S) \<Longrightarrow> starts p \<Longrightarrow> world_run polite (g, p # T, S)"
  by (rule world_run.step, assumption, rule world_step.spawn)

lemma assign_run:
  fixes job :: PendingJob
  assumes "world_run polite (g, T, S)" "user_jobs g (pj_UserKey job) < 3" "nodes g (pj_NodeID job) = Some c"
    and "pendingJobs g (pj_JobID job) = None" "pj_JobID job \<notin> S"
  obtains g' job' where "world_run polite (g', Sending job' # T, S)" "pendingJobs g' = (pendingJobs g)(pj_JobID job \<mapsto> job')"
    "user_jobs g' = (user_jobs g)(pj_UserKey job := user_jobs g (pj_UserKey job) + 1)" "nodes g' = nodes g"
    "pj_JobID job' = pj_JobID job" "pj_UserKey job' = pj_UserKey job"
proof -
  let ?k = "pj_UserKey job"
  let ?g1 = "g\<lparr>userJobs := (userJobs g)(?k \<mapsto> user_jobs g ?k + 1)\<rparr>"
  obtain g2 job' where w: "with_channels ?g1 job = (g2, job')" by force
  have "incrUserJobs g ?k = (?g1, True)" using assms(2) by (simp add: incrUserJobs_def maxConcurrentPerUser_def)
  then have r: "world_run polite (?g1, Reserved job # T, S)"
    by (intro run_front [OF run_spawn [OF assms(1), of "Asking job"]] thread_step.reserve) (simp_all add: starts_def)
  have i: "world_run polite (put_job g2 job', Sending job' # T, S)"
    by (rule run_front [OF run_front [OF r thread_step.found [of _ _ c]] thread_step.insert [OF _ _ w]])
       (use assms(3-5) in simp_all)
  show ?thesis
    by (rule that [OF i]) (use w in \<open>auto simp: with_channels_eq user_jobs_def put_job_def fun_eq_iff\<close>)
qed

lemma assign_sent:
  fixes job :: PendingJob
  assumes "world_run polite (g, T, S)" "user_jobs g (pj_UserKey job) < 3" "nodes g (pj_NodeID job) = Some c"
    and "pendingJobs g (pj_JobID job) = None" "pj_JobID job \<notin> S"
  obtains g' job' where "world_run polite (g', Over # T, insert (pj_JobID job) S)"
    "pendingJobs g' = (pendingJobs g)(pj_JobID job \<mapsto> job')"
    "user_jobs g' = (user_jobs g)(pj_UserKey job := user_jobs g (pj_UserKey job) + 1)" "nodes g' = nodes g"
    "pj_UserKey job' = pj_UserKey job"
proof -
  obtain g' job' where g': "world_run polite (g', Sending job' # T, S)"
      "pendingJobs g' = (pendingJobs g)(pj_JobID job \<mapsto> job')"
      "user_jobs g' = (user_jobs g)(pj_UserKey job := user_jobs g (pj_UserKey job) + 1)" "nodes g' = nodes g"
      "pj_JobID job' = pj_JobID job" "pj_UserKey job' = pj_UserKey job"
    using assign_run [OF assms] .
  have "world_run polite (g', Over # T, insert (pj_JobID job) S)"
    using run_front [OF g'(1) thread_step.sent] g'(5) by simp
  then show ?thesis using that g' by blast
qed

definition racing_job :: "string \<Rightarrow> PendingJob" where
  "racing_job j = example_job\<lparr>pj_JobID := j, pj_NodeID := ''n''\<rparr>"

lemma racing_job_simps [simp]:
  "pj_JobID (racing_job j) = j" "pj_NodeID (racing_job j) = ''n''" "pj_UserKey (racing_job j) = ''user-1''"
  by (simp_all add: racing_job_def example_job_def)

lemma limit_interleaved_witness:
  "\<exists>g job T S. world_run True (g, Closing job # T, S) \<and> user_jobs g (pj_UserKey job) = 1 \<and>
     user_jobs g (pj_UserKey job) \<le> maxConcurrentPerUser \<and> \<not> snd (close_chan g (pj_DoneCh job))"
proof -
  let ?g0 = "(New_gateway empty_db (New (Fin 5) None))\<lparr>nodes := [''n'' \<mapsto> 0]\<rparr>"
  have r0: "world_run True (?g0, [], {})" by (rule world_run.init) (simp_all add: New_gateway_def)
  have p0: "pendingJobs ?g0 = Map.empty" "user_jobs ?g0 = (\<lambda>_. 0)" "nodes ?g0 ''n'' = Some 0"
    by (simp_all add: New_gateway_def user_jobs_def fun_eq_iff)
  obtain g x where g: "world_run True (g, [Over], {''x''})" "pendingJobs g = [''x'' \<mapsto> x]"
      "user_jobs g ''user-1'' = 1" "pj_UserKey x = ''user-1''"
    by (rule assign_sent [OF r0, of "racing_job ''x''" 0]) (use p0 in simp_all)
  let ?g = "take_job g ''x''"
  have r: "world_run True (?g, [Closing x, Over], {''x''})"
    by (rule run_front [OF run_spawn [OF g(1), of "Finishing (pj_NodeID x) ''x''"] thread_step.finish])
       (simp_all add: starts_def g(2))
  have "user_jobs ?g ''user-1'' = 1" using g(3) by (simp add: user_jobs_def)
  moreover have "user_jobs ?g ''user-1'' \<le> maxConcurrentPerUser" "\<not> snd (close_chan ?g (pj_DoneCh x))"
    using limit_interleaved [OF r, of "''user-1''"] by (blast, simp)
  ultimately show ?thesis using r g(4) by metis
qed

text \<open>
  C7: the handlers of the gateway, one step each elsewhere, are schedules of their threads: from every state the
  gateway can reach, running the critical sections of \<open>AssignJob\<close>, \<open>handleReject\<close> or \<open>handleProxyDone\<close> one
  after the other leads to the pending jobs, counters and channels that the handler leaves; and so does a tick of
  the clean-up that does not panic, as a thread for each job it removes.
\<close>

theorem handlers_are_schedules:
  assumes "reachable d b g" "pendingJobs g j = None" "j \<notin> S"
  shows "(\<exists>h S'. thread_run polite (g, Asking (assigned_job g e n j m k body f), S) (h, Over, S') \<and>
      same_shared h (fst (AssignJob g e n j m k body f))) \<and>
    (\<exists>h S'. thread_run False (g, Rejecting (msg_JobID msg), S) (h, Over, S') \<and>
      same_shared h (fst (handleReject g nc msg))) \<and>
    (\<exists>h S'. thread_run False (g, Finishing (nc_NodeID nc) (msg_JobID msg), S) (h, Over, S') \<and>
      same_shared h (fst (handleProxyDone g e c nc msg))) \<and>
    (\<not> snd (cleanup_tick g e) \<longrightarrow>
      (\<exists>h k. world_steps False (g, T, S) (h, replicate k Over @ T, S) \<and> same_shared h (fst (cleanup_tick g e))))"
proof -
  have "channels_open g" using reachable_inv [OF assms(1)] by (simp add: gw_inv_def)
  then show ?thesis using assign_schedule [OF assms(2,3)] reject_schedule finish_schedule
      cleanup_schedule [of g e "fst (cleanup_tick g e)" T S] by (simp add: prod_eq_iff)
qed

text \<open>A node takes a job from a gateway that has just started.\<close>

theorem handlers_are_schedules_witness:
  "\<exists>h S'. thread_run True (example_connected, Asking (assigned_job example_connected example_env ''node-0001'' ''j1'' ''m'' ''user-1'' ''body'' False), {})
     (h, Over, S') \<and> pendingJobs h = [''j1'' \<mapsto> example_job]"
proof -
  have "gw_step example_start (EvConnect example_env ''key'') example_connected"
    by (rule gw_step.step) (simp_all add: example_connected_def)
  then have c: "reachable example_db (New (Fin 5) None) example_connected"
    unfolding example_start_def by (rule reachable.step [OF reachable.start])
  have p: "pendingJobs example_connected ''j1'' = None"
    by (simp add: example_connected_eq example_start_def New_gateway_def)
  have "\<exists>h S'. thread_run True (example_connected, Asking (assigned_job example_connected example_env ''node-0001'' ''j1'' ''m'' ''user-1'' ''body'' False), {})
      (h, Over, S') \<and> same_shared h (fst (AssignJob example_connected example_env ''node-0001'' ''j1'' ''m'' ''user-1'' ''body'' False))"
    using handlers_are_schedules [OF c p, of "{}" True example_env "''node-0001''" "''m''" "''user-1''" "''body''" False] by blast
  then show ?thesis
    unfolding example_busy_def [symmetric] same_shared_def example_busy_state(1) by blast
qed

text \<open>A job is rejected while its message is being sent: its slot is free, and the sending goes on.\<close>

lemma freed_while_sending:
  "\<exists>g x. world_run False (g, [Over, Sending x], {}) \<and> pendingJobs g = Map.empty \<and> user_jobs g ''user-1'' = 0 \<and>
     nodes g ''n'' = Some 0 \<and> pj_JobID x = ''x'' \<and> pj_UserKey x = ''user-1''"
proof -
  let ?u = "''user-1''"
  let ?g0 = "(New_gateway empty_db (New (Fin 5) None))\<lparr>nodes := [''n'' \<mapsto> 0]\<rparr>"
  have r0: "world_run False (?g0, [], {})" by (rule world_run.init) (simp_all add: New_gateway_def)
  have p0: "pendingJobs ?g0 = Map.empty" "user_jobs ?g0 = (\<lambda>_. 0)" "nodes ?g0 ''n'' = Some 0"
    by (simp_all add: New_gateway_def user_jobs_def fun_eq_iff)
  obtain g1 x where g1: "world_run False (g1, [Sending x], {})" "pendingJobs g1 = [''x'' \<mapsto> x]"
      "user_jobs g1 ?u = 1" "nodes g1 ''n'' = Some 0" "pj_JobID x = ''x''" "pj_UserKey x = ?u"
    by (rule assign_run [OF r0, of "racing_job ''x''" 0]) (use p0 in simp_all)
  have "open_at g1 (pj_DoneCh x)" using world_chans [OF g1(1)] g1(2) by (simp add: chans_ok_def)
  then obtain g2 where c: "close_chan g1 (pj_DoneCh x) = (g2, False)" using open_close by blast
  have "world_run False (take_job g2 ''x'', [Releasing x, Sending x], {})"
    by (rule run_front [OF run_spawn [OF g1(1), of "Rejecting ''x''"] thread_step.reject [OF _ _ c]])
       (simp_all add: starts_def g1(2))
  note r3 = run_front [OF this thread_step.release]
  let ?g3 = "decrUserJobs (take_job g2 ''x'') ?u"
  have "user_jobs (take_job g2 ''x'') = user_jobs g1" using close_frame [OF c] by (simp add: user_jobs_def fun_eq_iff)
  then have u3: "user_jobs ?g3 ?u = 0" using user_jobs_decr [of "take_job g2 ''x''" ?u ?u] g1(3) by simp
  show ?thesis
    using u3 r3 close_frame [OF c] g1 by (intro exI [of _ ?g3] exI [of _ x]) simp
qed

text \<open>
  C39: without that courtesy the slot of a job can be given back twice, by the handler that takes the job away while
  its message is being sent and by \<open>AssignJob\<close> when the sending then fails; the user's counter is then too low,
  and a fourth job gets past the limit of three.
\<close>

theorem double_release_breaks_limit:
  "\<exists>g T S. world_run False (g, T, S) \<and>
     card {j. \<exists>job. pendingJobs g j = Some job \<and> pj_UserKey job = ''user-1''} = 4 \<and> user_jobs g ''user-1'' = 3"
proof -
  let ?u = "''user-1''"
  obtain g3 x where g3: "world_run False (g3, [Over, Sending x], {})" "pendingJobs g3 = Map.empty" "user_jobs g3 ?u = 0"
      "nodes g3 ''n'' = Some 0" and x: "pj_JobID x = ''x''" "pj_UserKey x = ?u"
    using freed_while_sending by blast
  obtain g4 a where g4: "world_run False (g4, [Over, Over, Sending x], {''a''})" "pendingJobs g4 = [''a'' \<mapsto> a]"
      "user_jobs g4 ?u = 1" "nodes g4 ''n'' = Some 0" "pj_UserKey a = ?u"
    by (rule assign_sent [OF g3(1), of "racing_job ''a''" 0]) (use g3 in simp_all)
  obtain g5 b where g5: "world_run False (g5, [Over, Over, Over, Sending x], {''b'', ''a''})"
      "pendingJobs g5 = [''a'' \<mapsto> a, ''b'' \<mapsto> b]" "user_jobs g5 ?u = 2" "nodes g5 ''n'' = Some 0" "pj_UserKey b = ?u"
    by (rule assign_sent [OF g4(1), of "racing_job ''b''" 0]) (use g4 in simp_all)
  obtain g6 d where g6: "world_run False (g6, [Over, Over, Over, Over, Sending x], {''d'', ''b'', ''a''})"
      "pendingJobs g6 = [''a'' \<mapsto> a, ''b'' \<mapsto> b, ''d'' \<mapsto> d]" "user_jobs g6 ?u = 3" "nodes g6 ''n'' = Some 0"
      "pj_UserKey d = ?u"
    by (rule assign_sent [OF g5(1), of "racing_job ''d''" 0]) (use g5 in simp_all)
  let ?S = "{''d'', ''b'', ''a''}" and ?O = "[Over, Over, Over, Over]"
  have f: "world_run False (g6, ?O @ Failed x # [], ?S)"
    by (rule run_at [OF _ thread_step.send_fails]) (use g6(1) in simp)
  have t: "world_run False (take_job g6 (pj_JobID x), ?O @ Releasing x # [], ?S)"
    by (rule run_at [OF f thread_step.take_back])
  let ?g7 = "decrUserJobs (take_job g6 (pj_JobID x)) (pj_UserKey x)"
  have r7: "world_run False (?g7, ?O @ Over # [], ?S)" by (rule run_at [OF t thread_step.release])
  have "user_jobs (take_job g6 (pj_JobID x)) = user_jobs g6" by (simp add: user_jobs_def fun_eq_iff)
  then have u7: "user_jobs ?g7 ?u = 2" using user_jobs_decr [of "take_job g6 (pj_JobID x)" ?u ?u] g6(3) x(2) by simp
  have g7: "pendingJobs ?g7 = [''a'' \<mapsto> a, ''b'' \<mapsto> b, ''d'' \<mapsto> d]" "user_jobs ?g7 ?u = 2" "nodes ?g7 ''n'' = Some 0"
    using g6 x u7 by auto
  obtain g8 h where g8: "world_run False (g8, Sending h # ?O @ Over # [], ?S)"
      "pendingJobs g8 = [''a'' \<mapsto> a, ''b'' \<mapsto> b, ''d'' \<mapsto> d, ''h'' \<mapsto> h]" "user_jobs g8 ?u = 3" "pj_UserKey h = ?u"
    by (rule assign_run [OF r7, of "racing_job ''h''" 0]) (use g7 in simp_all)
  have "{j. \<exists>job. pendingJobs g8 j = Some job \<and> pj_UserKey job = ?u} = {''a'', ''b'', ''d'', ''h''}"
    using g8(2,4) g4(5) g5(5) g6(5) by auto
  then show ?thesis using g8 by (intro exI [of _ g8], intro exI [of _ "Sending h # ?O @ [Over]"], intro exI [of _ ?S]) simp
qed

end
