(* ===== verification/Charges.thy ===== *)
theory Charges
  imports Completion
begin

text \<open>
  Settling jobs at the granularity of database statements. Jobs of different nodes are settled by different
  goroutines, and the API, the watcher, the payout engine and the price tracker run beside them, so a job's three
  parts, metering, recording and charging, can each be separated by anything the others do. The store has one
  connection and \<open>DeductBalance\<close> is a transaction, so each part is atomic.
\<close>

section \<open>A goroutine that settles a job\<close>

text \<open>
  The rest of \<open>handleProxyDone\<close>, or with \<open>expired\<close> of the clean-up's loop body, once the job has been taken away.
\<close>

datatype settling =
  Taken PendingJob bool
| Metered PendingJob bool int int int64 int64
| Charging PendingJob int64
| Settled

fun settle_step :: "env \<Rightarrow> settling \<times> Gateway \<Rightarrow> settling \<times> Gateway" where
  "settle_step e (Taken job expired, g) =
     (let ((tokensIn, tokensOut), grossUSD, providerMsats, feeMsats) = meter_job (bill g) (pj_Model job) (pj_LastChunk job)
      in (if expired \<and> \<not> wrap64 (tokensIn + tokensOut) > 0 then Settled
          else Metered job expired tokensIn tokensOut providerMsats feeMsats, g))"
| "settle_step e (Metered job expired tokensIn tokensOut providerMsats feeMsats, g) =
     (let (g1, recorded) = record_job g e job tokensIn tokensOut providerMsats feeMsats
      in (if recorded \<and> \<not> expired then Charging job (wrap64 (providerMsats + feeMsats)) else Settled, g1))"
| "settle_step e (Charging job cost, g) = (Settled, fst (charge_user g e job cost))"
| "settle_step e (Settled, g) = (Settled, g)"

text \<open>
  The gateway and the goroutines that are settling. A goroutine starts with a pending job, under the lock, without
  touching the database; any step that settles no job may come between.
\<close>

inductive settling_step :: "Gateway \<times> settling list \<Rightarrow> Gateway \<times> settling list \<Rightarrow> bool" where
  begins: "pendingJobs g j = Some job \<Longrightarrow> db g' = db g \<Longrightarrow> bill g' = bill g \<Longrightarrow>
    settling_step (g, ths) (g', ths @ [Taken job expired])"
| goes_on: "n < length ths \<Longrightarrow> settle_step e (ths ! n, g) = (th, g') \<Longrightarrow> settling_step (g, ths) (g', ths[n := th])"
| meanwhile: "ev_ok g ev \<Longrightarrow> settles_none ev \<Longrightarrow> settling_step (g, ths) (fst (gw_exec g ev), ths)"

section \<open>What is still to be charged\<close>

fun unpaid_by :: "string \<Rightarrow> settling \<Rightarrow> int" where
  "unpaid_by k (Charging job cost) = due_for job cost k"
| "unpaid_by k _ = 0"

definition outstanding :: "settling list \<Rightarrow> string \<Rightarrow> int" where
  "outstanding ths k = sum_list (map (unpaid_by k) ths)"

fun metered_ok :: "settling \<Rightarrow> bool" where
  "metered_ok (Metered job expired i out p f) = (capped p f \<and> tokens_ok i \<and> tokens_ok out)"
| "metered_ok (Charging job cost) = (0 \<le> cost)"
| "metered_ok _ = True"

lemma outstanding_update:
  "n < length ths \<Longrightarrow> outstanding (ths[n := th]) k = outstanding ths k - unpaid_by k (ths ! n) + unpaid_by k th"
  by (induction ths arbitrary: n) (auto simp: outstanding_def split: nat.split)

lemma outstanding_nonneg: "\<forall>th\<in>set ths. metered_ok th \<Longrightarrow> 0 \<le> outstanding ths k"
proof -
  assume "\<forall>th\<in>set ths. metered_ok th"
  moreover have "metered_ok th \<Longrightarrow> 0 \<le> unpaid_by k th" for th by (cases th) (simp_all add: due_for_nonneg)
  ultimately show "0 \<le> outstanding ths k" by (auto simp: outstanding_def intro!: sum_list_nonneg)
qed

text \<open>The invariant: what was charged and what is still to be charged are covered by the recorded jobs.\<close>

definition settling_ok :: "Gateway \<times> settling list \<Rightarrow> bool" where
  "settling_ok s \<longleftrightarrow> (case s of (g, ths) \<Rightarrow>
     (\<exists>sp. ledger_run sp (db g) \<and> (\<forall>k. sp k + outstanding ths k \<le> billed (db g) k)) \<and>
     (\<forall>j\<in>set (tbl_jobs (db g)). row_ok j) \<and> engine_ok (bill g) \<and> (\<forall>th\<in>set ths. metered_ok th))"

lemma settling_quiet:
  assumes "quiet g g'" "settling_ok (g, ths)" shows "settling_ok (g', ths)"
proof -
  obtain sp where sp: "ledger_run sp (db g)" "\<And>k. sp k + outstanding ths k \<le> billed (db g) k"
    using assms(2) by (auto simp: settling_ok_def)
  have "ledger_run sp (db g') \<and> tbl_jobs (db g') = tbl_jobs (db g)"
    using assms(1) sp(1) ledger_run.step [OF sp(1)] jobs_shared spend_shared unfolding quiet_def by metis
  then show ?thesis using assms sp by (auto simp: settling_ok_def quiet_def billed_def)
qed

lemma settle_step_ok:
  assumes "settling_ok (g, ths)" "n < length ths" "settle_step e (ths ! n, g) = (th, g')"
  shows "settling_ok (g', ths[n := th])"
proof -
  obtain sp where sp: "ledger_run sp (db g)" "\<And>k. sp k + outstanding ths k \<le> billed (db g) k"
    using assms(1) by (auto simp: settling_ok_def)
  have ok: "\<forall>j\<in>set (tbl_jobs (db g)). row_ok j" "engine_ok (bill g)" "metered_ok (ths ! n)" "\<forall>th\<in>set ths. metered_ok th"
    using assms(1,2) by (auto simp: settling_ok_def)
  have I: "settling_ok (g', ths[n := th])"
    if "ledger_run sp' (db g')" "\<And>k. sp' k - sp k + unpaid_by k th - unpaid_by k (ths ! n) \<le> billed (db g') k - billed (db g) k"
      "\<forall>j\<in>set (tbl_jobs (db g')). row_ok j" "bill g' = bill g" "metered_ok th" for sp'
  proof -
    have "sp' k + outstanding (ths[n := th]) k \<le> billed (db g') k" for k
      using sp(2) [of k] that(2) [of k] by (simp add: outstanding_update [OF assms(2)])
    moreover have "\<forall>x\<in>set (ths[n := th]). metered_ok x" using ok(4) that(5) set_update_subset_insert [of ths n th] by auto
    ultimately show ?thesis using that(1,3,4) ok(2) by (auto simp: settling_ok_def)
  qed
  show ?thesis
  proof (cases "ths ! n")
    case (Taken job expired)
    obtain i out usd p f where m: "meter_job (bill g) (pj_Model job) (pj_LastChunk job) = ((i, out), usd, p, f)"
      by (metis prod.collapse)
    have "g' = g" "th = Settled \<or> th = Metered job expired i out p f" using assms(3) m by (auto simp: Taken split: if_splits)
    then show ?thesis using I [of sp] sp(1) ok(1) meter_job_ok [OF ok(2) m] by (auto simp: Taken)
  next
    case (Metered job expired i out p f)
    then have c: "capped p f" "tokens_ok i" "tokens_ok out" using ok(3) by simp_all
    have pf: "wrap64 (p + f) = p + f" "0 \<le> p + f" using c(1) by (simp_all add: capped_def in_int64_def)
    obtain g1 r where r: "record_job g e job i out p f = (g1, r)" by force
    then have th: "g' = g1" "th = (if r \<and> \<not> expired then Charging job (p + f) else Settled)"
      using assms(3) pf(1) by (auto simp: Metered)
    show ?thesis
    proof (cases r)
      case True
      then show ?thesis
        using I [of sp] record_ledger [OF sp(1) ok(1) c, of e job g1] r pf(2) due_for_nonneg [of "p + f" job]
        by (auto simp: Metered th)
    next
      case False
      then show ?thesis using I [of sp] record_failed [of g e job i out p f g1] r sp(1) ok(1) by (simp add: Metered th)
    qed
  next
    case (Charging job cost)
    then have c: "0 \<le> cost" using ok(3) by simp
    have th: "th = Settled" "g' = fst (charge_user g e job cost)" using assms(3) by (simp_all add: Charging)
    obtain sp' where s: "ledger_run sp' (db g')" "\<And>k. sp' k \<le> sp k + due_for job cost k" "tbl_jobs (db g') = tbl_jobs (db g)"
        "bill g' = bill g"
      using charge_ledger [OF sp(1) c, of e job] unfolding th(2) by blast
    then show ?thesis using I [of sp'] ok(1) by (simp add: Charging th(1) billed_def algebra_simps)
  next
    case Settled
    then show ?thesis using I [of sp] assms(3) sp(1) ok(1) by simp
  qed
qed

lemma settling_step_ok: "settling_step s s' \<Longrightarrow> settling_ok s \<Longrightarrow> settling_ok s'"
proof (induction rule: settling_step.induct)
  case (begins g j job g' ths expired)
  then show ?case by (simp add: settling_ok_def outstanding_def)
next
  case (goes_on n ths e g th g')
  then show ?case using settle_step_ok by blast
next
  case (meanwhile g ev ths)
  then show ?case using settling_quiet gw_exec_quiet by blast
qed

section \<open>Properties\<close>

text \<open>
  C4: in whatever order the statements of the settling goroutines and everything else the gateway does come: each
  balance is what was credited less what was charged, and not negative, and what was charged and what the goroutines
  are still to charge are together covered by the cost of the recorded paid jobs of the user.
\<close>

theorem charges_interleaved:
  assumes "settling_step\<^sup>*\<^sup>* (New_gateway d b, []) (g, ths)" "books_ok d" "engine_ok b"
  shows "\<exists>charged. \<forall>k. charged k + outstanding ths k \<le> billed (db g) k \<and> 0 \<le> outstanding ths k \<and>
    (\<forall>bal. accounts (db g) k = Some bal \<longrightarrow> bal = credited_to (db g) k - charged k \<and> 0 \<le> bal \<and> 0 \<le> charged k)"
proof -
  have "settling_ok (New_gateway d b, [])"
    using assms(2,3) by (simp add: settling_ok_def books_ok_def outstanding_def New_gateway_def)
  with assms(1) have ok: "settling_ok (g, ths)" by (induction rule: rtranclp_induct) (auto intro: settling_step_ok)
  then obtain sp where sp: "ledger_run sp (db g)" "\<And>k. sp k + outstanding ths k \<le> billed (db g) k"
    by (auto simp: settling_ok_def)
  have "0 \<le> outstanding ths k" for k using ok by (intro outstanding_nonneg) (simp add: settling_ok_def)
  then show ?thesis using ledger_books [OF sp(1)] sp(2) by (intro exI [of _ sp]) (auto simp: books_balance_def)
qed

text \<open>The job that costs 100 msats, recorded and not yet charged.\<close>

definition paid_recorded :: Gateway where
  "paid_recorded = (paid_told 1000000)\<lparr>db := recorded_db (paid_db 1000000) example_env paid_job 1000 500 95 5\<rparr>"

lemma step_meanwhile: "gw_step g ev g' \<Longrightarrow> settles_none ev \<Longrightarrow> settling_step (g, ths) (g', ths)"
  by (erule gw_stepE) (metis settling_step.meanwhile fst_conv)

lemma paid_settling:
  "settling_step\<^sup>*\<^sup>* (New_gateway (paid_db 1000000) paid_engine, []) (paid_recorded, [Charging paid_job 100])"
proof -
  let ?g = "paid_told 1000000"
  have q: "settles_none (EvMessage example_env 0 usage_msg)" by (simp add: usage_msg_def)
  have "settling_step (New_gateway (paid_db 1000000) paid_engine, []) (paid_connected 1000000, [])"
    "settling_step (paid_connected 1000000, []) (paid_busy 1000000, [])" "settling_step (paid_busy 1000000, []) (?g, [])"
    using step_meanwhile [OF paid_steps(1)] step_meanwhile [OF paid_steps(2)] step_meanwhile [OF paid_steps(3) q] by simp_all
  moreover have "settling_step (?g, []) (?g, [Taken paid_job False])"
    using settling_step.begins [of ?g "''j1''" paid_job ?g "[]" False] paid_told_state(1) by simp
  moreover have "settle_step example_env (Taken paid_job False, ?g) = (Metered paid_job False 1000 500 95 5, ?g)"
    unfolding settle_step.simps paid_told_state(4) paid_reads paid_meter by simp
  then have "settling_step (?g, [Taken paid_job False]) (?g, [Metered paid_job False 1000 500 95 5])"
    using settling_step.goes_on [of 0 "[Taken paid_job False]" example_env ?g] by simp
  moreover have "record_job ?g example_env paid_job 1000 500 95 5 = (paid_recorded, True)"
    using record_job_works [of example_env paid_job ?g 1000 500 95 5]
    by (simp add: paid_reads paid_told_state paid_recorded_def done_row_def)
  then have "settling_step (?g, [Metered paid_job False 1000 500 95 5]) (paid_recorded, [Charging paid_job 100])"
    using settling_step.goes_on [of 0 "[Metered paid_job False 1000 500 95 5]" example_env ?g] by (simp add: wrap64_def)
  ultimately show ?thesis by (meson converse_rtranclp_into_rtranclp r_into_rtranclp)
qed

theorem charges_interleaved_witness:
  "\<exists>charged. charged ''rc_user'' + 100 \<le> billed (db paid_recorded) ''rc_user'' \<and>
     1000000 = credited_to (db paid_recorded) ''rc_user'' - charged ''rc_user''"
proof -
  have "books_ok (paid_db 1000000)" by (rule paid_books) (simp_all add: in_int64_def)
  from charges_interleaved [OF paid_settling this paid_engine_ok]
  obtain charged where c: "charged ''rc_user'' + outstanding [Charging paid_job 100] ''rc_user'' \<le> billed (db paid_recorded) ''rc_user''"
      "\<forall>bal. accounts (db paid_recorded) ''rc_user'' = Some bal \<longrightarrow> bal = credited_to (db paid_recorded) ''rc_user'' - charged ''rc_user''"
    by blast
  have "outstanding [Charging paid_job 100] ''rc_user'' = 100"
    by (simp add: outstanding_def due_for_def example_job_def)
  moreover have "accounts (db paid_recorded) ''rc_user'' = Some 1000000"
    by (simp add: paid_recorded_def paid_reads(9))
  ultimately show ?thesis using c by (intro exI [of _ charged]) simp
qed

text \<open>What a goroutine does depends on the database and the engine only.\<close>

definition same_store :: "settling \<times> Gateway \<Rightarrow> settling \<times> Gateway \<Rightarrow> bool" where
  "same_store x y \<longleftrightarrow> fst x = fst y \<and> db (snd x) = db (snd y) \<and> bill (snd x) = bill (snd y)"

lemma settle_step_same: "same_store x y \<Longrightarrow> same_store (settle_step e x) (settle_step e y)"
  by (cases "(e, x)" rule: settle_step.cases; cases y)
     (auto simp: same_store_def record_job_def charge_user_def split_beta Let_def)

lemma settle_steps_same: "same_store x y \<Longrightarrow> same_store ((settle_step e ^^ n) x) ((settle_step e ^^ n) y)"
  by (induction n) (simp_all add: settle_step_same)

lemma settled_in_three:
  assumes "meter_job (bill g) (pj_Model job) (pj_LastChunk job) = ((i, out), usd, p, f)"
  shows "db (snd ((settle_step e ^^ 3) (Taken job False, g))) =
      (if \<not> snd (record_job g e job i out p f) then db (fst (record_job g e job i out p f))
       else db (fst (charge_user (fst (record_job g e job i out p f)) e job (wrap64 (p + f)))))"
    and "db (snd ((settle_step e ^^ 3) (Taken job True, g))) =
      (if wrap64 (i + out) > 0 then db (fst (record_job g e job i out p f)) else db g)"
  using assms by (simp_all add: numeral_3_eq_3 split_beta Let_def)

text \<open>
  The goroutines are the handlers' own parts: when nothing comes between, they leave the same database as the end of
  a job and the clean-up.
\<close>

lemma settling_is_schedule:
  assumes "pendingJobs g (msg_JobID msg) = Some job" "pj_NodeID job = nc_NodeID nc" "\<not> snd (close_chan g (pj_DoneCh job))"
  shows "db (fst (handleProxyDone g e c nc msg)) = db (snd ((settle_step e ^^ 3) (Taken job False, g))) \<and>
    db (fst (settle_expired g e job)) = db (snd ((settle_step e ^^ 3) (Taken job True, g)))"
proof
  obtain i out usd p f where m: "meter_job (bill g) (pj_Model job) (pj_LastChunk job) = ((i, out), usd, p, f)"
    by (metis prod.collapse)
  have same: "db (snd ((settle_step e ^^ 3) (Taken job x, h))) = db (snd ((settle_step e ^^ 3) (Taken job x, g)))"
    if "db h = db g" "bill h = bill g" for h x
    using settle_steps_same [of "(Taken job x, h)" "(Taken job x, g)" 3 e] that by (simp add: same_store_def)
  from assms(1,2) m show "db (fst (handleProxyDone g e c nc msg)) = db (snd ((settle_step e ^^ 3) (Taken job False, g)))"
  proof (rule handleProxyDone_store [of g msg job nc i out usd p f e c])
    fix g3 assume g3: "db g3 = db g" "bill g3 = bill g" and
      d: "db (fst (handleProxyDone g e c nc msg)) = (if snd (close_chan g (pj_DoneCh job)) then db g
        else if \<not> snd (record_job g3 e job i out p f) then db (fst (record_job g3 e job i out p f))
        else db (fst (charge_user (fst (record_job g3 e job i out p f)) e job (wrap64 (p + f)))))"
    have "meter_job (bill g3) (pj_Model job) (pj_LastChunk job) = ((i, out), usd, p, f)" using m g3 by simp
    from settled_in_three(1) [OF this, of e] show ?thesis using same [OF g3] d assms(3) by simp
  qed
  let ?h = "decrUserJobs g (pj_UserKey job)"
  have "meter_job (bill ?h) (pj_Model job) (pj_LastChunk job) = ((i, out), usd, p, f)" using m by simp
  from settled_in_three(2) [OF this, of e]
  show "db (fst (settle_expired g e job)) = db (snd ((settle_step e ^^ 3) (Taken job True, g)))"
    using same [of ?h] m by (simp add: settle_expired_def Let_def)
qed

end
