(* ===== verification/Spec2Isabelle.thy ===== *)
theory Spec2Isabelle
  imports Lives Register Leaks Interleave Charges
begin

text \<open>
  RouteCat, an inference gateway in Go: a verification library of its core.

  \<^bold>\<open>The program.\<close> RouteCat routes chat requests of buyers to provider nodes. Nodes register over HTTP and
  then hold a WebSocket connection; a buyer's request becomes a job of one connected node, whose answer is
  streamed back chunk by chunk. When the node reports the end of a job its tokens are metered, the node is
  credited and the buyer's prepaid balance charged. Buyers top up by paying Lightning invoices, which a
  goroutine polls; another pays the nodes what they earned, under an hourly cap. The state lives in
  an SQLite database (balances, jobs, invoices, payouts) and in the gateway's maps (connected nodes, pending jobs,
  a counter of jobs per buyer), which handlers and goroutines share under mutexes.

  \<^bold>\<open>Theories, and the code they model\<close> (paths are under \<open>src/internal\<close> unless they begin with \<open>cmd\<close>).
  \<^item> \<open>Prelude\<close>: 64-bit integers, byte strings and the functions of package \<open>strings\<close>, ranging over maps;
    \<open>Float64\<close>: IEEE doubles with rounding to nearest even, and what the other theories need of them;
    \<open>Json\<close>: the decoder and encoder of \<open>encoding/json\<close> as far as the source uses them.
  \<^item> \<open>PriceFeed\<close>: \<open>billing/btcprice.go\<close>. \<open>Billing\<close>: \<open>billing/billing.go\<close>. \<open>Router\<close>: \<open>router/router.go\<close>.
  \<^item> \<open>Store\<close>: \<open>store/sqlite.go\<close>, each method as the effect of its statements; \<open>Ledger\<close>: what the database
    promises over any sequence of its operations.
  \<^item> \<open>Usage\<close>: the pure helpers of \<open>gateway/gateway.go\<close>; \<open>Gateway\<close>: its maps, \<open>AssignJob\<close> and the handlers
    of the nodes' messages; \<open>Handlers\<close>: its HTTP handlers, the clean-up, the snapshots, and the relation
    \<open>gw_step\<close> of all of these; \<open>gateway/types.go\<close> is in both.
  \<^item> \<open>Slots\<close>, \<open>Nodes\<close>, \<open>Settlement\<close>: the invariants of \<open>gw_step\<close>, for counters and channels, for
    connections, for the books. \<open>Completion\<close>: what the end of a job does, in full; \<open>Leaks\<close>: the two ways a
    job is paid to its node and charged to nobody. \<open>Register\<close>, \<open>Crashes\<close>: registration and connection
    together; what the clean-up removes, and how it can end the process.
  \<^item> \<open>Interleave\<close>: \<open>AssignJob\<close>, \<open>handleReject\<close>, \<open>handleProxyDone\<close> and the clean-up as threads that go
    through their critical sections one at a time, in any order. \<open>Charges\<close>: the metering, recording and
    charging of jobs likewise, one statement of the database at a time.
  \<^item> \<open>RateLimit\<close>: \<open>gateway/middleware.go\<close>. \<open>Web\<close>: \<open>web/web.go\<close>. \<open>Server\<close>: \<open>gateway/server.go\<close> and how
    \<open>cmd/routecat/main.go\<close> puts the parts together.
  \<^item> \<open>Api\<close>: \<open>api/api.go\<close>; \<open>Chat\<close>, \<open>Streams\<close>, \<open>Topup\<close>: a chat request, the stream of its answer, and a
    top-up from end to end.
  \<^item> \<open>Encoding\<close>, \<open>Lightning\<close>: \<open>lightning/lightning.go\<close>; \<open>Payout\<close>: \<open>lightning/payout.go\<close>; \<open>Invoices\<close>:
    \<open>lightning/invoices.go\<close>.
  \<^item> \<open>System\<close>: the whole process, as events of requests, messages and ticks on the state that \<open>main\<close> builds.
    \<open>Lives\<close>: \<open>main\<close> from the command line on, and the sequence of processes, stopped or crashed, that work on one
    database file.

  Definitions have the names of the Go functions and types, with a suffix where HOL has the name already
  (\<open>New_gateway\<close>, \<open>CreateInvoice_lnd\<close>); fields keep their names, with a prefix per type.

  \<^bold>\<open>How the parts meet.\<close> The interfaces of the code are locales: \<open>node_source\<close> is what the router asks of
  the gateway (interpreted in \<open>Nodes\<close>), \<open>lightning_client\<close> what payouts and invoices ask of the LND
  client (in \<open>Lightning\<close>), \<open>metering\<close> what the gateway asks of the billing engine (in \<open>Billing\<close>), \<open>account_book\<close>
  the contract of balances (in \<open>Store\<close>), \<open>sliding_window\<close> the contract of the two limiters (in \<open>RateLimit\<close>
  and \<open>Api\<close>). \<open>process_refines_gateway\<close> shows that what the process does to the gateway is a run of \<open>gw_step\<close>,
  so that the invariants of the gateway hold for the process; \<open>process_solvent\<close> adds what it pays to nodes.
  In \<open>gw_step\<close> each handler is one step, \<open>AssignJob\<close> with its write to the WebSocket included, so nothing is shown
  there of what happens while a message is being sent. \<open>Interleave\<close> splits the handlers into their critical
  sections: \<open>handlers_are_schedules\<close> shows that the handlers are uninterrupted runs of its threads,
  \<open>limit_interleaved\<close> shows the limit of three jobs for all other schedules too, as long as nodes answer only for jobs
  they were sent and the clean-up takes only such jobs, and \<open>double_release_breaks_limit\<close> that the limit fails when
  they do not. No limit of jobs is therefore claimed of \<open>gw_step\<close> or of the process. \<open>charges_interleaved\<close> does for
  the books what \<open>limit_interleaved\<close> does for the counters. \<open>service_books\<close> needs no assumption on the database: it
  starts from a new file and follows it through any number of processes.

  \<^bold>\<open>What the lemmas show.\<close> Balances are credits less draws and never negative, an invoice is credited at most
  once, nodes are not recorded as paid more than they earned, confirmed payments keep to the cap per hour
  of a process, buyers are charged only for recorded jobs of theirs and within the caps; the limit of jobs per buyer
  where it holds, no double close, chunks in order, a stream ends with its job, the clean-up is exact; the limiter is a
  sliding window; routing picks the least busy node that serves the model; the encodings round-trip. Theorems on
  errors state where the code does not do what it means to, each with a run that shows it.

  \<^bold>\<open>Environment.\<close> What a handler reads from outside is an argument: times, random bytes, whether a
  WebSocket write succeeds, the order in which a map is visited, which database statements fail
  (\<open>driver\<close>), and the answers of the network given all calls made before (\<open>net\<close>). Theorems hold for every
  such argument unless they name a condition on it. A panic is a value of the model; a panic of a goroutine
  ends the process, one of a handler ends its connection.

  \<^bold>\<open>Bounds and fuel.\<close> \<open>int\<close> and \<open>int64\<close> are integers with \<open>wrap64\<close> wherever a sum or product could
  overflow. Only the JSON parser has fuel, twice the length of the text plus two, which is enough for every
  text (\<open>parse_value_fuel\<close>); the streaming loop is a relation, in which a blocked \<open>select\<close> is a state without
  a step, and ends with its job (\<open>stream_ends_with_job\<close>); all other functions are total by recursion. Loops of goroutines that run for ever are modelled by one turn.

  \<^bold>\<open>Abstractions.\<close> Response headers are left out, JSON responses are the values that are encoded. URL paths are
  taken without percent escapes. Timestamps of the database are whole seconds. A method of the
  store is one step, as the code opens a single connection. Outside \<open>Interleave\<close> and \<open>Charges\<close> a handler is one
  step, and so is a tick of the payout engine or of the invoice watcher; only the engine records payouts.

  \<^bold>\<open>Not modelled.\<close> Of \<open>main\<close> and \<open>server.go\<close>, parsing the flags, the sockets, TLS and printing are input and
  output; \<open>Stop\<close> and the closing of the database end a process and change nothing that outlives it, so a
  life in \<open>Lives\<close> just ends, anywhere; of \<open>store/sqlite.go\<close>, the text of the migrations beyond the tables and
  their constraints; of \<open>web/web.go\<close>, the bytes of the embedded files; of the WebSocket library, framing,
  keep-alive and the closing handshake. Log lines matter only where they slice a string.
\<close>

end
